(* ===== verification/C_Prelude.thy ===== *)
theory C_Prelude
  imports Main "HOL-Library.Word" "HOL-Library.Monad_Syntax"
begin

text \<open>
  What the C sources of this repository use of the language and its library, shared by every
  component: fixed-width integers as words, byte buffers as lists with explicit bounds (an access
  outside a buffer is \<open>None\<close>, C's undefined behaviour), little-endian encoding, NUL-terminated
  strings and the decimal conversions of \<open>sprintf\<close> and \<open>atol\<close>. The targets of the sources are
  little-endian 32-bit ARM systems.
\<close>

unbundle bit_operations_syntax

section \<open>Types and collections\<close>

type_synonym byte = "8 word"
type_synonym u16 = "16 word"
type_synonym u32 = "32 word"

text \<open>A C string without its terminating NUL.\<close>

type_synonym cstr = "byte list"

named_theorems buf_simps "bounded reads and writes of byte buffers"
named_theorems str_simps "C string functions"

section \<open>Byte buffers\<close>

definition rd :: "byte list \<Rightarrow> nat \<Rightarrow> byte option" where
  "rd m i = (if i < length m then Some (m ! i) else None)"

definition slice :: "byte list \<Rightarrow> nat \<Rightarrow> nat \<Rightarrow> byte list option" where
  "slice m off n = (if off + n \<le> length m then Some (take n (drop off m)) else None)"

definition put :: "byte list \<Rightarrow> nat \<Rightarrow> byte list \<Rightarrow> byte list option" where
  "put m off bs =
     (if off + length bs \<le> length m
      then Some (take off m @ bs @ drop (off + length bs) m) else None)"

section \<open>Little-endian integers\<close>

definition le16 :: "u16 \<Rightarrow> byte list" where
  "le16 w = [ucast w, ucast (drop_bit 8 w)]"

definition le32 :: "u32 \<Rightarrow> byte list" where
  "le32 w = [ucast w, ucast (drop_bit 8 w), ucast (drop_bit 16 w), ucast (drop_bit 24 w)]"

fun of_le16 :: "byte list \<Rightarrow> u16" where
  "of_le16 (a # b # _) = ucast a OR push_bit 8 (ucast b)"
| "of_le16 _ = 0"

fun of_le32 :: "byte list \<Rightarrow> u32" where
  "of_le32 (a # b # c # d # _) =
     ucast a OR push_bit 8 (ucast b) OR push_bit 16 (ucast c) OR push_bit 24 (ucast d)"
| "of_le32 _ = 0"

section \<open>C strings\<close>

definition bytes_of :: "string \<Rightarrow> cstr" where
  "bytes_of s = map of_char s"

definition strlen_at :: "byte list \<Rightarrow> nat \<Rightarrow> nat option" where
  "strlen_at m s =
     (if 0 \<in> set (drop s m) then Some (length (takeWhile (\<lambda>c. c \<noteq> 0) (drop s m))) else None)"

text \<open>The string at the start of a buffer.\<close>

definition c_str :: "byte list \<Rightarrow> cstr option" where
  "c_str b = (if 0 \<in> set b then Some (takeWhile (\<lambda>c. c \<noteq> 0) b) else None)"

text \<open>The \<open>n\<close> bytes \<open>strncpy\<close> stores: the string cut to \<open>n\<close>, padded with NULs.\<close>

definition strncpy_bytes :: "cstr \<Rightarrow> nat \<Rightarrow> byte list" where
  "strncpy_bytes s n = take n (s @ replicate n 0)"

text \<open>
  Whether \<open>memcmp(a, b, n)\<close> returns 0. The comparison stops at the first difference; reading
  past the end of either object before one is found is undefined.
\<close>

fun memcmp_eq :: "byte list \<Rightarrow> byte list \<Rightarrow> nat \<Rightarrow> bool option" where
  "memcmp_eq a b 0 = Some True"
| "memcmp_eq (x # a) (y # b) (Suc n) = (if x \<noteq> y then Some False else memcmp_eq a b n)"
| "memcmp_eq _ _ (Suc n) = None"

section \<open>Decimal numbers\<close>

fun dec_of_nat :: "nat \<Rightarrow> byte list" where
  "dec_of_nat n =
     (if n < 10 then [48 + of_nat n] else dec_of_nat (n div 10) @ [48 + of_nat (n mod 10)])"

declare dec_of_nat.simps [simp del]

text \<open>What \<open>printf\<close> writes for \<open>%d\<close>.\<close>

definition dec_of_int :: "int \<Rightarrow> byte list" where
  "dec_of_int i = (if i < 0 then 45 # dec_of_nat (nat (- i)) else dec_of_nat (nat i))"

definition is_digit :: "byte \<Rightarrow> bool" where
  "is_digit c \<longleftrightarrow> 48 \<le> c \<and> c \<le> 57"

definition is_space :: "byte \<Rightarrow> bool" where
  "is_space c \<longleftrightarrow> c = 32 \<or> 9 \<le> c \<and> c \<le> 13"

definition digits_val :: "byte list \<Rightarrow> nat" where
  "digits_val cs = foldl (\<lambda>v c. 10 * v + (unat c - 48)) 0 (takeWhile is_digit cs)"

text \<open>
  \<open>atol\<close> (and \<open>atoi\<close>) with a 32-bit result: leading white space, a sign, digits; values outside
  the range stop at its ends, as the C library's \<open>strtol\<close> does.
\<close>

definition atol :: "byte list \<Rightarrow> int" where
  "atol cs =
     (let t = dropWhile is_space cs;
          v = (case t of
                 [] \<Rightarrow> 0
               | c # r \<Rightarrow> (if c = 45 then - int (digits_val r)
                          else if c = 43 then int (digits_val r)
                          else int (digits_val t)))
      in max (- (2 ^ 31)) (min (2 ^ 31 - 1) v))"

section \<open>Partial correctness\<close>

text \<open>Every result of an operation, if it returns, satisfies \<open>Q\<close>.\<close>

definition ensures :: "'a option \<Rightarrow> ('a \<Rightarrow> bool) \<Rightarrow> bool" where
  "ensures f Q = (case f of None \<Rightarrow> True | Some x \<Rightarrow> Q x)"

named_theorems ensures_simps "what an operation ensures, from what its parts ensure"

lemma ensures_basic [ensures_simps]:
  "ensures None Q"
  "ensures (Some x) Q = Q x"
  "ensures (if c then f else f') Q = (if c then ensures f Q else ensures f' Q)"
  by (simp_all add: ensures_def)

lemma ensures_bind [ensures_simps]: "ensures (f \<bind> g) Q = ensures f (\<lambda>x. ensures (g x) Q)"
  by (simp add: ensures_def split: option.splits bind_splits)

lemma ensures_map_option [ensures_simps]: "ensures (map_option h f) Q = ensures f (\<lambda>x. Q (h x))"
  by (simp add: ensures_def split: option.splits)

lemma ensures_conseq: "ensures f P \<Longrightarrow> (\<And>x. P x \<Longrightarrow> Q x) \<Longrightarrow> ensures f Q"
  by (auto simp: ensures_def split: option.splits)

lemma ensures_all: "(\<And>x. Q x) \<Longrightarrow> ensures f Q"
  by (auto simp: ensures_def split: option.splits)

lemma ensuresD: "ensures f Q \<Longrightarrow> f = Some x \<Longrightarrow> Q x"
  by (simp add: ensures_def)

lemma ensuresI: "(\<And>x. f = Some x \<Longrightarrow> Q x) \<Longrightarrow> ensures f Q"
  by (simp add: ensures_def split: option.splits)

section \<open>Lemmas: buffers\<close>

lemma rd_Some [buf_simps]: "i < length m \<Longrightarrow> rd m i = Some (m ! i)"
  by (simp add: rd_def)

lemma rd_eq_Some_iff: "rd m i = Some c \<longleftrightarrow> i < length m \<and> m ! i = c"
  by (auto simp: rd_def)

lemma rd_append1: "i < length a \<Longrightarrow> rd (a @ b) i = Some (a ! i)"
  by (simp add: rd_def nth_append)

lemma rd_append2: "rd (a @ b) (length a + i) = rd b i"
  by (simp add: rd_def nth_append)

lemma slice_eq_Some_iff:
  "slice m off n = Some bs \<longleftrightarrow> off + n \<le> length m \<and> bs = take n (drop off m)"
  by (auto simp: slice_def)

lemma length_slice: "slice m off n = Some bs \<Longrightarrow> length bs = n"
  by (auto simp: slice_def split: if_splits)

lemma put_eq_Some_iff:
  "put m off bs = Some m' \<longleftrightarrow>
     off + length bs \<le> length m \<and> m' = take off m @ bs @ drop (off + length bs) m"
  by (auto simp: put_def)

lemma length_put: "put m off bs = Some m' \<Longrightarrow> length m' = length m"
  by (auto simp: put_def split: if_splits)

lemma slice_put_same: "put m off bs = Some m' \<Longrightarrow> slice m' off (length bs) = Some bs"
  by (auto simp: put_def slice_def split: if_splits)

lemma put_whole: "length bs = length m \<Longrightarrow> put m 0 bs = Some bs"
  by (simp add: put_def)

lemma put_append: "put (a @ b @ c) (length a) b' = Some (a @ b' @ c)" if "length b' = length b"
  using that by (simp add: put_def)

section \<open>Lemmas: C strings\<close>

lemma c_str_append: "0 \<notin> set s \<Longrightarrow> c_str (s @ 0 # r) = Some s"
proof -
  assume "0 \<notin> set s"
  then have "takeWhile (\<lambda>c. c \<noteq> 0) (s @ 0 # r) = s @ takeWhile (\<lambda>c. c \<noteq> 0) (0 # r)"
    by (intro takeWhile_append2) auto
  then show ?thesis
    by (simp add: c_str_def)
qed

lemma c_str_replicate: "0 \<notin> set s \<Longrightarrow> 0 < n \<Longrightarrow> c_str (s @ replicate n 0) = Some s"
  using c_str_append [of s "replicate (n - 1) 0"] by (cases n) simp_all

section \<open>Lemmas: little-endian integers\<close>

lemma length_le16 [simp]: "length (le16 w) = 2"
  by (simp add: le16_def)

lemma length_le32 [simp]: "length (le32 w) = 4"
  by (simp add: le32_def)

lemma of_le16_le16 [simp]: "of_le16 (le16 w @ r) = w"
  by (rule bit_word_eqI) (auto simp: le16_def bit_simps)

lemma of_le32_le32 [simp]: "of_le32 (le32 w @ r) = w"
proof (rule bit_word_eqI)
  fix n assume "n < LENGTH(32)"
  then consider "n < 8" | "8 \<le> n" "n < 16" | "16 \<le> n" "n < 24" | "24 \<le> n" "n < 32"
    by force
  then show "bit (of_le32 (le32 w @ r)) n = bit w n"
    by cases (auto simp: le32_def bit_simps)
qed

lemmas of_le16_le16' [simp] = of_le16_le16 [where r = "[]", simplified]
lemmas of_le32_le32' [simp] = of_le32_le32 [where r = "[]", simplified]

lemma le32_of_le32:
  assumes "length bs = 4"
  shows "le32 (of_le32 bs) = bs"
proof -
  from assms obtain a b c d where "bs = [a, b, c, d]"
    by (auto simp: numeral_eq_Suc length_Suc_conv)
  then show ?thesis
    by (auto simp: le32_def intro!: bit_word_eqI) (auto simp: bit_simps dest: bit_imp_le_length)
qed

lemma le32_of_le32_take: "4 \<le> length bs \<Longrightarrow> le32 (of_le32 bs) = take 4 bs"
proof -
  assume "4 \<le> length bs"
  then obtain a b c d r where "bs = a # b # c # d # r"
    by (metis (no_types, lifting) One_nat_def Suc_le_length_iff numeral_Bit0 numeral_One add_Suc
        plus_nat.add_0)
  then show ?thesis
    using le32_of_le32 [of "[a, b, c, d]"] by simp
qed

lemma le32_inject [simp]: "le32 a = le32 b \<longleftrightarrow> a = b"
  using of_le32_le32' by metis

lemma of_le32_zeros [simp]: "of_le32 (replicate n 0) = 0"
proof -
  have "\<forall>b \<in> set bs. b = 0 \<Longrightarrow> of_le32 bs = 0" for bs
    by (cases bs rule: of_le32.cases) auto
  then show ?thesis by simp
qed

lemma sint_small: "unat w < 2 ^ 31 \<Longrightarrow> sint w = int (unat w)" for w :: u32
proof -
  assume "unat w < 2 ^ 31"
  then have "uint w < 2 ^ 31"
    by (simp only: unat_eq_nat_uint nat_less_iff uint_ge_0) simp
  then have "signed_take_bit 31 (uint w) = uint w"
    by (intro signed_take_bit_int_eq_self) (auto intro: order_trans [OF _ uint_ge_0])
  moreover have "sint w = signed_take_bit 31 (uint w)"
    by (simp only: sint_uint) simp
  ultimately show ?thesis
    by (simp only: uint_nat)
qed

section \<open>Lemmas: decimal numbers\<close>

lemma unat_digit: "n < 10 \<Longrightarrow> unat (48 + of_nat n :: byte) = 48 + n"
  by (simp add: unat_word_ariths unat_of_nat)

lemma is_digit_of_nat: "n < 10 \<Longrightarrow> is_digit (48 + of_nat n)"
  by (simp add: is_digit_def word_le_nat_alt unat_digit)

lemma dec_of_nat_digits: "c \<in> set (dec_of_nat n) \<Longrightarrow> is_digit c"
proof (induction n rule: dec_of_nat.induct)
  case (1 n)
  then show ?case
    by (subst (asm) dec_of_nat.simps) (auto simp: is_digit_of_nat split: if_splits)
qed

lemma dec_of_nat_nonempty [simp]: "dec_of_nat n \<noteq> []"
  by (subst dec_of_nat.simps) simp

lemma takeWhile_dec_of_nat [simp]: "takeWhile is_digit (dec_of_nat n) = dec_of_nat n"
  by (simp add: takeWhile_eq_all_conv dec_of_nat_digits)

lemma digits_val_dec_of_nat [simp]: "digits_val (dec_of_nat n) = n"
proof -
  have "foldl (\<lambda>v c. 10 * v + (unat c - 48)) 0 (dec_of_nat n) = n"
  proof (induction n rule: dec_of_nat.induct)
    case (1 n)
    then show ?case
      by (subst dec_of_nat.simps) (simp add: unat_digit)
  qed
  then show ?thesis
    by (simp add: digits_val_def)
qed

lemma is_digit_not: "is_digit c \<Longrightarrow> \<not> is_space c \<and> c \<noteq> 45 \<and> c \<noteq> 43 \<and> c \<noteq> 0 \<and> c \<noteq> 32 \<and> c \<noteq> 58"
  by (auto simp: is_digit_def is_space_def word_le_nat_alt)

lemma dec_of_nat_hd: "is_digit (hd (dec_of_nat n))"
  by (rule dec_of_nat_digits [of _ n]) simp

lemma length_dec_of_nat: "n < 10 ^ k \<Longrightarrow> 0 < k \<Longrightarrow> length (dec_of_nat n) \<le> k"
proof (induction k arbitrary: n)
  case (Suc k)
  show ?case
  proof (cases "n < 10")
    case True
    then show ?thesis by (subst dec_of_nat.simps) simp
  next
    case False
    with Suc.prems have "0 < k"
      by (cases k) auto
    moreover have "n div 10 < 10 ^ k"
      using Suc.prems by (simp add: less_mult_imp_div_less mult.commute)
    ultimately show ?thesis
      using False Suc.IH [of "n div 10"] by (subst dec_of_nat.simps) simp
  qed
qed simp

lemma atol_dec_of_int:
  assumes "0 \<le> i" "i < 2 ^ 31"
  shows "atol (dec_of_int i) = i"
proof -
  obtain c r where c: "dec_of_nat (nat i) = c # r"
    by (cases "dec_of_nat (nat i)") auto
  then have "\<not> is_space c" "c \<noteq> 45" "c \<noteq> 43"
    using dec_of_nat_hd [of "nat i"] is_digit_not by auto
  then show ?thesis
    using assms c digits_val_dec_of_nat [of "nat i"] by (simp add: atol_def dec_of_int_def)
qed

end
