(* ===== verification/Sst_Device.thy ===== *)
theory Sst_Device
  imports C_Prelude
begin

text \<open>
  The lowest layer of the keybox library: reading and writing one 4096-byte item of the secure
  storage. \<open>secure_storage.c\<close> goes through the raw eMMC device file or the NAND driver,
  \<open>secure_storage_ioctl.c\<close> through the driver behind \<open>/dev/sst_storage\<close>.

  The eMMC device file is a byte-addressed store with the semantics of \<open>lseek\<close>, \<open>read\<close> and
  \<open>write\<close>. What the operating system answers (whether \<open>malloc\<close>, \<open>open\<close> or \<open>lseek\<close> succeed, how
  many bytes a transfer moves) is the parameter \<open>'k os\<close> of every operation, so each error path of
  the code is a branch of the model. The two kernel drivers are not part of the sources: their
  \<open>ioctl\<close> requests are fields of the same parameter, working on a driver state \<open>'k\<close>.

  A pointer that may be NULL is an \<open>option\<close>; results are the C return code and the buffer.
\<close>

section \<open>Constants and types\<close>

definition SEC_BLK_SIZE :: nat where "SEC_BLK_SIZE = 4096"
definition MAX_SECURE_STORAGE_MAX_ITEM :: int where "MAX_SECURE_STORAGE_MAX_ITEM = 32"
definition SDMMC_SECTOR_SIZE :: int where "SDMMC_SECTOR_SIZE = 512"
definition SDMMC_SECURE_STORAGE_START_ADD :: int where
  "SDMMC_SECURE_STORAGE_START_ADD = 6 * 1024 * 1024 div 512"
definition SDMMC_ITEM_SIZE :: int where "SDMMC_ITEM_SIZE = 4 * 1024 div 512"
definition sd_oem_path :: string where "sd_oem_path = ''/dev/mmcblk0''"
definition nand_oem_path :: string where "nand_oem_path = ''/dev/nand0''"
definition nand_oem_path_mtd :: string where "nand_oem_path_mtd = ''/dev/mtd2''"
definition OEM_PATH :: string where "OEM_PATH = ''/dev/sst_storage''"

text \<open>The arguments of the drivers' requests; the data buffer is passed beside them.\<close>

record secblc_op_t =
  op_item :: int
  op_len :: nat

record sst_storage_data =
  sst_id :: int
  sst_len :: nat
  sst_offset :: int

text \<open>
  The operating system. \<open>os_cmdline\<close> is the text of \<open>/proc/cmdline\<close>, if the file can be opened.
  \<open>os_fresh n\<close> are the \<open>n\<close> indeterminate bytes of a block just allocated.
  \<open>os_read off len\<close> and \<open>os_write off len\<close> are the return values of
  \<open>read\<close> and \<open>write\<close> at that position of the eMMC device. A driver's read request returns its
  result and the bytes it copied to the buffer, a write request its result and the new driver state.
\<close>

record 'k os =
  os_malloc :: "nat \<Rightarrow> bool"
  os_fresh :: "nat \<Rightarrow> byte list"
  os_access :: "string \<Rightarrow> bool"
  os_open :: "string \<Rightarrow> bool"
  os_cmdline :: "cstr option"
  os_lseek :: "int \<Rightarrow> bool"
  os_read :: "int \<Rightarrow> nat \<Rightarrow> int"
  os_write :: "int \<Rightarrow> nat \<Rightarrow> int"
  os_secblk_read :: "'k \<Rightarrow> string \<Rightarrow> secblc_op_t \<Rightarrow> int \<times> byte list"
  os_secblk_write :: "'k \<Rightarrow> string \<Rightarrow> secblc_op_t \<Rightarrow> byte list \<Rightarrow> int \<times> 'k"
  os_sst_read :: "'k \<Rightarrow> sst_storage_data \<Rightarrow> int \<times> byte list"
  os_sst_write :: "'k \<Rightarrow> sst_storage_data \<Rightarrow> byte list \<Rightarrow> int \<times> 'k"

record 'k dev =
  sd_bytes :: "int \<Rightarrow> byte"
  drv :: 'k

section \<open>Transfers\<close>

text \<open>\<open>len\<close> bytes stored at the front of a buffer.\<close>

definition overlay :: "byte list \<Rightarrow> byte list \<Rightarrow> byte list" where
  "overlay buf bs = bs @ drop (length bs) buf"

definition pread :: "'k dev \<Rightarrow> int \<Rightarrow> nat \<Rightarrow> byte list" where
  "pread d off n = map (\<lambda>i. sd_bytes d (off + int i)) [0..<n]"

definition pwrite :: "'k dev \<Rightarrow> int \<Rightarrow> byte list \<Rightarrow> 'k dev" where
  "pwrite d off bs =
     d\<lparr>sd_bytes := (\<lambda>a. if off \<le> a \<and> a < off + int (length bs) then bs ! nat (a - off)
                     else sd_bytes d a)\<rparr>"

text \<open>\<open>write\<close>: the bytes it reports as written are on the device, also after a short write.\<close>

definition os_pwrite :: "'k os \<Rightarrow> 'k dev \<Rightarrow> int \<Rightarrow> byte list \<Rightarrow> int \<times> 'k dev" where
  "os_pwrite os d off bs =
     (let ret = os_write os off (length bs)
      in (ret, pwrite d off (take (nat ret) bs)))"

section \<open>secure_storage.c: device access\<close>

definition sd_offset :: "int \<Rightarrow> int" where
  "sd_offset item = (SDMMC_SECURE_STORAGE_START_ADD + SDMMC_ITEM_SIZE * 2 * item) * SDMMC_SECTOR_SIZE"

definition sd_offset_backup :: "int \<Rightarrow> int" where
  "sd_offset_backup item =
     (SDMMC_SECURE_STORAGE_START_ADD + SDMMC_ITEM_SIZE * 2 * item + SDMMC_ITEM_SIZE) * SDMMC_SECTOR_SIZE"

definition nand_dev :: "'k os \<Rightarrow> string option" where
  "nand_dev os =
     (if os_access os nand_oem_path then Some nand_oem_path
      else if os_access os nand_oem_path_mtd then Some nand_oem_path_mtd
      else None)"

definition nand_read ::
    "'k os \<Rightarrow> 'k dev \<Rightarrow> int \<Rightarrow> byte list option \<Rightarrow> nat \<Rightarrow> int \<times> byte list option" where
  "nand_read os d item buf len =
     (case buf of None \<Rightarrow> (-1, None) | Some b \<Rightarrow>
      if MAX_SECURE_STORAGE_MAX_ITEM < item then (-1, buf)
      else case nand_dev os of None \<Rightarrow> (-1, buf) | Some path \<Rightarrow>
      if \<not> os_open os path then (-1, buf)
      else if \<not> os_malloc os 12 then (-1, buf)
      else
        let (ret, bs) = os_secblk_read os (drv d) path \<lparr>op_item = item, op_len = len\<rparr>
        in (if ret < 0 then -1 else 0, Some (overlay b bs)))"

definition nand_write ::
    "'k os \<Rightarrow> 'k dev \<Rightarrow> int \<Rightarrow> byte list option \<Rightarrow> nat \<Rightarrow> int \<times> 'k dev" where
  "nand_write os d item buf len =
     (case buf of None \<Rightarrow> (-1, d) | Some b \<Rightarrow>
      if MAX_SECURE_STORAGE_MAX_ITEM < item then (-1, d)
      else case nand_dev os of None \<Rightarrow> (-1, d) | Some path \<Rightarrow>
      if \<not> os_open os path then (-1, d)
      else if \<not> os_malloc os 12 then (-1, d)
      else
        let (ret, k) = os_secblk_write os (drv d) path \<lparr>op_item = item, op_len = len\<rparr> (take len b)
        in (if ret < 0 then -1 else 0, d\<lparr>drv := k\<rparr>))"

text \<open>The body \<open>_sd_read\<close> and \<open>_sd_read_backup\<close> have in common; they differ in the offset.\<close>

definition sd_read_from ::
    "int \<Rightarrow> 'k os \<Rightarrow> 'k dev \<Rightarrow> int \<Rightarrow> byte list option \<Rightarrow> nat \<Rightarrow> int \<times> byte list option" where
  "sd_read_from offset os d item buf len =
     (case buf of None \<Rightarrow> (-1, None) | Some b \<Rightarrow>
      if MAX_SECURE_STORAGE_MAX_ITEM < item then (-1, buf)
      else if \<not> os_malloc os (SEC_BLK_SIZE + 64) then (-1, buf)
      else if \<not> os_open os sd_oem_path then (-1, buf)
      else if \<not> os_lseek os offset then (-1, buf)
      else if os_read os offset len \<noteq> int len then (-1, buf)
      else (0, Some (overlay b (pread d offset len))))"

definition sd_read ::
    "'k os \<Rightarrow> 'k dev \<Rightarrow> int \<Rightarrow> byte list option \<Rightarrow> nat \<Rightarrow> int \<times> byte list option" where
  "sd_read os d item = sd_read_from (sd_offset item) os d item"

definition sd_read_backup ::
    "'k os \<Rightarrow> 'k dev \<Rightarrow> int \<Rightarrow> byte list option \<Rightarrow> nat \<Rightarrow> int \<times> byte list option" where
  "sd_read_backup os d item = sd_read_from (sd_offset_backup item) os d item"

definition sd_write ::
    "'k os \<Rightarrow> 'k dev \<Rightarrow> int \<Rightarrow> byte list option \<Rightarrow> nat \<Rightarrow> int \<times> 'k dev" where
  "sd_write os d item buf len =
     (case buf of None \<Rightarrow> (-1, d) | Some b \<Rightarrow>
      if MAX_SECURE_STORAGE_MAX_ITEM < item then (-1, d)
      else if \<not> os_malloc os (SEC_BLK_SIZE + 64) then (-1, d)
      else if \<not> os_open os sd_oem_path then (-1, d)
      else if \<not> os_lseek os (sd_offset item) then (-1, d)
      else
        let (ret, d1) = os_pwrite os d (sd_offset item) (take len b)
        in if ret \<noteq> int len then (-1, d1)
           else if \<not> os_lseek os (sd_offset_backup item) then (-1, d1)
           else
             let (ret, d2) = os_pwrite os d1 (sd_offset_backup item) (take len b)
             in if ret \<noteq> int len then (-1, d2) else (0, d2))"

text \<open>
  The transfers go through a buffer of \<open>SEC_BLK_SIZE + 64\<close> bytes, from its first address
  after \<open>p\<close> that is a multiple of 32.
\<close>

definition sd_align :: "u32 \<Rightarrow> u32" where
  "sd_align p = (p + 0x20) AND NOT 0x1f"

section \<open>secure_storage_ioctl.c\<close>

definition sst_read ::
    "int \<Rightarrow> 'k os \<Rightarrow> 'k dev \<Rightarrow> int \<Rightarrow> byte list option \<Rightarrow> nat \<Rightarrow> int \<times> byte list option" where
  "sst_read offset os d item buf len =
     (case buf of None \<Rightarrow> (-1, None) | Some b \<Rightarrow>
      if MAX_SECURE_STORAGE_MAX_ITEM < item then (-1, buf)
      else if \<not> os_open os OEM_PATH then (-1, buf)
      else if \<not> os_malloc os 16 then (-1, buf)
      else
        let (ret, bs) = os_sst_read os (drv d) \<lparr>sst_id = item, sst_len = len, sst_offset = offset\<rparr>
        in (if ret < 0 then -1 else 0, Some (overlay b bs)))"

definition nand_read_ioctl ::
    "'k os \<Rightarrow> 'k dev \<Rightarrow> int \<Rightarrow> byte list option \<Rightarrow> nat \<Rightarrow> int \<times> byte list option" where
  "nand_read_ioctl = sst_read 0"

definition nand_write_ioctl ::
    "'k os \<Rightarrow> 'k dev \<Rightarrow> int \<Rightarrow> byte list option \<Rightarrow> nat \<Rightarrow> int \<times> 'k dev" where
  "nand_write_ioctl os d item buf len =
     (case buf of None \<Rightarrow> (-1, d) | Some b \<Rightarrow>
      if MAX_SECURE_STORAGE_MAX_ITEM < item then (-1, d)
      else if \<not> os_open os OEM_PATH then (-1, d)
      else if \<not> os_malloc os 16 then (-1, d)
      else
        let (ret, k) = os_sst_write os (drv d)
              \<lparr>sst_id = item, sst_len = len, sst_offset = 0\<rparr> (take len b)
        in (if ret < 0 then -1 else 0, d\<lparr>drv := k\<rparr>))"

definition sd_read_ioctl ::
    "'k os \<Rightarrow> 'k dev \<Rightarrow> int \<Rightarrow> byte list option \<Rightarrow> nat \<Rightarrow> int \<times> byte list option" where
  "sd_read_ioctl os d item = sst_read (sd_offset item) os d item"

definition sd_read_backup_ioctl ::
    "'k os \<Rightarrow> 'k dev \<Rightarrow> int \<Rightarrow> byte list option \<Rightarrow> nat \<Rightarrow> int \<times> byte list option" where
  "sd_read_backup_ioctl os d item = sst_read (sd_offset_backup item) os d item"

definition sd_write_ioctl ::
    "'k os \<Rightarrow> 'k dev \<Rightarrow> int \<Rightarrow> byte list option \<Rightarrow> nat \<Rightarrow> int \<times> 'k dev" where
  "sd_write_ioctl os d item buf len =
     (case buf of None \<Rightarrow> (-1, d) | Some b \<Rightarrow>
      if MAX_SECURE_STORAGE_MAX_ITEM < item then (-1, d)
      else if \<not> os_open os OEM_PATH then (-1, d)
      else if \<not> os_malloc os 16 then (-1, d)
      else
        let (ret, k) = os_sst_write os (drv d)
              \<lparr>sst_id = item, sst_len = len, sst_offset = sd_offset item\<rparr> (take len b)
        in if ret < 0 then (-1, d\<lparr>drv := k\<rparr>)
           else
             let (ret, k) = os_sst_write os k
                   \<lparr>sst_id = item, sst_len = len, sst_offset = sd_offset_backup item\<rparr> (take len b)
             in (if ret < 0 then -1 else 0, d\<lparr>drv := k\<rparr>))"

section \<open>Lemmas: transfers\<close>

lemma length_overlay: "length bs \<le> length buf \<Longrightarrow> length (overlay buf bs) = length buf"
  by (simp add: overlay_def)

lemma overlay_full [simp]: "length buf \<le> length bs \<Longrightarrow> overlay buf bs = bs"
  by (simp add: overlay_def)

lemma length_pread [simp]: "length (pread d off n) = n"
  by (simp add: pread_def)

lemma pread_pwrite_same [simp]: "pread (pwrite d off bs) off (length bs) = bs"
  by (auto simp: pread_def pwrite_def intro!: nth_equalityI)

lemma pread_pwrite_other:
  "off' + int n \<le> off \<or> off + int (length bs) \<le> off' \<Longrightarrow>
   pread (pwrite d off bs) off' n = pread d off' n"
  by (auto simp: pread_def pwrite_def)

lemma drv_pwrite [simp]: "drv (pwrite d off bs) = drv d"
  by (simp add: pwrite_def)

section \<open>Lemmas: the layout of the items on the eMMC device\<close>

lemmas sd_layout_defs = sd_offset_def sd_offset_backup_def SDMMC_SECURE_STORAGE_START_ADD_def
  SDMMC_ITEM_SIZE_def SDMMC_SECTOR_SIZE_def

lemma sd_offset_eq: "sd_offset item = 6291456 + 8192 * item"
  by (simp add: sd_layout_defs)

lemma sd_offset_backup_eq: "sd_offset_backup item = 6295552 + 8192 * item"
  by (simp add: sd_layout_defs)

lemma sd_items_apart:
  "i \<noteq> j \<Longrightarrow> sd_offset i + 4096 \<le> sd_offset j \<or> sd_offset j + 4096 \<le> sd_offset i"
  "i \<noteq> j \<Longrightarrow> sd_offset_backup i + 4096 \<le> sd_offset_backup j \<or> sd_offset_backup j + 4096 \<le> sd_offset_backup i"
  "sd_offset i + 4096 \<le> sd_offset_backup j \<or> sd_offset_backup j + 4096 \<le> sd_offset i"
  by (auto simp: sd_offset_eq sd_offset_backup_eq)

section \<open>Lemmas: transfers on a working device\<close>

text \<open>No system call on the eMMC path fails or transfers less than it was asked for.\<close>

definition sd_reliable :: "'k os \<Rightarrow> bool" where
  "sd_reliable os \<longleftrightarrow>
     os_malloc os (SEC_BLK_SIZE + 64) \<and> os_open os sd_oem_path \<and> (\<forall>off. os_lseek os off) \<and>
     (\<forall>off n. os_read os off n = int n) \<and> (\<forall>off n. os_write os off n = int n)"

lemma sd_read_reliable:
  assumes "sd_reliable os" "item \<le> 32" "length b = n"
  shows "sd_read os d item (Some b) n = (0, Some (pread d (sd_offset item) n))"
    and "sd_read_backup os d item (Some b) n = (0, Some (pread d (sd_offset_backup item) n))"
  using assms by (auto simp: sd_reliable_def sd_read_def sd_read_backup_def sd_read_from_def
      MAX_SECURE_STORAGE_MAX_ITEM_def)

lemma sd_write_reliable:
  assumes "sd_reliable os" "item \<le> 32" "length b = n"
  shows "sd_write os d item (Some b) n =
    (0, pwrite (pwrite d (sd_offset item) b) (sd_offset_backup item) b)"
  using assms by (auto simp: sd_reliable_def sd_write_def os_pwrite_def
      MAX_SECURE_STORAGE_MAX_ITEM_def)

lemma sd_align_eq: "sd_align p = push_bit 5 (drop_bit 5 (p + 32))"
proof -
  have m: "(0x1f :: u32) = mask 5"
    by (simp add: mask_eq_exp_minus_1)
  have "(p + 32) AND NOT (mask 5) = push_bit 5 (drop_bit 5 (p + 32))"
  proof (rule bit_word_eqI)
    fix n assume "n < LENGTH(32)"
    then show "bit ((p + 32) AND NOT (mask 5)) n = bit (push_bit 5 (drop_bit 5 (p + 32))) n"
      by (cases "n < 5") (auto simp: bit_simps)
  qed
  then show ?thesis
    unfolding sd_align_def m by simp
qed

lemma unat_sd_align:
  assumes "unat p + 32 < 2 ^ 32"
  shows "unat (sd_align p) = (unat p + 32) div 32 * 32"
proof -
  have p: "unat (p + 32) = unat p + 32"
    using assms by (simp add: unat_word_ariths)
  have b: "(unat p + 32) div 32 * 32 < 2 ^ 32"
    using assms by (rule le_less_trans [rotated]) simp
  have "unat (drop_bit 5 (p + 32)) = (unat p + 32) div 32"
    by (simp only: unsigned_drop_bit_eq p) (use assms in \<open>simp add: take_bit_nat_eq_self drop_bit_eq_div\<close>)
  moreover have "unat (push_bit 5 w) = take_bit 32 (unat w * 32)" for w :: u32
    by (simp only: unsigned_push_bit_eq) (simp add: push_bit_eq_mult)
  ultimately show ?thesis
    using b by (simp only: sd_align_eq) (simp add: take_bit_nat_eq_self)
qed

end
