(* ===== verification/Sst_Object.thy ===== *)
theory Sst_Object
  imports Crc32 Sst_Device
begin

text \<open>
  The secure object of \<open>secure_storage.c\<close>: the packed struct \<open>store_object_t\<close> in front of a
  4096-byte item, the checks of an item read back, and \<open>wrap_secure_object\<close> and
  \<open>unwrap_secure_object\<close>. An access outside the buffers passed in is \<open>None\<close>.
\<close>

section \<open>The struct and its bytes\<close>

definition MAX_STORE_LEN :: nat where "MAX_STORE_LEN = 0xc00"
definition STORE_OBJECT_MAGIC :: u32 where "STORE_OBJECT_MAGIC = 0x17253948"
definition STORE_REENCRYPT_MAGIC :: u32 where "STORE_REENCRYPT_MAGIC = 0x86734716"
definition STORE_WRITE_PROTECT_MAGIC :: u32 where "STORE_WRITE_PROTECT_MAGIC = 0x8ad3820f"
definition SUNXI_SECSTORE_VERSION :: u32 where "SUNXI_SECSTORE_VERSION = 1"

record store_object_t =
  magic :: u32
  obj_id :: u32
  obj_name :: "byte list"
  re_encrypt :: u32
  version :: u32
  write_protect :: u32
  reserved :: "byte list"
  actual_len :: u32
  data :: "byte list"
  crc :: u32

definition sizeof_store_object :: nat where "sizeof_store_object = 3176"

text \<open>The packed layout, and the cast \<open>(store_object_t *)\<close> that reads a buffer through it.\<close>

definition object_body :: "store_object_t \<Rightarrow> byte list" where
  "object_body obj =
     le32 (magic obj) @ le32 (obj_id obj) @ obj_name obj @ le32 (re_encrypt obj) @
     le32 (version obj) @ le32 (write_protect obj) @ reserved obj @ le32 (actual_len obj) @ data obj"

definition object_bytes :: "store_object_t \<Rightarrow> byte list" where
  "object_bytes obj = object_body obj @ le32 (crc obj)"

definition object_of :: "byte list \<Rightarrow> store_object_t" where
  "object_of b =
     \<lparr>magic = of_le32 b, obj_id = of_le32 (drop 4 b), obj_name = take 64 (drop 8 b),
      re_encrypt = of_le32 (drop 72 b), version = of_le32 (drop 76 b),
      write_protect = of_le32 (drop 80 b), reserved = take 12 (drop 84 b),
      actual_len = of_le32 (drop 96 b), data = take 3072 (drop 100 b),
      crc = of_le32 (drop 3172 b)\<rparr>"

text \<open>The checksum of a buffer; it does not depend on the alignment of its address.\<close>

definition crc_of :: "byte list \<Rightarrow> u32" where
  "crc_of bs = crc32 0 0 bs"

section \<open>Operations\<close>

definition check_secure_storage_key :: "byte list \<Rightarrow> int" where
  "check_secure_storage_key buffer =
     (let obj = object_of buffer
      in if magic obj \<noteq> STORE_OBJECT_MAGIC then -1
         else if crc obj \<noteq> crc_of (take (sizeof_store_object - 4) buffer) then -1
         else 0)"

text \<open>
  \<open>unwrap_secure_object src len payload retLen\<close>: the return code, the payload buffer and
  \<open>*retLen\<close> afterwards.
\<close>

definition unwrap_secure_object ::
    "byte list \<Rightarrow> int \<Rightarrow> byte list \<Rightarrow> int \<Rightarrow> (int \<times> byte list \<times> int) option" where
  "unwrap_secure_object src len payload retLen =
     (if len \<noteq> int sizeof_store_object then Some (-1, payload, retLen)
      else
        let obj = object_of src
        in if magic obj \<noteq> STORE_OBJECT_MAGIC then Some (-1, payload, retLen)
           else if crc obj \<noteq> crc_of (take (sizeof_store_object - 4) src)
           then Some (-1, payload, retLen)
           else do {
             bs \<leftarrow> slice src 100 (unat (actual_len obj));
             payload' \<leftarrow> put payload 0 bs;
             Some (0, payload', sint (actual_len obj))
           })"

text \<open>
  \<open>wrap_secure_object src name len tagt\<close>: the return code, the target buffer and \<open>*retLen\<close>
  afterwards (\<open>None\<close> where the code leaves it alone).
\<close>

definition wrap_secure_object ::
    "byte list \<Rightarrow> cstr \<Rightarrow> u32 \<Rightarrow> byte list \<Rightarrow> (int \<times> byte list \<times> int option) option" where
  "wrap_secure_object src name len tagt =
     (if MAX_STORE_LEN < unat len then Some (-1, tagt, None)
      else do {
        bs \<leftarrow> slice src 0 (unat len);
        let obj = object_of tagt;
        let obj = obj
          \<lparr>magic := STORE_OBJECT_MAGIC,
           obj_name := strncpy_bytes name 64,
           re_encrypt := 0,
           version := SUNXI_SECSTORE_VERSION,
           obj_id := 0,
           write_protect := 0,
           reserved := overlay (reserved obj) (replicate 4 0),
           actual_len := len,
           data := overlay (data obj) bs\<rparr>;
        let obj = obj\<lparr>crc := crc_of (object_body obj)\<rparr>;
        Some (0, overlay tagt (object_bytes obj), Some (int sizeof_store_object))
      })"

section \<open>Lemmas: the layout\<close>

definition object_wf :: "store_object_t \<Rightarrow> bool" where
  "object_wf obj \<longleftrightarrow> length (obj_name obj) = 64 \<and> length (reserved obj) = 12 \<and> length (data obj) = 3072"

lemma length_object_body: "object_wf obj \<Longrightarrow> length (object_body obj) = 3172"
  by (simp add: object_wf_def object_body_def)

lemma length_object_bytes: "object_wf obj \<Longrightarrow> length (object_bytes obj) = 3176"
  by (simp add: object_bytes_def length_object_body)

lemma object_of_bytes: "object_wf obj \<Longrightarrow> object_of (object_bytes obj @ r) = obj"
  by (simp add: object_wf_def object_of_def object_bytes_def object_body_def)

lemma object_of_wf: "3176 \<le> length b \<Longrightarrow> object_wf (object_of b)"
  by (simp add: object_wf_def object_of_def)

lemma take_object_bytes: "object_wf obj \<Longrightarrow> take 3172 (object_bytes obj) = object_body obj"
  by (simp add: object_bytes_def length_object_body)

lemma length_strncpy_bytes [simp]: "length (strncpy_bytes s n) = n"
  by (simp add: strncpy_bytes_def)

lemma crc_of_eq: "crc_of bs = crc32 p 0 bs"
  by (simp add: crc_of_def crc32_def crc32_no_comp_bytes)

lemma drop_object_bytes:
  "object_wf obj \<Longrightarrow> drop 100 (object_bytes obj) = data obj @ le32 (crc obj)"
  by (simp add: object_wf_def object_bytes_def object_body_def)

section \<open>Lemmas: valid objects\<close>

text \<open>A buffer that holds a valid object: what \<open>wrap_secure_object\<close> makes and the checks accept.\<close>

definition valid_object :: "store_object_t \<Rightarrow> bool" where
  "valid_object obj \<longleftrightarrow>
     object_wf obj \<and> magic obj = STORE_OBJECT_MAGIC \<and> crc obj = crc_of (object_body obj)"

lemma check_key_valid: "valid_object obj \<Longrightarrow> check_secure_storage_key (object_bytes obj @ r) = 0"
  by (simp add: valid_object_def check_secure_storage_key_def object_of_bytes take_object_bytes length_object_bytes
      sizeof_store_object_def)

lemma object_split:
  assumes "3176 \<le> length b"
  shows "b = object_bytes (object_of b) @ drop 3176 b"
proof -
  have s: "take n (drop k b) @ drop (k + n) b = drop k b" for k n
    by (metis append_take_drop_id add.commute drop_drop)
  have "b = take 4 b @ take 4 (drop 4 b) @ take 64 (drop 8 b) @ take 4 (drop 72 b) @
      take 4 (drop 76 b) @ take 4 (drop 80 b) @ take 12 (drop 84 b) @ take 4 (drop 96 b) @
      take 3072 (drop 100 b) @ take 4 (drop 3172 b) @ drop 3176 b"
    using s [of 4 0] s [of 4 4] s [of 64 8] s [of 4 72] s [of 4 76] s [of 4 80] s [of 12 84]
      s [of 4 96] s [of 3072 100] s [of 4 3172]
    by simp
  then show ?thesis
    using assms
    by (simp add: object_bytes_def object_body_def object_of_def le32_of_le32_take)
qed

lemma check_key_iff:
  assumes "3176 \<le> length b"
  shows "check_secure_storage_key b = 0 \<longleftrightarrow> valid_object (object_of b)"
proof -
  have "take 3172 b = object_body (object_of b)"
    using arg_cong [OF object_split [OF assms], of "take 3172"] object_of_wf [OF assms]
    by (simp add: take_object_bytes length_object_bytes)
  then show ?thesis
    using object_of_wf [OF assms]
    by (simp add: check_secure_storage_key_def valid_object_def sizeof_store_object_def Let_def)
qed

lemma check_key_values: "check_secure_storage_key b = 0 \<or> check_secure_storage_key b = -1"
  by (simp add: check_secure_storage_key_def Let_def)

lemma wrap_ok:
  assumes "unat len \<le> 3072" "unat len \<le> length src" "3176 \<le> length tagt"
  shows "\<exists>obj. wrap_secure_object src name len tagt =
      Some (0, object_bytes obj @ drop 3176 tagt, Some 3176) \<and> valid_object obj \<and>
      write_protect obj = 0 \<and> obj_name obj = strncpy_bytes name 64 \<and> actual_len obj = len \<and>
      take (unat len) (data obj) = take (unat len) src"
proof -
  let ?t = "object_of tagt"
  let ?o = "?t\<lparr>magic := STORE_OBJECT_MAGIC, obj_name := strncpy_bytes name 64, re_encrypt := 0,
    version := SUNXI_SECSTORE_VERSION, obj_id := 0, write_protect := 0,
    reserved := overlay (reserved ?t) (replicate 4 0), actual_len := len,
    data := overlay (data ?t) (take (unat len) src)\<rparr>"
  let ?obj = "?o\<lparr>crc := crc_of (object_body ?o)\<rparr>"
  have t: "length (data ?t) = 3072" "length (reserved ?t) = 12"
    using object_of_wf [OF assms(3)] by (simp_all add: object_wf_def)
  have wf: "object_wf ?obj"
    using t assms by (simp add: object_wf_def length_overlay)
  have "object_body ?obj = object_body ?o"
    by (simp add: object_body_def)
  then have "valid_object ?obj"
    using wf by (simp add: valid_object_def)
  moreover have "wrap_secure_object src name len tagt =
      Some (0, object_bytes ?obj @ drop 3176 tagt, Some 3176)"
    using assms wf
    by (simp add: wrap_secure_object_def MAX_STORE_LEN_def slice_def overlay_def [of tagt]
        length_object_bytes sizeof_store_object_def Let_def)
  moreover have "take (unat len) (data ?obj) = take (unat len) src"
    using assms by (simp add: overlay_def)
  ultimately show ?thesis
    by (intro exI [of _ ?obj]) simp
qed

lemma wrap_too_long:
  "3072 < unat len \<Longrightarrow> wrap_secure_object src name len tagt = Some (-1, tagt, None)"
  by (simp add: wrap_secure_object_def MAX_STORE_LEN_def)

lemma unwrap_ok:
  assumes "valid_object obj" "unat (actual_len obj) \<le> 3072" "unat (actual_len obj) \<le> length payload"
  shows "unwrap_secure_object (object_bytes obj @ r) 3176 payload n =
    Some (0, overlay payload (take (unat (actual_len obj)) (data obj)), int (unat (actual_len obj)))"
proof -
  have wf: "object_wf obj" and len: "length (data obj) = 3072"
    using assms(1) by (simp_all add: valid_object_def object_wf_def)
  have "sint (actual_len obj) = int (unat (actual_len obj))"
    using assms(2) by (intro sint_small) simp
  moreover have "slice (object_bytes obj @ r) 100 (unat (actual_len obj)) =
      Some (take (unat (actual_len obj)) (data obj))"
    using assms(2) len wf
    by (simp add: slice_def drop_object_bytes length_object_bytes)
  ultimately show ?thesis
    using assms wf
    by (simp add: unwrap_secure_object_def valid_object_def sizeof_store_object_def object_of_bytes
        take_object_bytes length_object_bytes put_def overlay_def)
qed

end
