(* ===== verification/Sst_Map.thy ===== *)
theory Sst_Map
  imports Sst_Device
begin

text \<open>
  The item map of \<open>secure_storage.c\<close>, item 0 of the secure storage: a buffer that holds one
  NUL-terminated string \<open>name:length\<close> per item, whose position is the item's number. The
  definitions follow the character loops of \<open>__probe_name_in_map\<close>, \<open>__fill_name_in_map\<close> and
  \<open>sunxi_secure_object_list\<close>; a read outside the 4096-byte buffer is \<open>None\<close>. The lemmas relate
  them to an association list of names and lengths.
\<close>

section \<open>The character loops\<close>

definition MAP_KEY_NAME_SIZE :: nat where "MAP_KEY_NAME_SIZE = 64"
definition MAP_KEY_DATA_SIZE :: nat where "MAP_KEY_DATA_SIZE = 32"

abbreviation COLON :: byte where "COLON \<equiv> 58"
abbreviation SPACE :: byte where "SPACE \<equiv> 32"

text \<open>The loop that copies to \<open>name\<close>, from index \<open>i\<close> of the string at \<open>s\<close>.\<close>

function scan_name :: "byte list \<Rightarrow> nat \<Rightarrow> nat \<Rightarrow> byte list option" where
  "scan_name m s i =
     (case rd m (s + i) of None \<Rightarrow> None | Some c \<Rightarrow>
      if c \<noteq> COLON \<and> c \<noteq> 0 \<and> s + i < SEC_BLK_SIZE \<and> i < MAP_KEY_NAME_SIZE
      then map_option (Cons c) (scan_name m s (Suc i))
      else Some [])"
  by pat_completeness auto
termination
  by (relation "measure (\<lambda>(m, s, i). MAP_KEY_NAME_SIZE - i)") auto

text \<open>The loop that copies to \<open>length\<close>, \<open>j\<close> characters in.\<close>

function scan_length :: "byte list \<Rightarrow> nat \<Rightarrow> nat \<Rightarrow> byte list option" where
  "scan_length m p j =
     (case rd m (p + j) of None \<Rightarrow> None | Some c \<Rightarrow>
      if c \<noteq> SPACE \<and> c \<noteq> 0 \<and> p + j < SEC_BLK_SIZE \<and> j < MAP_KEY_DATA_SIZE
      then map_option (Cons c) (scan_length m p (Suc j))
      else Some [])"
  by pat_completeness auto
termination
  by (relation "measure (\<lambda>(m, p, j). MAP_KEY_DATA_SIZE - j)") auto

declare scan_name.simps [simp del] scan_length.simps [simp del]

text \<open>One pass of the outer loop's parsing: \<open>Some None\<close> where the code returns -1 on a bad entry.\<close>

definition parse_entry :: "byte list \<Rightarrow> nat \<Rightarrow> (byte list \<times> byte list) option option" where
  "parse_entry m s = do {
     name \<leftarrow> scan_name m s 0;
     if MAP_KEY_NAME_SIZE \<le> length name then Some None
     else do {
       len \<leftarrow> scan_length m (s + length name + 1) 0;
       if SEC_BLK_SIZE \<le> s + length name + 1 + length len \<or> MAP_KEY_DATA_SIZE \<le> length len
       then Some None
       else Some (Some (name, len))
     }
   }"

text \<open>
  \<open>__probe_name_in_map\<close>: the item's index or -1, and what \<open>*len\<close> is set to, if anything.
  Equal \<open>strlen\<close> and \<open>memcmp\<close> of 0 is equality of the strings.
\<close>

function probe_from :: "byte list \<Rightarrow> cstr \<Rightarrow> nat \<Rightarrow> int \<Rightarrow> (int \<times> int option) option" where
  "probe_from m item_name s index =
     (case rd m s of None \<Rightarrow> None | Some c \<Rightarrow>
      if c = 0 then Some (-1, None)
      else case parse_entry m s of None \<Rightarrow> None | Some None \<Rightarrow> Some (-1, None)
        | Some (Some (name, len)) \<Rightarrow>
            if item_name = name then Some (index, Some (atol len))
            else case strlen_at m s of None \<Rightarrow> None
              | Some n \<Rightarrow> probe_from m item_name (s + n + 1) (index + 1))"
  by pat_completeness auto
termination
  by (relation "measure (\<lambda>(m, n, s, i). length m - s)") (auto simp: rd_eq_Some_iff)

declare probe_from.simps [simp del]

definition probe_name_in_map :: "byte list \<Rightarrow> cstr \<Rightarrow> (int \<times> int option) option" where
  "probe_name_in_map buffer item_name = probe_from buffer item_name 0 1"

text \<open>\<open>__fill_name_in_map\<close>: the loop that counts \<open>name_len\<close>. It does not stop at a NUL.\<close>

function fill_name_len :: "byte list \<Rightarrow> nat \<Rightarrow> nat \<Rightarrow> nat option" where
  "fill_name_len m s i =
     (case rd m (s + i) of None \<Rightarrow> None | Some c \<Rightarrow>
      if c \<noteq> COLON \<and> s + i < SEC_BLK_SIZE \<and> i < MAP_KEY_NAME_SIZE
      then fill_name_len m s (Suc i)
      else Some i)"
  by pat_completeness auto
termination
  by (relation "measure (\<lambda>(m, s, i). MAP_KEY_NAME_SIZE - i)") auto

declare fill_name_len.simps [simp del]

text \<open>How the outer loop ends: with an entry taken for the item's, or at a free position.\<close>

datatype fill_pos = Found int | Slot "byte list" nat int

function fill_seek :: "byte list \<Rightarrow> cstr \<Rightarrow> nat \<Rightarrow> int \<Rightarrow> fill_pos option" where
  "fill_seek m item_name s index =
     (case rd m s of None \<Rightarrow> None | Some c \<Rightarrow>
      if \<not> (c \<noteq> 0 \<and> s < SEC_BLK_SIZE) then Some (Slot m s index)
      else case fill_name_len m s 0 of None \<Rightarrow> None | Some name_len \<Rightarrow>
        if SEC_BLK_SIZE \<le> s + name_len \<or> MAP_KEY_NAME_SIZE \<le> name_len
        then Some (Slot (replicate SEC_BLK_SIZE 0) 0 1)
        else case memcmp_eq (drop s m) (item_name @ [0]) name_len of None \<Rightarrow> None
          | Some True \<Rightarrow> Some (Found index)
          | Some False \<Rightarrow>
              (case strlen_at m s of None \<Rightarrow> None
               | Some n \<Rightarrow> fill_seek m item_name (s + n + 1) (index + 1)))"
  by pat_completeness auto
termination
  by (relation "measure (\<lambda>(m, n, s, i). length m - s)") (auto simp: rd_eq_Some_iff)

declare fill_seek.simps [simp del]

definition fill_name_in_map :: "byte list \<Rightarrow> cstr \<Rightarrow> int \<Rightarrow> (int \<times> byte list) option" where
  "fill_name_in_map buffer item_name l =
     (case fill_seek buffer item_name 0 1 of None \<Rightarrow> None
      | Some (Found index) \<Rightarrow> Some (index, buffer)
      | Some (Slot buffer s index) \<Rightarrow>
          if 32 \<le> index then Some (-1, buffer)
          else do {
            buffer' \<leftarrow> put buffer s (item_name @ [COLON] @ dec_of_int l @ [0]);
            Some (index, buffer')
          })"

section \<open>The map as an association list\<close>

type_synonym entries = "(cstr \<times> int) list"

definition encode_entry :: "cstr \<times> int \<Rightarrow> byte list" where
  "encode_entry e = fst e @ [COLON] @ dec_of_int (snd e) @ [0]"

definition encode :: "entries \<Rightarrow> byte list" where
  "encode es = concat (map encode_entry es)"

definition name_wf :: "cstr \<Rightarrow> bool" where
  "name_wf n \<longleftrightarrow> n \<noteq> [] \<and> length n < MAP_KEY_NAME_SIZE \<and> COLON \<notin> set n \<and> 0 \<notin> set n"

definition len_wf :: "int \<Rightarrow> bool" where
  "len_wf l \<longleftrightarrow> 0 \<le> l \<and> l < 2 ^ 31"

definition entry_wf :: "cstr \<times> int \<Rightarrow> bool" where
  "entry_wf e \<longleftrightarrow> name_wf (fst e) \<and> len_wf (snd e)"

text \<open>
  At most 31 names and lengths, followed by zeros up to the map's magic and checksum.
\<close>

definition map_rep :: "byte list \<Rightarrow> entries \<Rightarrow> bool" where
  "map_rep m es \<longleftrightarrow>
     length m = SEC_BLK_SIZE \<and> list_all entry_wf es \<and> length es \<le> 31 \<and>
     take (SEC_BLK_SIZE - 8) m = encode es @ replicate (SEC_BLK_SIZE - 8 - length (encode es)) 0"

fun find_entry :: "entries \<Rightarrow> cstr \<Rightarrow> int \<Rightarrow> int \<times> int option" where
  "find_entry [] item_name index = (-1, None)"
| "find_entry ((n, l) # es) item_name index =
     (if item_name = n then (index, Some l) else find_entry es item_name (index + 1))"

text \<open>
  The entry \<open>__fill_name_in_map\<close> takes for the item's: the first whose name is a prefix of the
  item's name, since the comparison covers the entry's name only.
\<close>

fun find_prefix :: "entries \<Rightarrow> cstr \<Rightarrow> int \<Rightarrow> int option" where
  "find_prefix [] item_name index = None"
| "find_prefix ((n, l) # es) item_name index =
     (if take (length n) item_name = n then Some index else find_prefix es item_name (index + 1))"

definition fill_entries :: "entries \<Rightarrow> cstr \<Rightarrow> int \<Rightarrow> int \<times> entries" where
  "fill_entries es item_name l =
     (case find_prefix es item_name 1 of
        Some index \<Rightarrow> (index, es)
      | None \<Rightarrow> if 31 \<le> length es then (-1, es) else (int (length es) + 1, es @ [(item_name, l)]))"

section \<open>Lemmas: the loops on one entry\<close>

lemma rd_middle: "i < length a \<Longrightarrow> rd (pre @ a @ r) (length pre + i) = Some (a ! i)"
  by (simp add: rd_def nth_append)

lemma scan_name_run:
  assumes "i \<le> length n" "name_wf n" "c = COLON \<or> c = 0" "length pre + length n < SEC_BLK_SIZE"
  shows "scan_name (pre @ n @ c # r) (length pre) i = Some (drop i n)"
  using assms(1)
proof (induction "length n - i" arbitrary: i)
  case 0
  then have "i = length n" by simp
  with assms(3) show ?case
    by (subst scan_name.simps) (auto simp: rd_def nth_append)
next
  case (Suc k)
  then have i: "i < length n" by simp
  then have "n ! i \<in> set n" by simp
  then have c: "n ! i \<noteq> COLON" "n ! i \<noteq> 0"
    using assms(2) by (auto simp: name_wf_def)
  have "scan_name (pre @ n @ c # r) (length pre) (Suc i) = Some (drop (Suc i) n)"
    using Suc by simp
  then show ?case
    using i c assms(2,4) rd_middle [OF i, of pre "c # r"]
    by (subst scan_name.simps) (simp add: name_wf_def Cons_nth_drop_Suc)
qed

lemma dec_of_int_chars: "len_wf l \<Longrightarrow> c \<in> set (dec_of_int l) \<Longrightarrow> is_digit c"
  by (auto simp: dec_of_int_def len_wf_def dest: dec_of_nat_digits)

lemma length_dec_of_int: "len_wf l \<Longrightarrow> length (dec_of_int l) \<le> 10"
  using length_dec_of_nat [of "nat l" 10] by (auto simp: dec_of_int_def len_wf_def)

lemma scan_length_run:
  assumes "j \<le> length ds" "\<forall>c \<in> set ds. is_digit c" "length ds < MAP_KEY_DATA_SIZE"
    "length pre + length ds < SEC_BLK_SIZE"
  shows "scan_length (pre @ ds @ 0 # r) (length pre) j = Some (drop j ds)"
  using assms(1)
proof (induction "length ds - j" arbitrary: j)
  case 0
  then have "j = length ds" by simp
  then show ?case
    by (subst scan_length.simps) (auto simp: rd_def nth_append)
next
  case (Suc k)
  then have j: "j < length ds" by simp
  then have "is_digit (ds ! j)"
    using assms(2) by simp
  then have c: "ds ! j \<noteq> SPACE" "ds ! j \<noteq> 0"
    using is_digit_not by auto
  have "scan_length (pre @ ds @ 0 # r) (length pre) (Suc j) = Some (drop (Suc j) ds)"
    using Suc by simp
  then show ?case
    using j c assms(3,4) rd_middle [OF j, of pre "0 # r"]
    by (subst scan_length.simps) (simp add: Cons_nth_drop_Suc)
qed

lemma length_encode_entry: "length (encode_entry e) = length (fst e) + length (dec_of_int (snd e)) + 2"
  by (simp add: encode_entry_def)

lemma parse_entry_encode:
  assumes "entry_wf e" "length pre + length (encode_entry e) \<le> SEC_BLK_SIZE"
  shows "parse_entry (pre @ encode_entry e @ r) (length pre) = Some (Some (fst e, dec_of_int (snd e)))"
proof -
  have n: "name_wf (fst e)" and l: "len_wf (snd e)"
    using assms(1) by (auto simp: entry_wf_def)
  have "scan_name (pre @ encode_entry e @ r) (length pre) 0 = Some (fst e)"
    using scan_name_run [OF _ n, of 0 COLON pre] assms(2)
    by (simp add: encode_entry_def)
  moreover have "scan_length (pre @ encode_entry e @ r) (length pre + length (fst e) + 1) 0 =
      Some (dec_of_int (snd e))"
    using scan_length_run [of 0 "dec_of_int (snd e)" "pre @ fst e @ [COLON]" r]
      assms(2) dec_of_int_chars [OF l] length_dec_of_int [OF l]
    by (simp add: encode_entry_def MAP_KEY_DATA_SIZE_def)
  moreover have "length (fst e) < MAP_KEY_NAME_SIZE"
    using n by (simp add: name_wf_def)
  ultimately show ?thesis
    using assms(2) length_dec_of_int [OF l]
    by (simp add: parse_entry_def length_encode_entry MAP_KEY_DATA_SIZE_def)
qed

lemma strlen_at_encode:
  assumes "entry_wf e"
  shows "strlen_at (pre @ encode_entry e @ r) (length pre) = Some (length (encode_entry e) - 1)"
proof -
  let ?s = "fst e @ [COLON] @ dec_of_int (snd e)"
  have "c \<noteq> 0" if "c \<in> set ?s" for c
    using that assms dec_of_int_chars is_digit_not
    by (fastforce simp: entry_wf_def name_wf_def)
  then have "takeWhile (\<lambda>c. c \<noteq> 0) (?s @ 0 # r) = ?s"
    by (subst takeWhile_append2) auto
  then show ?thesis
    by (simp add: strlen_at_def encode_entry_def)
qed

lemma encode_simps [simp]:
  "encode [] = []" "encode (e # es) = encode_entry e @ encode es"
  "encode (es @ es') = encode es @ encode es'"
  by (simp_all add: encode_def)

lemma rd_encode_entry:
  assumes "entry_wf e"
  shows "\<exists>c. rd (pre @ encode_entry e @ r) (length pre) = Some c \<and> c \<noteq> 0"
  using assms by (cases "fst e") (auto simp: entry_wf_def name_wf_def encode_entry_def rd_def nth_append)

section \<open>Lemmas: the functions on an encoded map\<close>

lemma probe_encode:
  assumes "list_all entry_wf es" "length pre + length (encode es) < SEC_BLK_SIZE"
  shows "probe_from (pre @ encode es @ 0 # r) nm (length pre) index = Some (find_entry es nm index)"
  using assms
proof (induction es arbitrary: pre index)
  case Nil
  then show ?case
    by (subst probe_from.simps) (simp add: rd_def nth_append)
next
  case (Cons e es)
  then have e: "entry_wf e" and es: "list_all entry_wf es" by simp_all
  have "probe_from ((pre @ encode_entry e) @ encode es @ 0 # r) nm (length (pre @ encode_entry e))
      (index + 1) = Some (find_entry es nm (index + 1))"
    using Cons.prems es by (intro Cons.IH) simp_all
  moreover obtain c where "rd (pre @ encode_entry e @ encode es @ 0 # r) (length pre) = Some c" "c \<noteq> 0"
    using rd_encode_entry [OF e] by blast
  moreover have "atol (dec_of_int (snd e)) = snd e"
    using e by (intro atol_dec_of_int) (auto simp: entry_wf_def len_wf_def)
  moreover obtain k where "length (encode_entry e) = Suc k"
    by (simp add: length_encode_entry)
  ultimately show ?case
    using parse_entry_encode [OF e, of pre "encode es @ 0 # r"] Cons.prems(2)
      strlen_at_encode [OF e, of pre "encode es @ 0 # r"]
    by (subst probe_from.simps) (cases e; simp)
qed

lemma memcmp_eq_prefix:
  "0 \<notin> set n \<Longrightarrow> memcmp_eq (n @ r) (nm @ [0]) (length n) = Some (take (length n) nm = n)"
proof (induction n arbitrary: nm)
  case (Cons c n)
  then show ?case by (cases nm) auto
qed simp

lemma fill_name_len_run:
  assumes "i \<le> length n" "COLON \<notin> set n" "length n < MAP_KEY_NAME_SIZE"
    "length pre + length n < SEC_BLK_SIZE"
  shows "fill_name_len (pre @ n @ COLON # r) (length pre) i = Some (length n)"
  using assms(1)
proof (induction "length n - i" arbitrary: i)
  case 0
  then have "i = length n" by simp
  then show ?case
    by (subst fill_name_len.simps) (auto simp: rd_def nth_append)
next
  case (Suc k)
  then have i: "i < length n" by simp
  then have "n ! i \<noteq> COLON"
    using assms(2) nth_mem by metis
  moreover have "fill_name_len (pre @ n @ COLON # r) (length pre) (Suc i) = Some (length n)"
    using Suc by simp
  ultimately show ?case
    using i assms(3,4) rd_middle [OF i, of pre "COLON # r"]
    by (subst fill_name_len.simps) simp
qed

lemma fill_encode:
  assumes "list_all entry_wf es" "length pre + length (encode es) < SEC_BLK_SIZE"
  shows "fill_seek (pre @ encode es @ 0 # r) nm (length pre) index =
    Some (case find_prefix es nm index of
            Some i \<Rightarrow> Found i
          | None \<Rightarrow> Slot (pre @ encode es @ 0 # r) (length pre + length (encode es))
                     (index + int (length es)))"
  using assms
proof (induction es arbitrary: pre index)
  case Nil
  then show ?case
    by (subst fill_seek.simps) (simp add: rd_def nth_append)
next
  case (Cons e es)
  then have e: "entry_wf e" and es: "list_all entry_wf es" by simp_all
  then have n: "COLON \<notin> set (fst e)" "0 \<notin> set (fst e)" "length (fst e) < MAP_KEY_NAME_SIZE"
    by (auto simp: entry_wf_def name_wf_def)
  let ?m = "pre @ encode_entry e @ encode es @ 0 # r"
  have IH: "fill_seek ((pre @ encode_entry e) @ encode es @ 0 # r) nm (length (pre @ encode_entry e))
      (index + 1) = Some (case find_prefix es nm (index + 1) of Some i \<Rightarrow> Found i
        | None \<Rightarrow> Slot ((pre @ encode_entry e) @ encode es @ 0 # r)
             (length (pre @ encode_entry e) + length (encode es)) (index + 1 + int (length es)))"
    using Cons.prems es by (intro Cons.IH) simp_all
  obtain c where c: "rd ?m (length pre) = Some c" "c \<noteq> 0"
    using rd_encode_entry [OF e] by blast
  have "fill_name_len ?m (length pre) 0 = Some (length (fst e))"
    using fill_name_len_run [of 0 "fst e" pre] n Cons.prems(2)
    by (simp add: encode_entry_def)
  moreover have "memcmp_eq (drop (length pre) ?m) (nm @ [0]) (length (fst e)) =
      Some (take (length (fst e)) nm = fst e)"
    using memcmp_eq_prefix [OF n(2)] by (simp add: encode_entry_def)
  moreover obtain k where "length (encode_entry e) = Suc k"
    by (simp add: length_encode_entry)
  moreover have "length (fst e) < length (encode_entry e)"
    by (simp add: length_encode_entry)
  ultimately show ?case
    using c IH Cons.prems(2) n(3) strlen_at_encode [OF e, of pre "encode es @ 0 # r"]
    by (subst fill_seek.simps)
      (cases e; auto simp: algebra_simps split: option.splits)
qed

section \<open>Lemmas: the abstract operations\<close>

lemma fst_find_entry_absent: "n \<notin> fst ` set es \<Longrightarrow> find_entry es n i = (-1, None)"
  by (induction es n i rule: find_entry.induct) auto

lemma find_entry_present:
  "n \<in> fst ` set es \<Longrightarrow>
   \<exists>k l. find_entry es n i = (i + int k, Some l) \<and> k < length es \<and> es ! k = (n, l)"
proof (induction es n i rule: find_entry.induct)
  case (2 n l es item_name index)
  show ?case
  proof (cases "item_name = n")
    case True
    then show ?thesis
      by (intro exI [of _ 0] exI [of _ l]) auto
  next
    case False
    with 2 obtain k l' where "find_entry es item_name (index + 1) = (index + 1 + int k, Some l')"
      "k < length es" "es ! k = (item_name, l')"
      by force
    with False show ?thesis
      by (intro exI [of _ "Suc k"]) auto
  qed
qed simp

lemma find_entry_append:
  "find_entry (es @ es') n i =
     (if n \<in> fst ` set es then find_entry es n i else find_entry es' n (i + int (length es)))"
  by (induction es n i rule: find_entry.induct) (auto simp: algebra_simps)

text \<open>No other entry's name is a prefix of \<open>n\<close>.\<close>

definition prefix_free :: "entries \<Rightarrow> cstr \<Rightarrow> bool" where
  "prefix_free es n \<longleftrightarrow> (\<forall>(k, l) \<in> set es. k \<noteq> n \<longrightarrow> take (length k) n \<noteq> k)"

lemma find_prefix_free:
  "prefix_free es n \<Longrightarrow>
   find_prefix es n i = (if n \<in> fst ` set es then Some (fst (find_entry es n i)) else None)"
  by (induction es n i rule: find_prefix.induct) (auto simp: prefix_free_def)

definition room_for :: "entries \<Rightarrow> cstr \<Rightarrow> bool" where
  "room_for es n \<longleftrightarrow> prefix_free es n \<and> (n \<in> fst ` set es \<or> length es < 31)"

lemma fill_entries_room:
  assumes "room_for es n" "length es \<le> 31"
  shows "1 \<le> fst (fill_entries es n l)" "fst (fill_entries es n l) \<le> 31"
    and "\<exists>l'. find_entry (snd (fill_entries es n l)) n 1 = (fst (fill_entries es n l), Some l') \<and>
           (l' = l \<or> (n, l') \<in> set es)"
    and "n' \<noteq> n \<Longrightarrow> find_entry (snd (fill_entries es n l)) n' 1 = find_entry es n' 1"
proof -
  have p: "find_prefix es n 1 = (if n \<in> fst ` set es then Some (fst (find_entry es n 1)) else None)"
    using assms by (intro find_prefix_free) (simp add: room_for_def)
  show "1 \<le> fst (fill_entries es n l)" "fst (fill_entries es n l) \<le> 31"
    "\<exists>l'. find_entry (snd (fill_entries es n l)) n 1 = (fst (fill_entries es n l), Some l') \<and>
       (l' = l \<or> (n, l') \<in> set es)"
  proof (atomize (full), cases "n \<in> fst ` set es")
    case True
    then obtain k l' where "find_entry es n 1 = (1 + int k, Some l')" "k < length es" "es ! k = (n, l')"
      using find_entry_present by blast
    then show "1 \<le> fst (fill_entries es n l) \<and> fst (fill_entries es n l) \<le> 31 \<and>
      (\<exists>l'. find_entry (snd (fill_entries es n l)) n 1 = (fst (fill_entries es n l), Some l') \<and>
         (l' = l \<or> (n, l') \<in> set es))"
      using True p assms(2) nth_mem [of k es] by (auto simp: fill_entries_def)
  next
    case False
    then show "1 \<le> fst (fill_entries es n l) \<and> fst (fill_entries es n l) \<le> 31 \<and>
      (\<exists>l'. find_entry (snd (fill_entries es n l)) n 1 = (fst (fill_entries es n l), Some l') \<and>
         (l' = l \<or> (n, l') \<in> set es))"
      using p assms by (auto simp: fill_entries_def room_for_def find_entry_append)
  qed
  show "find_entry (snd (fill_entries es n l)) n' 1 = find_entry es n' 1" if "n' \<noteq> n"
    using that fst_find_entry_absent [of n' es]
    by (auto simp: fill_entries_def find_entry_append split: option.splits)
qed

section \<open>Lemmas: refinement\<close>

lemma length_encode_le: "list_all entry_wf es \<Longrightarrow> length (encode es) \<le> 75 * length es"
proof (induction es)
  case (Cons e es)
  then have "length (fst e) < 64" "length (dec_of_int (snd e)) \<le> 10"
    using length_dec_of_int by (auto simp: entry_wf_def name_wf_def MAP_KEY_NAME_SIZE_def)
  with Cons show ?case
    by (simp add: length_encode_entry)
qed simp

lemma map_rep_space: "map_rep m es \<Longrightarrow> length (encode es) \<le> 2325"
  using length_encode_le [of es] by (simp add: map_rep_def)

lemma map_rep_split:
  assumes "map_rep m es"
  shows "m = encode es @ replicate (4088 - length (encode es)) 0 @ drop 4088 m"
  using assms append_take_drop_id [of 4088 m] by (simp add: map_rep_def SEC_BLK_SIZE_def)

lemma map_rep_tail:
  assumes "map_rep m es"
  shows "\<exists>r. m = [] @ encode es @ 0 # r"
proof -
  have "0 < 4088 - length (encode es)"
    using map_rep_space [OF assms] by simp
  then obtain k where "4088 - length (encode es) = Suc k"
    by (auto simp only: gr0_conv_Suc)
  then show ?thesis
    using map_rep_split [OF assms] by (metis append_Cons append_Nil replicate_Suc)
qed

lemma probe_refines:
  assumes "map_rep m es"
  shows "probe_name_in_map m nm = Some (find_entry es nm 1)"
proof -
  obtain r where m: "m = [] @ encode es @ 0 # r"
    using map_rep_tail [OF assms] by blast
  have "probe_from ([] @ encode es @ 0 # r) nm (length ([] :: byte list)) 1 = Some (find_entry es nm 1)"
    using assms map_rep_space [OF assms]
    by (intro probe_encode) (auto simp: map_rep_def SEC_BLK_SIZE_def)
  then show ?thesis
    using m by (simp add: probe_name_in_map_def)
qed

lemma fill_refines:
  assumes "map_rep m es" "name_wf nm" "len_wf l"
  shows "\<exists>m'. fill_name_in_map m nm l = Some (fst (fill_entries es nm l), m') \<and>
           map_rep m' (snd (fill_entries es nm l)) \<and> drop 4088 m' = drop 4088 m"
proof -
  obtain r where m: "m = [] @ encode es @ 0 # r"
    using map_rep_tail [OF assms(1)] by blast
  have seek: "fill_seek m nm 0 1 = Some (case find_prefix es nm 1 of Some i \<Rightarrow> Found i
      | None \<Rightarrow> Slot m (length (encode es)) (1 + int (length es)))"
    using fill_encode [of es "[]" r nm 1] m assms(1) map_rep_space [OF assms(1)]
    by (simp add: map_rep_def SEC_BLK_SIZE_def cong: option.case_cong)
  show ?thesis
  proof (cases "find_prefix es nm 1")
    case None
    show ?thesis
    proof (cases "31 \<le> length es")
      case True
      then show ?thesis
        using assms(1) seek None by (auto simp: fill_name_in_map_def fill_entries_def)
    next
      case False
      let ?e = "(nm, l)" and ?z = "4088 - length (encode es)"
      have e: "entry_wf ?e"
        using assms by (simp add: entry_wf_def)
      have le: "length (encode (es @ [?e])) \<le> 75 * length (es @ [?e])"
        using e assms(1) by (intro length_encode_le) (simp add: map_rep_def)
      have fit: "length (encode es) + length (encode_entry ?e) \<le> 2325"
        using le False by simp
      have len: "length m = 4096"
        using assms(1) by (simp add: map_rep_def SEC_BLK_SIZE_def)
      let ?m' = "encode (es @ [?e]) @ replicate (4088 - length (encode (es @ [?e]))) 0 @ drop 4088 m"
      have "drop (length (encode es) + length (encode_entry ?e)) m =
          replicate (4088 - length (encode (es @ [?e]))) 0 @ drop 4088 m"
        using fit by (subst map_rep_split [OF assms(1)]) simp
      moreover have "take (length (encode es)) m = encode es"
        by (subst map_rep_split [OF assms(1)]) simp
      ultimately have "put m (length (encode es)) (encode_entry ?e) = Some ?m'"
        using fit len by (simp add: put_def)
      then have "fill_name_in_map m nm l = Some (int (length es) + 1, ?m')"
        using seek None False
        by (simp add: fill_name_in_map_def encode_entry_def algebra_simps)
      moreover have "map_rep ?m' (es @ [?e])"
        using assms(1) e fit False len by (simp add: map_rep_def SEC_BLK_SIZE_def)
      moreover have "drop 4088 ?m' = drop 4088 m"
        using fit by simp
      ultimately show ?thesis
        using None False by (auto simp: fill_entries_def)
    qed
  next
    case (Some i)
    then show ?thesis
      using assms(1) seek by (auto simp: fill_name_in_map_def fill_entries_def)
  qed
qed

section \<open>The index as an interface\<close>

text \<open>
  What the storage operations rely on: \<open>lookup\<close> and \<open>enter\<close> act on the represented association
  list as \<open>find_entry\<close> and \<open>fill_entries\<close> do.
\<close>

locale name_index =
  fixes lookup :: "'m \<Rightarrow> cstr \<Rightarrow> (int \<times> int option) option"
    and enter :: "'m \<Rightarrow> cstr \<Rightarrow> int \<Rightarrow> (int \<times> 'm) option"
    and rep :: "'m \<Rightarrow> entries \<Rightarrow> bool"
  assumes rep_bound: "rep m es \<Longrightarrow> length es \<le> 31"
    and lookup_rep: "rep m es \<Longrightarrow> lookup m n = Some (find_entry es n 1)"
    and enter_rep: "rep m es \<Longrightarrow> name_wf n \<Longrightarrow> len_wf l \<Longrightarrow>
      \<exists>m'. enter m n l = Some (fst (fill_entries es n l), m') \<and> rep m' (snd (fill_entries es n l))"
begin

lemma enter_then_lookup:
  assumes "rep m es" "room_for es n" "name_wf n" "len_wf l"
  shows "\<exists>i m' l'. enter m n l = Some (i, m') \<and> rep m' (snd (fill_entries es n l)) \<and>
    1 \<le> i \<and> i \<le> 31 \<and> lookup m' n = Some (i, Some l') \<and> (l' = l \<or> (n, l') \<in> set es) \<and>
    (\<forall>n'. n' \<noteq> n \<longrightarrow> lookup m' n' = lookup m n')"
proof -
  obtain m' where m': "enter m n l = Some (fst (fill_entries es n l), m')"
    "rep m' (snd (fill_entries es n l))"
    using enter_rep assms by blast
  note room = fill_entries_room [OF assms(2) rep_bound [OF assms(1)], where l = l]
  from room(3) obtain l' where "find_entry (snd (fill_entries es n l)) n 1 =
      (fst (fill_entries es n l), Some l')" "l' = l \<or> (n, l') \<in> set es"
    by blast
  then show ?thesis
    using m' room assms(1) by (auto simp: lookup_rep [OF m'(2)] lookup_rep [OF assms(1)])
qed

lemma enter_shadowed:
  assumes "rep m es" "name_wf n" "len_wf l" "n \<notin> fst ` set es" "find_prefix es n 1 = Some i"
  shows "\<exists>m'. enter m n l = Some (i, m') \<and> lookup m' n = Some (-1, None)"
proof -
  have f: "fill_entries es n l = (i, es)"
    using assms(5) by (simp add: fill_entries_def)
  then obtain m' where "enter m n l = Some (i, m')" "rep m' es"
    using enter_rep [OF assms(1-3)] by auto
  then show ?thesis
    using assms(4) by (auto simp: lookup_rep fst_find_entry_absent)
qed

end

interpretation sst_map: name_index probe_name_in_map fill_name_in_map map_rep
proof unfold_locales
  show "map_rep m es \<Longrightarrow> length es \<le> 31" for m es
    by (simp add: map_rep_def)
  show "map_rep m es \<Longrightarrow> probe_name_in_map m n = Some (find_entry es n 1)" for m es n
    by (rule probe_refines)
  show "\<exists>m'. fill_name_in_map m n l = Some (fst (fill_entries es n l), m') \<and>
      map_rep m' (snd (fill_entries es n l))" if "map_rep m es" "name_wf n" "len_wf l" for m es n l
    using fill_refines [OF that] by blast
qed

section \<open>Lemmas: names that do not fit\<close>

lemma fill_name_len_long:
  assumes "i \<le> 64" "64 \<le> length n" "COLON \<notin> set n" "length pre + length n < SEC_BLK_SIZE"
    "r \<noteq> []"
  shows "fill_name_len (pre @ n @ r) (length pre) i = Some 64"
  using assms(1)
proof (induction "64 - i" arbitrary: i)
  case 0
  then have "i = 64" by simp
  moreover have "length pre + 64 < length (pre @ n @ r)"
    using assms(2,5) by (cases r) auto
  ultimately show ?case
    by (subst fill_name_len.simps) (simp add: MAP_KEY_NAME_SIZE_def rd_def)
next
  case (Suc k)
  then have i: "i < 64" "i < length n" using assms(2) by simp_all
  then have "n ! i \<noteq> COLON"
    using assms(3) nth_mem by metis
  moreover have "fill_name_len (pre @ n @ r) (length pre) (Suc i) = Some 64"
    using Suc by simp
  ultimately show ?case
    using i assms(4) rd_middle [of i n pre r]
    by (subst fill_name_len.simps) (simp add: MAP_KEY_NAME_SIZE_def)
qed

end
