(* ===== verification/Sst_Flash.thy ===== *)
theory Sst_Flash
  imports Sst_Object Sst_Map
begin

text \<open>
  The middle layer of \<open>secure_storage.c\<close>: the program's static variables, the check of the map
  item, the two-copy reads of the eMMC path and the dispatch \<open>nv_read\<close>/\<open>nv_write\<close> on the boot
  medium. The lemmas give the redundancy's contract (what a read returns for every state of the two
  copies, also after an interrupted write) and show that the layer is a store of items; the three
  media meet that contract when the system calls, respectively the drivers, do.
\<close>

section \<open>State\<close>

definition FLASH_TYPE_NAND :: int where "FLASH_TYPE_NAND = 0"
definition FLASH_TYPE_SD1 :: int where "FLASH_TYPE_SD1 = 1"
definition FLASH_TYPE_SD2 :: int where "FLASH_TYPE_SD2 = 2"
definition FLASH_TYPE_NOR :: int where "FLASH_TYPE_NOR = 3"
definition FLASH_TYPE_EMMC3 :: int where "FLASH_TYPE_EMMC3 = 4"
definition FLASH_TYPE_SPI_NAND :: int where "FLASH_TYPE_SPI_NAND = 5"
definition FLASH_TYPE_UNKNOW :: int where "FLASH_TYPE_UNKNOW = -1"

text \<open>
  The static variables, the mutex (whether it is held) and the devices. \<open>secure_storage_map\<close> is the
  \<open>struct map_info\<close> as its 4096 bytes.
\<close>

record 'k sst =
  secure_storage_map :: "byte list"
  secure_storage_inited :: bool
  map_dirty :: bool
  sst_use_ioctl :: bool
  flash_boot_type :: int
  sec_mutex :: bool
  flash :: "'k dev"

section \<open>Operations\<close>

definition map_magic :: "byte list \<Rightarrow> u32" where
  "map_magic m = of_le32 (drop 4088 m)"

definition map_crc :: "byte list \<Rightarrow> u32" where
  "map_crc m = of_le32 (drop 4092 m)"

definition check_secure_storage_map :: "byte list \<Rightarrow> int" where
  "check_secure_storage_map m =
     (if map_magic m \<noteq> STORE_OBJECT_MAGIC then 2
      else if map_crc m \<noteq> crc_of (take (SEC_BLK_SIZE - 4) m) then -1
      else 0)"

text \<open>A device read into a buffer that exists.\<close>

definition into :: "(byte list option \<Rightarrow> int \<times> byte list option) \<Rightarrow> byte list \<Rightarrow> int \<times> byte list" where
  "into f buf = (case f (Some buf) of (ret, Some b) \<Rightarrow> (ret, b) | (ret, None) \<Rightarrow> (ret, buf))"

definition read_copy0 :: "'k os \<Rightarrow> 'k sst \<Rightarrow> int \<Rightarrow> byte list \<Rightarrow> nat \<Rightarrow> int \<times> byte list" where
  "read_copy0 os s item buf len =
     into (\<lambda>b. if sst_use_ioctl s then sd_read_ioctl os (flash s) item b len
               else sd_read os (flash s) item b len) buf"

definition read_copy1 :: "'k os \<Rightarrow> 'k sst \<Rightarrow> int \<Rightarrow> byte list \<Rightarrow> nat \<Rightarrow> int \<times> byte list" where
  "read_copy1 os s item buf len =
     into (\<lambda>b. if sst_use_ioctl s then sd_read_backup_ioctl os (flash s) item b len
               else sd_read_backup os (flash s) item b len) buf"

definition sd_read_key :: "'k os \<Rightarrow> 'k sst \<Rightarrow> int \<Rightarrow> byte list \<Rightarrow> nat \<Rightarrow> int \<times> byte list" where
  "sd_read_key os s item buf len =
     (let (ret, buf) = read_copy0 os s item buf len
      in if ret = 0 \<and> check_secure_storage_key buf = 0 then (0, buf)
         else
           let buf = overlay buf (replicate len 0);
               (ret, buf) = read_copy1 os s item buf len
           in if ret = 0 \<and> check_secure_storage_key buf = 0 then (0, buf) else (-1, buf))"

text \<open>
  \<open>map_copy0_buf\<close> is fresh memory unless a copy without magic was read. The result 1 is a map that
  was not verified.
\<close>

definition sd_read_map :: "'k os \<Rightarrow> 'k sst \<Rightarrow> int \<Rightarrow> byte list \<Rightarrow> nat \<Rightarrow> int \<times> byte list" where
  "sd_read_map os s item buf len =
     (if \<not> os_malloc os len then (-1, buf)
      else
        let (ret, buf) = read_copy0 os s item buf len
        in if ret = 0 \<and> check_secure_storage_map buf = 0 then (0, buf)
           else
             let have_map_copy0 = (ret = 0 \<and> check_secure_storage_map buf = 2);
                 map_copy0_buf = (if have_map_copy0 then take len buf else os_fresh os len);
                 buf = overlay buf (replicate len 0);
                 (ret, buf) = read_copy1 os s item buf len
             in if ret = 0 then
                  if check_secure_storage_map buf = 0 then (0, buf)
                  else if check_secure_storage_map buf = 2 then
                    if have_map_copy0 \<and> map_copy0_buf = take len buf then (0, buf)
                    else (1, overlay buf map_copy0_buf)
                  else (1, buf)
                else (-1, buf))"

definition nv_read :: "'k os \<Rightarrow> 'k sst \<Rightarrow> int \<Rightarrow> byte list \<Rightarrow> nat \<Rightarrow> int \<times> byte list" where
  "nv_read os s item buf len =
     (if flash_boot_type s = FLASH_TYPE_NAND then
        into (\<lambda>b. if sst_use_ioctl s then nand_read_ioctl os (flash s) item b len
                  else nand_read os (flash s) item b len) buf
      else if flash_boot_type s = FLASH_TYPE_SD1 \<or> flash_boot_type s = FLASH_TYPE_SD2 then
        if item = 0 then sd_read_map os s 0 buf len else sd_read_key os s item buf len
      else (-1, buf))"

definition nv_write :: "'k os \<Rightarrow> 'k sst \<Rightarrow> int \<Rightarrow> byte list \<Rightarrow> nat \<Rightarrow> int \<times> 'k sst" where
  "nv_write os s item buf len =
     (let (ret, d) =
        (if flash_boot_type s = FLASH_TYPE_NAND then
           if sst_use_ioctl s then nand_write_ioctl os (flash s) item (Some buf) len
           else nand_write os (flash s) item (Some buf) len
         else if flash_boot_type s = FLASH_TYPE_SD1 \<or> flash_boot_type s = FLASH_TYPE_SD2 then
           if sst_use_ioctl s then sd_write_ioctl os (flash s) item (Some buf) len
           else sd_write os (flash s) item (Some buf) len
         else (-1, flash s))
      in (ret, s\<lparr>flash := d\<rparr>))"

definition sunxi_secstorage_read :: "'k os \<Rightarrow> 'k sst \<Rightarrow> int \<Rightarrow> byte list \<Rightarrow> nat \<Rightarrow> int \<times> byte list" where
  "sunxi_secstorage_read os s item buf len = nv_read os s item buf len"

definition sunxi_secstorage_write :: "'k os \<Rightarrow> 'k sst \<Rightarrow> int \<Rightarrow> byte list \<Rightarrow> nat \<Rightarrow> int \<times> 'k sst" where
  "sunxi_secstorage_write os s item buf len = nv_write os s item buf len"

section \<open>When the media work\<close>

text \<open>
  Hypotheses on the two drivers: a request on an item that was written returns what was written,
  and a write leaves the other items alone.
\<close>

definition driver_laws :: "('k \<Rightarrow> 'i \<Rightarrow> int \<times> byte list) \<Rightarrow> ('k \<Rightarrow> 'i \<Rightarrow> byte list \<Rightarrow> int \<times> 'k) \<Rightarrow> bool" where
  "driver_laws dr dw \<longleftrightarrow>
     (\<forall>k i bs. length bs = SEC_BLK_SIZE \<longrightarrow>
        0 \<le> fst (dw k i bs) \<and> 0 \<le> fst (dr (snd (dw k i bs)) i) \<and> snd (dr (snd (dw k i bs)) i) = bs \<and>
        (\<forall>j. j \<noteq> i \<longrightarrow> dr (snd (dw k i bs)) j = dr k j))"

definition secblk_driver_ok :: "'k os \<Rightarrow> bool" where
  "secblk_driver_ok os \<longleftrightarrow>
     os_malloc os 12 \<and>
     (case nand_dev os of None \<Rightarrow> False | Some path \<Rightarrow>
        os_open os path \<and>
        driver_laws (\<lambda>k i. os_secblk_read os k path \<lparr>op_item = i, op_len = SEC_BLK_SIZE\<rparr>)
          (\<lambda>k i. os_secblk_write os k path \<lparr>op_item = i, op_len = SEC_BLK_SIZE\<rparr>))"

definition sst_driver_ok :: "'k os \<Rightarrow> bool" where
  "sst_driver_ok os \<longleftrightarrow>
     os_malloc os 16 \<and> os_malloc os SEC_BLK_SIZE \<and> os_open os OEM_PATH \<and>
     driver_laws
       (\<lambda>k (i, off). os_sst_read os k \<lparr>sst_id = i, sst_len = SEC_BLK_SIZE, sst_offset = off\<rparr>)
       (\<lambda>k (i, off). os_sst_write os k \<lparr>sst_id = i, sst_len = SEC_BLK_SIZE, sst_offset = off\<rparr>)"

definition medium_ok :: "'k os \<Rightarrow> 'k sst \<Rightarrow> bool" where
  "medium_ok os s \<longleftrightarrow>
     (if flash_boot_type s = FLASH_TYPE_NAND
      then if sst_use_ioctl s then sst_driver_ok os else secblk_driver_ok os
      else (flash_boot_type s = FLASH_TYPE_SD1 \<or> flash_boot_type s = FLASH_TYPE_SD2) \<and>
           (if sst_use_ioctl s then sst_driver_ok os
            else sd_reliable os \<and> os_malloc os SEC_BLK_SIZE))"

text \<open>What the read path accepts back for an item: the eMMC path verifies what it reads.\<close>

definition readable :: "int \<Rightarrow> byte list \<Rightarrow> bool" where
  "readable item b \<longleftrightarrow>
     (if item = 0 then check_secure_storage_map b = 0 else check_secure_storage_key b = 0)"

lemmas flash_types = FLASH_TYPE_NAND_def FLASH_TYPE_SD1_def FLASH_TYPE_SD2_def FLASH_TYPE_NOR_def
  FLASH_TYPE_EMMC3_def FLASH_TYPE_SPI_NAND_def FLASH_TYPE_UNKNOW_def

section \<open>Lemmas: two copies\<close>

lemma read_copies_reliable:
  assumes "sd_reliable os" "\<not> sst_use_ioctl s" "item \<le> 32" "length buf = n"
  shows "read_copy0 os s item buf n = (0, pread (flash s) (sd_offset item) n)"
    and "read_copy1 os s item buf n = (0, pread (flash s) (sd_offset_backup item) n)"
  using assms by (simp_all add: read_copy0_def read_copy1_def into_def sd_read_reliable)

text \<open>A successful read of an object delivers a verified object, whatever the system calls did.\<close>

lemma sd_read_key_sound: "sd_read_key os s item buf len = (0, b) \<Longrightarrow> check_secure_storage_key b = 0"
  by (auto simp: sd_read_key_def Let_def split: prod.splits if_splits)

lemma sd_read_key_reliable:
  assumes "sd_reliable os" "\<not> sst_use_ioctl s" "item \<le> 32" "length buf = 4096"
  shows "sd_read_key os s item buf 4096 =
    (let c0 = pread (flash s) (sd_offset item) 4096; c1 = pread (flash s) (sd_offset_backup item) 4096
     in if check_secure_storage_key c0 = 0 then (0, c0)
        else if check_secure_storage_key c1 = 0 then (0, c1) else (-1, c1))"
  using assms read_copies_reliable [OF assms(1-3), of _ 4096]
  by (simp add: sd_read_key_def Let_def length_overlay)

lemma sd_read_map_reliable:
  assumes "sd_reliable os" "os_malloc os 4096" "\<not> sst_use_ioctl s" "item \<le> 32" "length buf = 4096"
    and "length (os_fresh os 4096) = 4096"
  shows "sd_read_map os s item buf 4096 =
    (let c0 = pread (flash s) (sd_offset item) 4096; c1 = pread (flash s) (sd_offset_backup item) 4096
     in if check_secure_storage_map c0 = 0 then (0, c0)
        else if check_secure_storage_map c1 = 0 then (0, c1)
        else if check_secure_storage_map c1 = 2 then
          if check_secure_storage_map c0 = 2 then if c0 = c1 then (0, c1) else (1, c0)
          else (1, os_fresh os 4096)
        else (1, c1))"
  using assms read_copies_reliable [OF assms(1,3,4), of _ 4096]
  by (simp add: sd_read_map_def Let_def length_overlay)

section \<open>Lemmas: interrupted writes\<close>

text \<open>
  Whatever the first transfer moved, the second copy is untouched until it is complete; whatever
  the second moved, the first copy is then the new object.
\<close>

lemma sd_write_copies:
  assumes "sd_write os d item (Some b) 4096 = (ret, d')" "length b = 4096"
  shows "pread d' (sd_offset item) 4096 = b \<or>
         pread d' (sd_offset_backup item) 4096 = pread d (sd_offset_backup item) 4096"
proof -
  have apart: "sd_offset item + 4096 \<le> sd_offset_backup item"
    by (simp add: sd_offset_eq sd_offset_backup_eq)
  have other: "pread (pwrite d (sd_offset item) (take n b)) (sd_offset_backup item) 4096 =
      pread d (sd_offset_backup item) 4096" for n
    using apart assms(2) by (intro pread_pwrite_other) auto
  have same: "pread (pwrite (pwrite d (sd_offset item) b) (sd_offset_backup item) (take n b))
      (sd_offset item) 4096 = b" for n
    using apart assms(2) pread_pwrite_same [of d "sd_offset item" b]
    by (subst pread_pwrite_other) auto
  have whole: "pread (pwrite d (sd_offset item) b) (sd_offset item) 4096 = b"
    using pread_pwrite_same [of d "sd_offset item" b] assms(2) by simp
  show ?thesis
    using assms(1,2) same same [of 4096] other whole
    by (auto simp: sd_write_def os_pwrite_def Let_def split: if_splits)
qed

lemma sd_write_other_items:
  assumes "sd_write os d i (Some b) 4096 = (ret, d')" "length b = 4096" "i \<noteq> j"
  shows "pread d' (sd_offset j) 4096 = pread d (sd_offset j) 4096"
    and "pread d' (sd_offset_backup j) 4096 = pread d (sd_offset_backup j) 4096"
proof -
  have off: "pread (pwrite d (sd_offset i) (take n b)) (sd_offset j) 4096 = pread d (sd_offset j) 4096"
    "pread (pwrite d (sd_offset_backup i) (take n b)) (sd_offset j) 4096 = pread d (sd_offset j) 4096"
    "pread (pwrite d (sd_offset i) (take n b)) (sd_offset_backup j) 4096 =
      pread d (sd_offset_backup j) 4096"
    "pread (pwrite d (sd_offset_backup i) (take n b)) (sd_offset_backup j) 4096 =
      pread d (sd_offset_backup j) 4096" for d :: "'a dev" and n
    using sd_items_apart(1) [OF assms(3)] sd_items_apart(2) [OF assms(3)] sd_items_apart(3) [of i j]
      sd_items_apart(3) [of j i] assms(2)
    by (auto intro!: pread_pwrite_other)
  show "pread d' (sd_offset j) 4096 = pread d (sd_offset j) 4096"
    and "pread d' (sd_offset_backup j) 4096 = pread d (sd_offset_backup j) 4096"
    using assms(1,2) off off [where n = 4096]
    by (auto simp: sd_write_def os_pwrite_def Let_def split: if_splits)
qed

section \<open>Lemmas: one write and the reads after it\<close>

lemma nv_write_frame:
  "nv_write os s i b n = (ret, s') \<Longrightarrow>
   secure_storage_map s' = secure_storage_map s \<and>
   secure_storage_inited s' = secure_storage_inited s \<and> map_dirty s' = map_dirty s \<and>
   sst_use_ioctl s' = sst_use_ioctl s \<and> flash_boot_type s' = flash_boot_type s \<and>
   sec_mutex s' = sec_mutex s"
  by (auto simp: nv_write_def Let_def split: prod.splits)

lemma medium_ok_frame:
  "flash_boot_type s' = flash_boot_type s \<Longrightarrow> sst_use_ioctl s' = sst_use_ioctl s \<Longrightarrow>
   medium_ok os s' = medium_ok os s"
  by (simp add: medium_ok_def)

text \<open>What a medium's write and reads have in common, once for each of the four paths.\<close>

definition write_reads :: "'k os \<Rightarrow> 'k sst \<Rightarrow> int \<Rightarrow> byte list \<Rightarrow> bool" where
  "write_reads os s i b \<longleftrightarrow>
     (\<exists>d'. nv_write os s i b 4096 = (0, s\<lparr>flash := d'\<rparr>) \<and>
        (readable i b \<longrightarrow>
           (\<forall>buf. length buf = 4096 \<longrightarrow> nv_read os (s\<lparr>flash := d'\<rparr>) i buf 4096 = (0, b))) \<and>
        (\<forall>j buf. 0 \<le> j \<and> j \<le> 32 \<and> j \<noteq> i \<and> length buf = 4096 \<longrightarrow>
           nv_read os (s\<lparr>flash := d'\<rparr>) j buf 4096 = nv_read os s j buf 4096))"

lemma driver_lawsD:
  assumes "driver_laws dr dw" "length bs = 4096"
  shows "0 \<le> fst (dw k i bs)" "0 \<le> fst (dr (snd (dw k i bs)) i)" "snd (dr (snd (dw k i bs)) i) = bs"
    and "j \<noteq> i \<Longrightarrow> dr (snd (dw k i bs)) j = dr k j"
  using assms by (auto simp: driver_laws_def SEC_BLK_SIZE_def)

lemma write_reads_secblk:
  assumes "flash_boot_type s = FLASH_TYPE_NAND" "\<not> sst_use_ioctl s" "secblk_driver_ok os"
    "i \<le> 32" "length b = 4096"
  shows "write_reads os s i b"
proof -
  from assms(3) obtain path where p: "os_malloc os 12" "nand_dev os = Some path" "os_open os path"
    and "driver_laws (\<lambda>k i. os_secblk_read os k path \<lparr>op_item = i, op_len = 4096\<rparr>)
      (\<lambda>k i. os_secblk_write os k path \<lparr>op_item = i, op_len = 4096\<rparr>)"
    unfolding secblk_driver_ok_def SEC_BLK_SIZE_def by (auto split: option.splits)
  note l = driver_lawsD [OF this(4) assms(5)]
  let ?w = "os_secblk_write os (drv (flash s)) path \<lparr>op_item = i, op_len = 4096\<rparr> b"
  show ?thesis
    unfolding write_reads_def
    using assms p l(1-3) [where k = "drv (flash s)" and i = i]
      l(4) [where k = "drv (flash s)" and i = i]
    by (intro exI [of _ "(flash s)\<lparr>drv := snd ?w\<rparr>"])
      (auto simp: nv_write_def nv_read_def nand_write_def nand_read_def into_def
        MAX_SECURE_STORAGE_MAX_ITEM_def case_prod_beta)
qed

lemma sst_driver_okD:
  assumes "sst_driver_ok os" "length b = 4096"
  defines "w \<equiv> \<lambda>k i off. os_sst_write os k \<lparr>sst_id = i, sst_len = 4096, sst_offset = off\<rparr> b"
    and "r \<equiv> \<lambda>k i off. os_sst_read os k \<lparr>sst_id = i, sst_len = 4096, sst_offset = off\<rparr>"
  shows "0 \<le> fst (w k i off)" "0 \<le> fst (r (snd (w k i off)) i off)"
    "snd (r (snd (w k i off)) i off) = b"
    and "j \<noteq> i \<or> off' \<noteq> off \<Longrightarrow> r (snd (w k i off)) j off' = r k j off'"
proof -
  let ?W = "\<lambda>k (i, off). os_sst_write os k \<lparr>sst_id = i, sst_len = 4096, sst_offset = off\<rparr>"
  have "driver_laws (\<lambda>k (i, off). r k i off) ?W"
    using assms(1) by (simp add: sst_driver_ok_def SEC_BLK_SIZE_def r_def)
  note l = driver_lawsD [OF this assms(2), where k = k and i = "(i, off)"]
  show "0 \<le> fst (w k i off)" "0 \<le> fst (r (snd (w k i off)) i off)"
    "snd (r (snd (w k i off)) i off) = b"
    using l(1-3) by (simp_all add: w_def)
  show "r (snd (w k i off)) j off' = r k j off'" if "j \<noteq> i \<or> off' \<noteq> off"
    using l(4) [of "(j, off')"] that by (simp add: w_def)
qed

lemma write_reads_nand_ioctl:
  assumes "flash_boot_type s = FLASH_TYPE_NAND" "sst_use_ioctl s" "sst_driver_ok os"
    "i \<le> 32" "length b = 4096"
  shows "write_reads os s i b"
proof -
  let ?w = "os_sst_write os (drv (flash s)) \<lparr>sst_id = i, sst_len = 4096, sst_offset = 0\<rparr> b"
  note l = sst_driver_okD [OF assms(3,5)]
  have m: "os_malloc os 16" "os_open os OEM_PATH"
    using assms(3) by (auto simp: sst_driver_ok_def)
  show ?thesis
    unfolding write_reads_def
    using assms m l(1-3) [where k = "drv (flash s)" and i = i and off = 0]
      l(4) [where k = "drv (flash s)" and i = i and off = 0 and off' = 0]
    by (intro exI [of _ "(flash s)\<lparr>drv := snd ?w\<rparr>"])
      (auto simp: nv_write_def nv_read_def nand_write_ioctl_def nand_read_ioctl_def sst_read_def
        into_def MAX_SECURE_STORAGE_MAX_ITEM_def case_prod_beta)
qed

lemma sd_reads_cong:
  assumes "\<And>buf. read_copy0 os s' j buf n = read_copy0 os s j buf n"
    "\<And>buf. read_copy1 os s' j buf n = read_copy1 os s j buf n"
  shows "sd_read_map os s' j buf n = sd_read_map os s j buf n"
    and "sd_read_key os s' j buf n = sd_read_key os s j buf n"
  unfolding sd_read_map_def sd_read_key_def assms by simp_all

lemma sd_type_not_nand:
  "t = FLASH_TYPE_SD1 \<or> t = FLASH_TYPE_SD2 \<Longrightarrow> t \<noteq> FLASH_TYPE_NAND"
  by (auto simp: flash_types)

text \<open>
  On the eMMC paths a write that leaves copy 0 readable as \<open>b\<close> and the other items' copies alone
  has the contract, whichever way the copies are accessed.
\<close>

lemma write_reads_sd:
  assumes sd: "flash_boot_type s = FLASH_TYPE_SD1 \<or> flash_boot_type s = FLASH_TYPE_SD2"
    and m: "os_malloc os 4096"
    and w: "nv_write os s i b 4096 = (0, s\<lparr>flash := d'\<rparr>)"
    and same: "\<And>buf. length buf = 4096 \<Longrightarrow> read_copy0 os (s\<lparr>flash := d'\<rparr>) i buf 4096 = (0, b)"
    and other: "\<And>j buf. j \<noteq> i \<Longrightarrow>
      read_copy0 os (s\<lparr>flash := d'\<rparr>) j buf 4096 = read_copy0 os s j buf 4096 \<and>
      read_copy1 os (s\<lparr>flash := d'\<rparr>) j buf 4096 = read_copy1 os s j buf 4096"
  shows "write_reads os s i b"
proof -
  note t = sd_type_not_nand [OF sd]
  have "nv_read os (s\<lparr>flash := d'\<rparr>) j buf 4096 = nv_read os s j buf 4096" if "j \<noteq> i" for j buf
    using sd_reads_cong [of os "s\<lparr>flash := d'\<rparr>" j 4096 s] other [OF that] t
    by (cases "j = 0") (simp_all add: nv_read_def)
  moreover have "nv_read os (s\<lparr>flash := d'\<rparr>) i buf 4096 = (0, b)"
    if "readable i b" "length buf = 4096" for buf
    using that sd t m same [OF that(2)]
    by (auto simp: nv_read_def readable_def sd_read_map_def sd_read_key_def Let_def split: if_splits)
  ultimately show ?thesis
    unfolding write_reads_def using w by blast
qed

lemma write_reads_sd_raw:
  assumes "flash_boot_type s = FLASH_TYPE_SD1 \<or> flash_boot_type s = FLASH_TYPE_SD2"
    "\<not> sst_use_ioctl s" "sd_reliable os" "os_malloc os SEC_BLK_SIZE" "i \<le> 32" "length b = 4096"
  shows "write_reads os s i b"
proof -
  let ?d = "pwrite (pwrite (flash s) (sd_offset i) b) (sd_offset_backup i) b"
  have w: "sd_write os (flash s) i (Some b) 4096 = (0, ?d)"
    using assms by (intro sd_write_reliable)
  have c0: "pread ?d (sd_offset i) 4096 = b"
    using pread_pwrite_same [of "flash s" "sd_offset i" b] assms(6) sd_items_apart(3) [of i i]
    by (subst pread_pwrite_other) (auto simp: sd_offset_eq sd_offset_backup_eq)
  note others = sd_write_other_items [OF w assms(6)]
  show ?thesis
  proof (rule write_reads_sd [OF assms(1), of os i b ?d])
    show "os_malloc os 4096"
      using assms(4) by (simp add: SEC_BLK_SIZE_def)
    show "nv_write os s i b 4096 = (0, s\<lparr>flash := ?d\<rparr>)"
      using assms(1,2) w sd_type_not_nand [OF assms(1)] by (auto simp: nv_write_def)
    show "read_copy0 os (s\<lparr>flash := ?d\<rparr>) i buf 4096 = (0, b)" if "length buf = 4096" for buf
      using assms that c0 by (subst read_copies_reliable) simp_all
    show "read_copy0 os (s\<lparr>flash := ?d\<rparr>) j buf 4096 = read_copy0 os s j buf 4096 \<and>
      read_copy1 os (s\<lparr>flash := ?d\<rparr>) j buf 4096 = read_copy1 os s j buf 4096" if "j \<noteq> i" for j buf
      using assms(2) others [of j] that
      by (simp add: read_copy0_def read_copy1_def into_def sd_read_def sd_read_backup_def
          sd_read_from_def)
  qed
qed

lemma write_reads_sd_ioctl:
  assumes "flash_boot_type s = FLASH_TYPE_SD1 \<or> flash_boot_type s = FLASH_TYPE_SD2"
    "sst_use_ioctl s" "sst_driver_ok os" "i \<le> 32" "length b = 4096"
  shows "write_reads os s i b"
proof -
  let ?w = "\<lambda>k off. os_sst_write os k \<lparr>sst_id = i, sst_len = 4096, sst_offset = off\<rparr> b"
  let ?k1 = "snd (?w (drv (flash s)) (sd_offset i))"
  let ?k2 = "snd (?w ?k1 (sd_offset_backup i))"
  let ?d = "(flash s)\<lparr>drv := ?k2\<rparr>"
  note l = sst_driver_okD [OF assms(3,5)]
  have apart: "sd_offset i \<noteq> sd_offset_backup i"
    by (simp add: sd_offset_eq sd_offset_backup_eq)
  have m: "os_malloc os 16" "os_open os OEM_PATH" "os_malloc os 4096"
    using assms(3) by (auto simp: sst_driver_ok_def SEC_BLK_SIZE_def)
  have r: "os_sst_read os ?k2 \<lparr>sst_id = j, sst_len = 4096, sst_offset = off\<rparr> =
      os_sst_read os (drv (flash s)) \<lparr>sst_id = j, sst_len = 4096, sst_offset = off\<rparr>"
    if "j \<noteq> i" for j off
    using that l(4) [where i = i] by simp
  have same: "os_sst_read os ?k2 \<lparr>sst_id = i, sst_len = 4096, sst_offset = sd_offset i\<rparr> =
      os_sst_read os ?k1 \<lparr>sst_id = i, sst_len = 4096, sst_offset = sd_offset i\<rparr>"
    using apart by (intro l(4)) simp
  show ?thesis
  proof (rule write_reads_sd [OF assms(1), of os i b ?d])
    show "os_malloc os 4096" by (rule m(3))
    show "nv_write os s i b 4096 = (0, s\<lparr>flash := ?d\<rparr>)"
      using assms m sd_type_not_nand [OF assms(1)]
        l(1) [where k = "drv (flash s)" and i = i and off = "sd_offset i"]
        l(1) [where k = ?k1 and i = i and off = "sd_offset_backup i"]
      by (auto simp: nv_write_def sd_write_ioctl_def case_prod_beta Let_def
          MAX_SECURE_STORAGE_MAX_ITEM_def)
    show "read_copy0 os (s\<lparr>flash := ?d\<rparr>) i buf 4096 = (0, b)" if "length buf = 4096" for buf
      using assms m that same l(2,3) [where k = "drv (flash s)" and i = i and off = "sd_offset i"]
      by (simp add: read_copy0_def into_def sd_read_ioctl_def sst_read_def case_prod_beta Let_def
          MAX_SECURE_STORAGE_MAX_ITEM_def)
    show "read_copy0 os (s\<lparr>flash := ?d\<rparr>) j buf 4096 = read_copy0 os s j buf 4096 \<and>
      read_copy1 os (s\<lparr>flash := ?d\<rparr>) j buf 4096 = read_copy1 os s j buf 4096" if "j \<noteq> i" for j buf
      using assms(2) r [OF that]
      by (simp add: read_copy0_def read_copy1_def into_def sd_read_ioctl_def
          sd_read_backup_ioctl_def sst_read_def)
  qed
qed

lemma write_reads_medium:
  assumes "medium_ok os s" "i \<le> 32" "length b = 4096"
  shows "write_reads os s i b"
  using assms
  by (auto simp: medium_ok_def split: if_splits intro: write_reads_secblk write_reads_nand_ioctl
      write_reads_sd_raw write_reads_sd_ioctl)

section \<open>The items as an interface\<close>

text \<open>
  What the storage operations rely on: an accepted item that was written is read back, and writing
  one item leaves the others as they were.
\<close>

locale item_store =
  fixes get :: "'o \<Rightarrow> 's \<Rightarrow> int \<Rightarrow> byte list \<Rightarrow> nat \<Rightarrow> int \<times> byte list"
    and set_item :: "'o \<Rightarrow> 's \<Rightarrow> int \<Rightarrow> byte list \<Rightarrow> nat \<Rightarrow> int \<times> 's"
    and ok :: "'o \<Rightarrow> 's \<Rightarrow> bool"
    and accepts :: "int \<Rightarrow> byte list \<Rightarrow> bool"
  assumes set_ok: "ok os s \<Longrightarrow> 0 \<le> i \<Longrightarrow> i \<le> 32 \<Longrightarrow> length b = 4096 \<Longrightarrow>
      \<exists>s'. set_item os s i b 4096 = (0, s') \<and> ok os s'"
    and get_same: "ok os s \<Longrightarrow> 0 \<le> i \<Longrightarrow> i \<le> 32 \<Longrightarrow> length b = 4096 \<Longrightarrow> length buf = 4096 \<Longrightarrow>
      accepts i b \<Longrightarrow> set_item os s i b 4096 = (0, s') \<Longrightarrow> get os s' i buf 4096 = (0, b)"
    and get_other: "ok os s \<Longrightarrow> 0 \<le> i \<Longrightarrow> i \<le> 32 \<Longrightarrow> length b = 4096 \<Longrightarrow> length buf = 4096 \<Longrightarrow>
      0 \<le> j \<Longrightarrow> j \<le> 32 \<Longrightarrow> j \<noteq> i \<Longrightarrow> set_item os s i b 4096 = (0, s') \<Longrightarrow>
      get os s' j buf 4096 = get os s j buf 4096"
begin

text \<open>An item, then the map: both are read back, and a third item is as before.\<close>

lemma set_two:
  assumes "ok os s" "1 \<le> i" "i \<le> 32" "length b = 4096" "length m = 4096" "accepts i b" "accepts 0 m"
    and "set_item os s i b 4096 = (0, s1)" "set_item os s1 0 m 4096 = (0, s2)"
    and "length buf = 4096"
  shows "get os s2 i buf 4096 = (0, b)" "get os s2 0 buf 4096 = (0, m)"
    and "1 \<le> j \<Longrightarrow> j \<le> 32 \<Longrightarrow> j \<noteq> i \<Longrightarrow> get os s2 j buf 4096 = get os s j buf 4096"
proof -
  have ok1: "ok os s1"
    using set_ok [of os s i b] assms by auto
  have "get os s2 i buf 4096 = get os s1 i buf 4096"
    using ok1 assms by (intro get_other [of _ s1 0 m]) auto
  moreover have "get os s1 i buf 4096 = (0, b)"
    using assms by (intro get_same [of _ s]) auto
  ultimately show "get os s2 i buf 4096 = (0, b)" by simp
  show "get os s2 0 buf 4096 = (0, m)"
    using ok1 assms by (intro get_same [of _ s1]) auto
  show "get os s2 j buf 4096 = get os s j buf 4096" if "1 \<le> j" "j \<le> 32" "j \<noteq> i"
    using ok1 assms that get_other [of os s1 0 m buf j s2] get_other [of os s i b buf j s1] by simp
qed

end

interpretation nv: item_store nv_read nv_write medium_ok readable
proof unfold_locales
  fix os :: "'a os" and s :: "'a sst" and b buf :: "byte list" and i :: int
  assume ok: "medium_ok os s" and i: "0 \<le> i" "i \<le> 32" and b: "length b = 4096"
  from write_reads_medium [OF ok i(2) b] obtain d' where
    w: "nv_write os s i b 4096 = (0, s\<lparr>flash := d'\<rparr>)"
    and same: "\<And>buf. readable i b \<Longrightarrow> length buf = 4096 \<Longrightarrow>
      nv_read os (s\<lparr>flash := d'\<rparr>) i buf 4096 = (0, b)"
    and other: "\<And>j buf. 0 \<le> j \<Longrightarrow> j \<le> 32 \<Longrightarrow> j \<noteq> i \<Longrightarrow> length buf = 4096 \<Longrightarrow>
      nv_read os (s\<lparr>flash := d'\<rparr>) j buf 4096 = nv_read os s j buf 4096"
    unfolding write_reads_def by blast
  show "\<exists>s'. nv_write os s i b 4096 = (0, s') \<and> medium_ok os s'"
    using w ok by (auto simp: medium_ok_def)
  show "nv_read os s' i buf 4096 = (0, b)"
    if "length buf = 4096" "readable i b" "nv_write os s i b 4096 = (0, s')" for s'
    using that w same by simp
  show "nv_read os s' j buf 4096 = nv_read os s j buf 4096"
    if "length buf = 4096" "0 \<le> j" "j \<le> 32" "j \<noteq> i" "nv_write os s i b 4096 = (0, s')" for j s'
    using that w other by simp
qed

end
