(* ===== verification/Sst_Boot.thy ===== *)
theory Sst_Boot
  imports Sst_Flash
begin

text \<open>
  How \<open>secure_storage.c\<close> finds its medium: the kernel command line is cut into words and searched
  for \<open>boot_type\<close>, then for \<open>root\<close>, and the presence of \<open>/dev/sst_storage\<close> selects the driver.
  \<open>None\<close> is a read of memory the code did not set.
\<close>

section \<open>Definitions\<close>

abbreviation EQUALS :: byte where "EQUALS \<equiv> 61"

text \<open>
  \<open>spliteKeyAndValue\<close> on the word \<open>strtok\<close> found; \<open>after\<close> is the text behind the delimiter that
  ended the word, if one did. Without an \<open>=\<close> the value starts behind the word's NUL.
\<close>

definition spliteKeyAndValue :: "cstr \<Rightarrow> cstr option \<Rightarrow> cstr \<times> cstr option" where
  "spliteKeyAndValue str after =
     (takeWhile (\<lambda>c. c \<noteq> EQUALS) str,
      if EQUALS \<in> set str then Some (tl (dropWhile (\<lambda>c. c \<noteq> EQUALS) str)) else after)"

lemma length_behind:
  assumes "dropWhile P (dropWhile Q line) \<noteq> []"
  shows "length (tl (dropWhile P (dropWhile Q line))) < length line"
proof -
  have "length (dropWhile P (dropWhile Q line)) \<le> length line"
    by (rule order_trans [OF length_dropWhile_le length_dropWhile_le])
  then show ?thesis
    using assms by (cases "dropWhile P (dropWhile Q line)") auto
qed

text \<open>The loop over the words: \<open>Some None\<close> when no word has the key.\<close>

function find_key :: "cstr \<Rightarrow> cstr \<Rightarrow> cstr option option" where
  "find_key line key =
     (let t = dropWhile (\<lambda>c. c = SPACE) line;
          word = takeWhile (\<lambda>c. c \<noteq> SPACE) t;
          behind = dropWhile (\<lambda>c. c \<noteq> SPACE) t;
          after = (if behind = [] then None else Some (tl behind))
      in if t = [] then Some None
         else case spliteKeyAndValue word after of (lkey, lvalue) \<Rightarrow>
           if lkey = key then (case lvalue of None \<Rightarrow> None | Some v \<Rightarrow> Some (Some v))
           else case after of None \<Rightarrow> Some None | Some rest \<Rightarrow> find_key rest key)"
  by pat_completeness auto

termination
proof (relation "measure (\<lambda>(line, key). length line)")
  show "wf (measure (\<lambda>(line :: cstr, key :: cstr). length line))" by simp
  fix line key t word behind rest :: cstr and after :: "cstr option" and kv lkey :: cstr
    and lvalue :: "cstr option"
  assume t: "t = dropWhile (\<lambda>c. c = SPACE) line" and b: "behind = dropWhile (\<lambda>c. c \<noteq> SPACE) t"
    and a: "after = (if behind = [] then None else Some (tl behind))" "after = Some rest"
  from a have "behind \<noteq> []" "rest = tl behind"
    by (metis option.distinct(1), metis option.distinct(1) option.inject)
  then show "((rest, key), line, key) \<in> measure (\<lambda>(line, key). length line)"
    unfolding b t in_measure prod.case by (metis length_behind)
qed

declare find_key.simps [simp del]

text \<open>What \<open>fgets(cmdline, 1024, fp)\<close> leaves in the buffer.\<close>

definition fgets_line :: "nat \<Rightarrow> cstr \<Rightarrow> cstr" where
  "fgets_line n text =
     take (n - 1) (takeWhile (\<lambda>c. c \<noteq> 10) text @ take 1 (dropWhile (\<lambda>c. c \<noteq> 10) text))"

text \<open>
  \<open>getInfoFromCmdline\<close>: the return code and the \<open>val_len\<close> bytes stored. An empty file leaves the
  buffer indeterminate, and a line of spaces makes \<open>strtok\<close> return NULL.
\<close>

definition getInfoFromCmdline :: "'k os \<Rightarrow> cstr \<Rightarrow> nat \<Rightarrow> (int \<times> byte list option) option" where
  "getInfoFromCmdline os key val_len =
     (case os_cmdline os of
        None \<Rightarrow> Some (-1, None)
      | Some text \<Rightarrow>
          if dropWhile (\<lambda>c. c = SPACE) (fgets_line 1024 text) = [] then None
          else case find_key (fgets_line 1024 text) key of
              None \<Rightarrow> None
            | Some None \<Rightarrow> Some (-1, None)
            | Some (Some v) \<Rightarrow> Some (0, Some (strncpy_bytes v val_len)))"

text \<open>\<open>strncmp(a, b, n)\<close> is 0 for a constant \<open>b\<close> of length \<open>n\<close>: \<open>a\<close> starts with \<open>b\<close>.\<close>

definition starts_with :: "byte list \<Rightarrow> string \<Rightarrow> bool" where
  "starts_with a b \<longleftrightarrow> take (length b) a = bytes_of b"

definition get_flash_type :: "'k os \<Rightarrow> int option" where
  "get_flash_type os =
     (case getInfoFromCmdline os (bytes_of ''boot_type'') 10 of
        None \<Rightarrow> None
      | Some (_, Some ctype) \<Rightarrow>
          let t = atol (takeWhile (\<lambda>c. c \<noteq> 0) ctype);
              t = (if t = 0 \<and> take 1 ctype \<noteq> bytes_of ''0'' then FLASH_TYPE_UNKNOW else t)
          in Some (if t = FLASH_TYPE_SPI_NAND then FLASH_TYPE_NAND else t)
      | Some (_, None) \<Rightarrow>
          (case getInfoFromCmdline os (bytes_of ''root'') 20 of
             None \<Rightarrow> None
           | Some (_, None) \<Rightarrow> Some FLASH_TYPE_UNKNOW
           | Some (_, Some ctype) \<Rightarrow>
               Some (if starts_with ctype ''/dev/nand'' then FLASH_TYPE_NAND
                     else if starts_with ctype ''/dev/ubi'' then FLASH_TYPE_NAND
                     else if starts_with ctype ''/dev/mtdblock'' then FLASH_TYPE_NOR
                     else if starts_with ctype ''/dev/mmcblk'' then FLASH_TYPE_EMMC3
                     else FLASH_TYPE_UNKNOW)))"

definition sst_ioctl_path :: string where "sst_ioctl_path = ''/dev/sst_storage''"

definition is_use_sst_ctl :: "'k os \<Rightarrow> 'k sst \<Rightarrow> 'k sst" where
  "is_use_sst_ctl os s = s\<lparr>sst_use_ioctl := os_access os sst_ioctl_path\<rparr>"

section \<open>Lemmas: a command line of words\<close>

fun words_find :: "(cstr \<times> cstr) list \<Rightarrow> cstr \<Rightarrow> cstr option" where
  "words_find [] key = None"
| "words_find ((k, v) # ws) key = (if k = key then Some v else words_find ws key)"

fun words_line :: "(cstr \<times> cstr) list \<Rightarrow> cstr" where
  "words_line [] = []"
| "words_line [(k, v)] = k @ [EQUALS] @ v"
| "words_line ((k, v) # ws) = k @ [EQUALS] @ v @ [SPACE] @ words_line ws"

definition word_wf :: "cstr \<times> cstr \<Rightarrow> bool" where
  "word_wf w \<longleftrightarrow> SPACE \<notin> set (fst w) \<and> EQUALS \<notin> set (fst w) \<and> SPACE \<notin> set (snd w)"

lemma find_key_word:
  assumes "w \<noteq> []" "SPACE \<notin> set w" and kv: "\<And>after. spliteKeyAndValue w after = (k, Some v)"
  shows "find_key w key = Some (if k = key then Some v else None)"
    and "find_key (w @ SPACE # r) key = (if k = key then Some (Some v) else find_key r key)"
proof -
  have ns: "\<And>c. c \<in> set w \<Longrightarrow> c \<noteq> SPACE"
    using assms(2) by blast
  then have t: "dropWhile (\<lambda>c. c = SPACE) (w @ x) = w @ x" for x
    using assms(1) by (cases w) auto
  have w: "takeWhile (\<lambda>c. c \<noteq> SPACE) w = w" "dropWhile (\<lambda>c. c \<noteq> SPACE) w = []"
    using ns by (simp_all add: takeWhile_eq_all_conv dropWhile_eq_Nil_conv)
  show "find_key w key = Some (if k = key then Some v else None)"
    using assms(1) t [of "[]"] by (subst find_key.simps) (simp add: kv w assms(2))
  have "takeWhile (\<lambda>c. c \<noteq> SPACE) (w @ SPACE # r) = w" "dropWhile (\<lambda>c. c \<noteq> SPACE) (w @ SPACE # r) = SPACE # r"
    by (simp_all add: takeWhile_append2 dropWhile_append2 ns)
  then show "find_key (w @ SPACE # r) key = (if k = key then Some (Some v) else find_key r key)"
    using assms(1) t by (subst find_key.simps) (simp add: kv)
qed

lemma word_text:
  assumes "word_wf (k, v)"
  shows "k @ [EQUALS] @ v \<noteq> []" "SPACE \<notin> set (k @ [EQUALS] @ v)"
    and "spliteKeyAndValue (k @ [EQUALS] @ v) after = (k, Some v)"
proof -
  show "k @ [EQUALS] @ v \<noteq> []" "SPACE \<notin> set (k @ [EQUALS] @ v)"
    using assms by (auto simp: word_wf_def)
  have ne: "\<And>c. c \<in> set k \<Longrightarrow> c \<noteq> EQUALS"
    using assms by (auto simp: word_wf_def)
  show "spliteKeyAndValue (k @ [EQUALS] @ v) after = (k, Some v)"
    by (simp add: spliteKeyAndValue_def takeWhile_append2 dropWhile_append2 ne)
qed

lemma find_key_words:
  assumes "list_all word_wf ws"
  shows "find_key (words_line ws) key = Some (words_find ws key)"
  using assms
proof (induction ws rule: words_line.induct)
  case 1
  then show ?case
    by (subst find_key.simps) simp
next
  case (2 k v)
  then have "word_wf (k, v)" by simp
  note t = word_text [OF this]
  show ?case
    unfolding words_line.simps find_key_word(1) [OF t] by simp
next
  case (3 k v w ws)
  then have "word_wf (k, v)" by simp
  note t = word_text [OF this]
  have "find_key ((k @ [EQUALS] @ v) @ SPACE # words_line (w # ws)) key =
      (if k = key then Some (Some v) else find_key (words_line (w # ws)) key)"
    by (rule find_key_word(2) [OF t])
  then show ?case
    using 3 by simp
qed

lemma words_line_word:
  assumes "list_all word_wf ws" "ws \<noteq> []"
  shows "dropWhile (\<lambda>c. c = SPACE) (words_line ws) \<noteq> []"
proof -
  have "EQUALS \<in> set (words_line ws)"
    using assms(2) by (induction ws rule: words_line.induct) auto
  moreover have "EQUALS \<noteq> SPACE" by simp
  ultimately show ?thesis
    by (metis (mono_tags, lifting) dropWhile_eq_Nil_conv)
qed

lemma fgets_line_whole:
  assumes "length text < 1024" "10 \<notin> set (butlast text)"
  shows "fgets_line 1024 text = text"
proof -
  have "takeWhile (\<lambda>c. c \<noteq> 10) text @ take 1 (dropWhile (\<lambda>c. c \<noteq> 10) text) = text"
  proof (cases "text" rule: rev_cases)
    case (snoc l c)
    then have "\<And>x. x \<in> set l \<Longrightarrow> x \<noteq> 10"
      using assms(2) by auto
    then show ?thesis
      using snoc by (simp add: takeWhile_append2 dropWhile_append2)
  qed simp
  then show ?thesis
    using assms(1) by (simp add: fgets_line_def)
qed

text \<open>A string that fits is what \<open>strncpy\<close> stores, read up to its NUL.\<close>

lemma strncpy_string:
  assumes "\<And>c. c \<in> set v \<Longrightarrow> c \<noteq> 0" "length v \<le> n"
  shows "takeWhile (\<lambda>c. c \<noteq> 0) (strncpy_bytes v n) = v"
proof -
  have "strncpy_bytes v n = v @ replicate (n - length v) 0"
    using assms(2) by (simp add: strncpy_bytes_def)
  then show ?thesis
    using assms(1) by (simp add: takeWhile_append2 takeWhile_replicate)
qed

end
