(* ===== verification/Secure_Storage.thy ===== *)
theory Secure_Storage
  imports Sst_Boot
begin

text \<open>
  The operations of \<open>secure_storage.c\<close> on named items: opening and closing the storage under its
  mutex, reading, writing and listing objects, erasing the map; and \<open>api.c\<close> on top of them.
  An operation is \<open>None\<close> where the code reads or writes outside an object, or waits for a mutex that
  its own thread holds. Otherwise it returns the C result with what the code wrote through its
  pointers, and the new state.
\<close>

section \<open>Opening and closing\<close>

abbreviation empty_map :: "byte list" where "empty_map \<equiv> replicate SEC_BLK_SIZE 0"

text \<open>What \<open>sunxi_secure_storage_init\<close> makes of the map it read.\<close>

definition usable_map :: "byte list \<Rightarrow> byte list" where
  "usable_map m =
     (let ret = check_secure_storage_map m
      in if ret = -1 then empty_map
         else if ret = 2 \<and> (hd m = 0xff \<or> hd m = 0) then empty_map
         else m)"

definition sunxi_secure_storage_init :: "'k os \<Rightarrow> 'k sst \<Rightarrow> (int \<times> 'k sst) option" where
  "sunxi_secure_storage_init os s =
     (if sec_mutex s then None
      else
        let s = s\<lparr>sec_mutex := True\<rparr>
        in if secure_storage_inited s then Some (0, s)
           else case get_flash_type os of None \<Rightarrow> None
             | Some t \<Rightarrow>
                 let s = is_use_sst_ctl os (s\<lparr>flash_boot_type := t\<rparr>);
                     (ret, m) = sunxi_secstorage_read os s 0 (secure_storage_map s) SEC_BLK_SIZE
                 in if ret = -1
                    then Some (-1, s\<lparr>secure_storage_map := m, sec_mutex := False\<rparr>)
                    else Some (0, s\<lparr>secure_storage_map := usable_map m, secure_storage_inited := True\<rparr>))"

text \<open>The map with its magic and checksum.\<close>

definition seal_map :: "byte list \<Rightarrow> byte list" where
  "seal_map m =
     (let m = take 4088 m @ le32 STORE_OBJECT_MAGIC @ drop 4092 m
      in take 4092 m @ le32 (crc_of (take 4092 m)))"

definition sunxi_secure_storage_exit :: "'k os \<Rightarrow> 'k sst \<Rightarrow> int \<Rightarrow> int \<times> 'k sst" where
  "sunxi_secure_storage_exit os s mode =
     (if \<not> secure_storage_inited s then (-1, s)
      else
        let (ret, s) =
          (if mode \<noteq> 0 \<or> map_dirty s
           then sunxi_secstorage_write os (s\<lparr>secure_storage_map := seal_map (secure_storage_map s)\<rparr>)
                  0 (seal_map (secure_storage_map s)) SEC_BLK_SIZE
           else (0, s))
        in if ret < 0 then (-1, s\<lparr>sec_mutex := False\<rparr>)
           else (0, s\<lparr>secure_storage_inited := False, map_dirty := False, sec_mutex := False\<rparr>))"

section \<open>Items and objects\<close>

text \<open>The return code, the buffer and \<open>*data_len\<close> afterwards.\<close>

definition sunxi_secure_storage_read ::
    "'k os \<Rightarrow> 'k sst \<Rightarrow> cstr \<Rightarrow> byte list \<Rightarrow> nat \<Rightarrow> int \<Rightarrow> (int \<times> byte list \<times> int) option" where
  "sunxi_secure_storage_read os s item_name buffer buffer_len data_len =
     (if \<not> secure_storage_inited s then Some (-1, buffer, data_len)
      else if \<not> os_malloc os SEC_BLK_SIZE then Some (-1, buffer, data_len)
      else case probe_name_in_map (secure_storage_map s) item_name of
          None \<Rightarrow> None
        | Some (index, len) \<Rightarrow>
            if index < 0 then Some (-1, buffer, data_len)
            else do {
              len_in_store \<leftarrow> len;
              let buffer = overlay buffer (replicate buffer_len 0);
              let (ret, buffer_to_sec) =
                sunxi_secstorage_read os s index (os_fresh os SEC_BLK_SIZE) SEC_BLK_SIZE;
              if ret \<noteq> 0 then Some (-1, buffer, data_len)
              else do {
                bs \<leftarrow> (if int buffer_len < len_in_store then slice buffer_to_sec 0 buffer_len
                       else if len_in_store < 0 then None
                       else slice buffer_to_sec 0 (nat len_in_store));
                buffer \<leftarrow> put buffer 0 bs;
                Some (0, buffer, len_in_store)
              }
            })"

definition sunxi_secure_storage_write ::
    "'k os \<Rightarrow> 'k sst \<Rightarrow> cstr \<Rightarrow> byte list \<Rightarrow> int \<Rightarrow> (int \<times> 'k sst) option" where
  "sunxi_secure_storage_write os s item_name buffer len =
     (if \<not> secure_storage_inited s then Some (-1, s)
      else case fill_name_in_map (secure_storage_map s) item_name len of
          None \<Rightarrow> None
        | Some (index, m) \<Rightarrow>
            let s = s\<lparr>secure_storage_map := m\<rparr>
            in if index < 0 then Some (-1, s)
               else
                 let (ret, s) = sunxi_secstorage_write os s index buffer SEC_BLK_SIZE
                 in if ret \<noteq> 0 then Some (-1, s) else Some (0, s\<lparr>map_dirty := True\<rparr>))"

definition sunxi_secure_storage_probe :: "'k sst \<Rightarrow> cstr \<Rightarrow> int option" where
  "sunxi_secure_storage_probe s item_name =
     (if \<not> secure_storage_inited s then Some (-1)
      else case probe_name_in_map (secure_storage_map s) item_name of
          None \<Rightarrow> None
        | Some (ret, _) \<Rightarrow> Some (if ret < 0 then -1 else 0))"

definition sunxi_secure_object_read ::
    "'k os \<Rightarrow> 'k sst \<Rightarrow> cstr \<Rightarrow> byte list \<Rightarrow> int \<Rightarrow> (int \<times> byte list \<times> int) option" where
  "sunxi_secure_object_read os s item_name buffer data_len = do {
     (ret, secure_object, retLen) \<leftarrow>
       sunxi_secure_storage_read os s item_name (replicate SEC_BLK_SIZE 0) SEC_BLK_SIZE 0;
     if ret \<noteq> 0 then Some (-1, buffer, data_len)
     else unwrap_secure_object secure_object retLen buffer data_len
   }"

text \<open>
  The check at the start of \<open>sunxi_secure_object_write\<close>: what is cast to \<open>store_object_t\<close> is the
  payload that was read, over an uninitialised buffer.
\<close>

definition write_protected :: "'k os \<Rightarrow> 'k sst \<Rightarrow> cstr \<Rightarrow> bool option" where
  "write_protected os s item_name = do {
     p \<leftarrow> sunxi_secure_storage_probe s item_name;
     if p \<noteq> 0 then Some False
     else do {
       (_, secure_object, _) \<leftarrow>
         sunxi_secure_object_read os s item_name (os_fresh os SEC_BLK_SIZE) 0;
       let so = object_of secure_object;
       Some (magic so = STORE_OBJECT_MAGIC \<and> write_protect so = STORE_WRITE_PROTECT_MAGIC)
     }
   }"

definition sunxi_secure_object_write ::
    "'k os \<Rightarrow> 'k sst \<Rightarrow> cstr \<Rightarrow> byte list \<Rightarrow> int \<Rightarrow> (int \<times> 'k sst) option" where
  "sunxi_secure_object_write os s item_name buffer len = do {
     protected \<leftarrow> write_protected os s item_name;
     if protected then Some (-1, s)
     else do {
       (ret, secure_object, retLen) \<leftarrow>
         wrap_secure_object buffer item_name (word_of_int len) (replicate SEC_BLK_SIZE 0);
       let retLen = (case retLen of None \<Rightarrow> 0 | Some n \<Rightarrow> n);
       if ret < 0 \<or> int SEC_BLK_SIZE < retLen then Some (-1, s)
       else sunxi_secure_storage_write os s item_name secure_object retLen
     }
   }"

section \<open>Erasing, listing, support\<close>

definition sunxi_secure_object_erase :: "'k os \<Rightarrow> 'k sst \<Rightarrow> (int \<times> 'k sst) option" where
  "sunxi_secure_object_erase os s = do {
     (ret, s) \<leftarrow> sunxi_secure_storage_init os s;
     if ret \<noteq> 0 then Some (-1, s)
     else
       let (ret, s) = sunxi_secure_storage_exit os
             (s\<lparr>secure_storage_map := empty_map, map_dirty := True\<rparr>) 0
       in Some (if ret \<noteq> 0 then -1 else 0, s)
   }"

text \<open>
  The loop of \<open>sunxi_secure_object_list\<close> from position \<open>p\<close> of the map: whether it reached the end,
  and the lines it printed.
\<close>

function list_from ::
    "'k os \<Rightarrow> 'k sst \<Rightarrow> nat \<Rightarrow> int \<Rightarrow> (bool \<times> (int \<times> cstr \<times> cstr) list) option" where
  "list_from os s p index =
     (case rd (secure_storage_map s) p of None \<Rightarrow> None | Some c \<Rightarrow>
      if c = 0 then Some (True, [])
      else case parse_entry (secure_storage_map s) p of None \<Rightarrow> None
        | Some None \<Rightarrow> Some (False, [])
        | Some (Some (name, len)) \<Rightarrow>
            (case sunxi_secure_object_read os s name (replicate SEC_BLK_SIZE 0) 0 of None \<Rightarrow> None
             | Some (ret, key_data, _) \<Rightarrow>
                 if ret < 0 then Some (False, [])
                 else case strlen_at (secure_storage_map s) p of None \<Rightarrow> None
                   | Some n \<Rightarrow>
                       map_option (\<lambda>(ok, ls). (ok, (index, name, takeWhile (\<lambda>c. c \<noteq> 0) key_data) # ls))
                         (list_from os s (p + n + 1) (index + 1))))"
  by pat_completeness auto
termination
  by (relation "measure (\<lambda>(os, s, p, i). length (secure_storage_map s) - p)") (auto simp: rd_eq_Some_iff)

declare list_from.simps [simp del]

definition sunxi_secure_object_list ::
    "'k os \<Rightarrow> 'k sst \<Rightarrow> (int \<times> (int \<times> cstr \<times> cstr) list \<times> 'k sst) option" where
  "sunxi_secure_object_list os s = do {
     (ret, s) \<leftarrow> sunxi_secure_storage_init os s;
     if ret \<noteq> 0 then Some (-1, [], s)
     else do {
       (ok, ls) \<leftarrow> list_from os s 0 1;
       if \<not> ok then Some (-1, ls, s)
       else
         let (ret, s) = sunxi_secure_storage_exit os s 0
         in Some (if ret \<noteq> 0 then -1 else 0, ls, s)
     }
   }"

definition secure_storage_support :: "'k os \<Rightarrow> 'k sst \<Rightarrow> (int \<times> 'k sst) option" where
  "secure_storage_support os s = do {
     (ret, s) \<leftarrow> sunxi_secure_storage_init os s;
     if ret < 0 then Some (-1, s)
     else Some (0, snd (sunxi_secure_storage_exit os s 0))
   }"

section \<open>api.c\<close>

text \<open>\<open>strncpy(dst, src, n)\<close> with \<open>src\<close> an object that need not hold a NUL among its first \<open>n\<close> bytes.\<close>

definition strncpy_from :: "byte list \<Rightarrow> nat \<Rightarrow> byte list option" where
  "strncpy_from src n =
     (if 0 \<in> set src \<or> n \<le> length src then Some (strncpy_bytes (takeWhile (\<lambda>c. c \<noteq> 0) src) n) else None)"

definition secure_data_write ::
    "'k os \<Rightarrow> 'k sst \<Rightarrow> cstr option \<Rightarrow> byte list option \<Rightarrow> int \<Rightarrow> (int \<times> 'k sst) option" where
  "secure_data_write os s item_name buffer len =
     (case (item_name, buffer) of
        (Some item_name, Some buffer) \<Rightarrow>
          if int SEC_BLK_SIZE < len then Some (-1, s)
          else if len < 0 then None
          else do {
            bs \<leftarrow> strncpy_from buffer (nat len);
            let buffer_bak = overlay (replicate SEC_BLK_SIZE 0) bs;
            (ret, s) \<leftarrow> secure_storage_support os s;
            if ret \<noteq> 0 then Some (0, s)
            else do {
              (ret, s) \<leftarrow> sunxi_secure_storage_init os s;
              if ret < 0 then Some (-1, s)
              else do {
                (ret, s) \<leftarrow> sunxi_secure_object_write os s item_name buffer_bak len;
                let (ret', s) = sunxi_secure_storage_exit os s 0;
                Some (if ret < 0 then -1 else if ret' < 0 then -1 else 0, s)
              }
            }
          }
      | _ \<Rightarrow> Some (-1, s))"

definition secure_data_read ::
    "'k os \<Rightarrow> 'k sst \<Rightarrow> cstr \<Rightarrow> byte list \<Rightarrow> int \<Rightarrow> (int \<times> byte list \<times> int \<times> 'k sst) option" where
  "secure_data_read os s item_name buffer data_len = do {
     (ret, s) \<leftarrow> secure_storage_support os s;
     if ret \<noteq> 0 then Some (ret, buffer, data_len, s)
     else do {
       (r, s) \<leftarrow> sunxi_secure_storage_init os s;
       if r < 0 then Some (ret, buffer, data_len, s)
       else do {
         (r, buffer, data_len) \<leftarrow> sunxi_secure_object_read os s item_name buffer data_len;
         let (r', s) = sunxi_secure_storage_exit os s 0;
         Some (if r < 0 then ret else if r' < 0 then ret else 0, buffer, data_len, s)
       }
     }
   }"

section \<open>States\<close>

definition os_wf :: "'k os \<Rightarrow> bool" where
  "os_wf os \<longleftrightarrow> os_malloc os SEC_BLK_SIZE \<and> length (os_fresh os SEC_BLK_SIZE) = SEC_BLK_SIZE"

text \<open>The map the next \<open>sunxi_secure_storage_init\<close> finds on the medium.\<close>

definition disk_map :: "'k os \<Rightarrow> 'k sst \<Rightarrow> entries \<Rightarrow> bool" where
  "disk_map os s es \<longleftrightarrow>
     (\<exists>r m. (\<forall>buf. length buf = SEC_BLK_SIZE \<longrightarrow> nv_read os s 0 buf SEC_BLK_SIZE = (r, m)) \<and>
        r \<noteq> -1 \<and> map_rep (usable_map m) es)"

definition booted :: "'k os \<Rightarrow> 'k sst \<Rightarrow> bool" where
  "booted os s \<longleftrightarrow>
     get_flash_type os = Some (flash_boot_type s) \<and> sst_use_ioctl s = os_access os sst_ioctl_path \<and>
     medium_ok os s"

text \<open>Between \<open>sunxi_secure_storage_init\<close> and \<open>sunxi_secure_storage_exit\<close>, with the entries \<open>es\<close>.\<close>

definition opened :: "'k os \<Rightarrow> 'k sst \<Rightarrow> entries \<Rightarrow> bool" where
  "opened os s es \<longleftrightarrow>
     secure_storage_inited s \<and> sec_mutex s \<and> os_wf os \<and> booted os s \<and>
     map_rep (secure_storage_map s) es \<and> (\<forall>e \<in> set es. snd e = 3176) \<and>
     (map_dirty s \<or> disk_map os s es)"

text \<open>Closed, with the entries \<open>es\<close> on the medium.\<close>

definition boot :: "'k os \<Rightarrow> 'k sst \<Rightarrow> 'k sst" where
  "boot os s =
     is_use_sst_ctl os (s\<lparr>flash_boot_type :=
       (case get_flash_type os of None \<Rightarrow> flash_boot_type s | Some t \<Rightarrow> t)\<rparr>)"

definition stored :: "'k os \<Rightarrow> 'k sst \<Rightarrow> entries \<Rightarrow> bool" where
  "stored os s es \<longleftrightarrow>
     \<not> secure_storage_inited s \<and> \<not> sec_mutex s \<and> \<not> map_dirty s \<and> os_wf os \<and>
     length (secure_storage_map s) = SEC_BLK_SIZE \<and> booted os (boot os s) \<and>
     (\<forall>e \<in> set es. snd e = 3176) \<and> disk_map os (boot os s) es"

text \<open>An item as \<open>sunxi_secure_storage_read\<close> reads it.\<close>

definition item :: "'k os \<Rightarrow> 'k sst \<Rightarrow> int \<Rightarrow> int \<times> byte list" where
  "item os s i = nv_read os s i (os_fresh os SEC_BLK_SIZE) SEC_BLK_SIZE"

section \<open>Lemmas: what depends on what\<close>

lemma nv_read_cong:
  fixes s s' :: "'k sst"
  assumes "flash s' = flash s" "sst_use_ioctl s' = sst_use_ioctl s"
    "flash_boot_type s' = flash_boot_type s"
  shows "nv_read os s' = nv_read os s"
proof (intro ext)
  fix i buf n
  have c: "read_copy0 os s' i buf n = read_copy0 os s i buf n"
    "read_copy1 os s' i buf n = read_copy1 os s i buf n" for i buf n
    unfolding read_copy0_def read_copy1_def assms by (rule refl)+
  show "nv_read os s' i buf n = nv_read os s i buf n"
    unfolding nv_read_def assms sd_reads_cong [of os s', OF c] by (rule refl)
qed

lemma nv_read_frame [simp]:
  "nv_read os (s\<lparr>secure_storage_map := m\<rparr>) = nv_read os s"
  "nv_read os (s\<lparr>secure_storage_inited := b\<rparr>) = nv_read os s"
  "nv_read os (s\<lparr>map_dirty := b\<rparr>) = nv_read os s"
  "nv_read os (s\<lparr>sec_mutex := b\<rparr>) = nv_read os s"
  by (rule nv_read_cong; simp)+

lemma medium_ok_frames [simp]:
  "medium_ok os (s\<lparr>secure_storage_map := m\<rparr>) = medium_ok os s"
  "medium_ok os (s\<lparr>secure_storage_inited := b\<rparr>) = medium_ok os s"
  "medium_ok os (s\<lparr>map_dirty := b\<rparr>) = medium_ok os s"
  "medium_ok os (s\<lparr>sec_mutex := b\<rparr>) = medium_ok os s"
  by (rule medium_ok_frame; simp)+

lemma object_read_cong:
  assumes "secure_storage_inited s' = secure_storage_inited s"
    and "probe_name_in_map (secure_storage_map s') n = probe_name_in_map (secure_storage_map s) n"
    and "\<And>i l. probe_name_in_map (secure_storage_map s) n = Some (i, l) \<Longrightarrow> 0 \<le> i \<Longrightarrow>
      item os s' i = item os s i"
  shows "sunxi_secure_object_read os s' n b dl = sunxi_secure_object_read os s n b dl"
proof -
  have "sunxi_secure_storage_read os s' n so k d = sunxi_secure_storage_read os s n so k d" for so k d
    using assms
    by (auto simp: sunxi_secure_storage_read_def sunxi_secstorage_read_def item_def
        split: option.splits)
  then show ?thesis
    by (simp add: sunxi_secure_object_read_def)
qed

lemma find_entry_inj:
  assumes "n \<in> fst ` set es" "n' \<in> fst ` set es" "n \<noteq> n'"
  shows "fst (find_entry es n i) \<noteq> fst (find_entry es n' i)"
proof -
  obtain k l where k: "find_entry es n i = (i + int k, Some l)" "es ! k = (n, l)"
    using find_entry_present [OF assms(1)] by blast
  obtain k' l' where k': "find_entry es n' i = (i + int k', Some l')" "es ! k' = (n', l')"
    using find_entry_present [OF assms(2)] by blast
  show ?thesis
    using k k' assms(3) by auto
qed

lemma find_entry_range:
  "n \<in> fst ` set es \<Longrightarrow> length es \<le> 31 \<Longrightarrow>
   1 \<le> fst (find_entry es n 1) \<and> fst (find_entry es n 1) \<le> 31"
  using find_entry_present [of n es 1] by auto

text \<open>What reading an object depends on, from whichever state it is read.\<close>

lemma object_read_same:
  assumes "opened os s es" "opened os s' es'" "find_entry es' n 1 = find_entry es n 1"
    and "\<And>j. 1 \<le> j \<Longrightarrow> j \<le> 31 \<Longrightarrow> j = fst (find_entry es n 1) \<Longrightarrow> item os s' j = item os s j"
  shows "sunxi_secure_object_read os s' n out dl = sunxi_secure_object_read os s n out dl"
proof -
  have m: "map_rep (secure_storage_map s) es" "map_rep (secure_storage_map s') es'"
    using assms(1,2) by (simp_all add: opened_def)
  show ?thesis
  proof (rule object_read_cong)
    show "secure_storage_inited s' = secure_storage_inited s"
      using assms(1,2) by (simp add: opened_def)
    show "probe_name_in_map (secure_storage_map s') n = probe_name_in_map (secure_storage_map s) n"
      using m assms(3) by (simp add: sst_map.lookup_rep)
    show "item os s' i = item os s i"
      if "probe_name_in_map (secure_storage_map s) n = Some (i, l)" "0 \<le> i" for i l
    proof -
      have f: "find_entry es n 1 = (i, l)"
        using that(1) m by (simp add: sst_map.lookup_rep)
      then have "n \<in> fst ` set es"
        using that(2) fst_find_entry_absent by force
      then show ?thesis
        using f assms(4) find_entry_range [of n es] sst_map.rep_bound [OF m(1)] by simp
    qed
  qed
qed

section \<open>Lemmas: writing and reading an object\<close>

lemma wrap_item:
  assumes "0 \<le> len" "len \<le> 3072" "nat len \<le> length buffer"
  shows "\<exists>obj. wrap_secure_object buffer n (word_of_int len) (replicate SEC_BLK_SIZE 0) =
      Some (0, object_bytes obj @ replicate 920 0, Some 3176) \<and> valid_object obj \<and>
      unat (actual_len obj) = nat len \<and> take (nat len) (data obj) = take (nat len) buffer"
proof -
  have u: "unat (word_of_int len :: u32) = nat len"
    using assms(1,2) by (simp add: unat_eq_nat_uint uint_word_of_int)
  have n: "nat len \<le> 3072"
    using assms(2) by (simp only: nat_le_iff)
  obtain obj where "wrap_secure_object buffer n (word_of_int len) (replicate SEC_BLK_SIZE 0) =
      Some (0, object_bytes obj @ drop 3176 (replicate SEC_BLK_SIZE 0), Some 3176) \<and> valid_object obj \<and>
      write_protect obj = 0 \<and> obj_name obj = strncpy_bytes n 64 \<and> actual_len obj = word_of_int len \<and>
      take (nat len) (data obj) = take (nat len) buffer"
    using wrap_ok [of "word_of_int len" buffer "replicate SEC_BLK_SIZE 0" n, unfolded u, OF n assms(3)]
    by (auto simp: SEC_BLK_SIZE_def)
  then show ?thesis
    by (intro exI [of _ obj]) (simp add: u SEC_BLK_SIZE_def)
qed

text \<open>Reading an object whose item holds a valid object.\<close>

lemma object_read_item:
  assumes s: "secure_storage_inited s" "os_wf os"
    and i: "probe_name_in_map (secure_storage_map s) n = Some (i, Some 3176)" "0 \<le> i"
    and b: "item os s i = (0, object_bytes obj @ r)" "valid_object obj"
    and l: "unat (actual_len obj) \<le> 3072" "unat (actual_len obj) \<le> length out"
  shows "sunxi_secure_object_read os s n out dl =
    Some (0, overlay out (take (unat (actual_len obj)) (data obj)), int (unat (actual_len obj)))"
proof -
  have wf: "object_wf obj"
    using b(2) by (simp add: valid_object_def)
  have "sunxi_secure_storage_read os s n (replicate SEC_BLK_SIZE 0) SEC_BLK_SIZE 0 =
      Some (0, object_bytes obj @ replicate 920 0, 3176)"
    using s i b(1) wf
    by (simp add: sunxi_secure_storage_read_def sunxi_secstorage_read_def item_def os_wf_def
        slice_def put_def overlay_def SEC_BLK_SIZE_def length_object_bytes)
  then show ?thesis
    using unwrap_ok [OF b(2) l, of "replicate 920 0" dl]
    by (simp add: sunxi_secure_object_read_def)
qed

text \<open>
  Writing an object for which \<open>__fill_name_in_map\<close> chose item \<open>i\<close>: the item holds it, the others are
  as before.
\<close>

lemma object_write_item:
  assumes s: "opened os s es" and w: "write_protected os s n = Some False"
    and len: "0 \<le> len" "len \<le> 3072" "nat len \<le> length buffer"
    and m: "fill_name_in_map (secure_storage_map s) n 3176 = Some (i, m)" "map_rep m es'"
      "1 \<le> i" "i \<le> 31" "\<forall>e \<in> set es'. snd e = 3176"
  shows "\<exists>s' obj. sunxi_secure_object_write os s n buffer len = Some (0, s') \<and> opened os s' es' \<and>
    map_dirty s' \<and> secure_storage_map s' = m \<and> valid_object obj \<and>
    unat (actual_len obj) = nat len \<and> take (nat len) (data obj) = take (nat len) buffer \<and>
    item os s' i = (0, object_bytes obj @ replicate 920 0) \<and>
    (\<forall>j. 0 \<le> j \<and> j \<le> 31 \<and> j \<noteq> i \<longrightarrow> item os s' j = item os s j)"
proof -
  have o: "secure_storage_inited s" "sec_mutex s" "os_wf os" "booted os s" "medium_ok os s"
    using s by (simp_all add: opened_def booted_def)
  obtain obj where obj: "wrap_secure_object buffer n (word_of_int len) (replicate SEC_BLK_SIZE 0) =
      Some (0, object_bytes obj @ replicate 920 0, Some 3176)" "valid_object obj"
    "unat (actual_len obj) = nat len" "take (nat len) (data obj) = take (nat len) buffer"
    using wrap_item [OF len] by blast
  let ?b = "object_bytes obj @ replicate 920 0" and ?s = "s\<lparr>secure_storage_map := m\<rparr>"
  have b: "length ?b = 4096"
    using obj(2) by (simp add: valid_object_def length_object_bytes)
  have acc: "readable i ?b"
    using m(3) check_key_valid [OF obj(2)] by (simp add: readable_def)
  obtain s1 where s1: "nv_write os ?s i ?b 4096 = (0, s1)" "medium_ok os s1"
    using nv.set_ok [of os ?s i ?b] o(5) m(3,4) b by auto
  have f: "secure_storage_map s1 = m" "secure_storage_inited s1" "map_dirty s1 = map_dirty s"
    "sst_use_ioctl s1 = sst_use_ioctl s" "flash_boot_type s1 = flash_boot_type s" "sec_mutex s1"
    using nv_write_frame [OF s1(1)] o by simp_all
  let ?s' = "s1\<lparr>map_dirty := True\<rparr>"
  have fresh: "length (os_fresh os 4096) = 4096"
    using o(3) by (simp add: os_wf_def SEC_BLK_SIZE_def)
  have same: "item os ?s' i = (0, ?b)"
    using nv.get_same [OF _ _ _ b fresh acc s1(1)] m(3,4) o(5) by (simp add: item_def SEC_BLK_SIZE_def)
  have other: "item os ?s' j = item os s j" if "0 \<le> j" "j \<le> 31" "j \<noteq> i" for j
    using nv.get_other [OF _ _ _ b fresh that(1) _ that(3) s1(1)] that m(3,4) o(5)
    by (simp add: item_def SEC_BLK_SIZE_def)
  have wrote: "sunxi_secure_object_write os s n buffer len = Some (0, ?s')"
    using w obj(1) o(1) m(1,3) s1(1)
    by (simp add: sunxi_secure_object_write_def sunxi_secure_storage_write_def
        sunxi_secstorage_write_def SEC_BLK_SIZE_def)
  have "opened os ?s' es'"
    using o(3,4) s1(2) f m(2,5) by (simp add: opened_def booted_def)
  then show ?thesis
    using wrote obj same other f(1) by (intro exI [of _ ?s'] exI [of _ obj]) simp
qed

lemma object_read_written:
  assumes "opened os s es" "find_entry es n 1 = (i, Some 3176)" "1 \<le> i"
    and "item os s i = (0, object_bytes obj @ r)" "valid_object obj"
    and len: "unat (actual_len obj) = nat len" "take (nat len) (data obj) = bs" "0 \<le> len" "len \<le> 3072"
      "nat len \<le> length out"
  shows "sunxi_secure_object_read os s n out dl = Some (0, overlay out bs, len)"
proof -
  have "probe_name_in_map (secure_storage_map s) n = Some (i, Some 3176)"
    using assms(1,2) probe_refines by (auto simp: opened_def)
  then show ?thesis
    using object_read_item [OF _ _ _ _ assms(4,5), of n out dl] assms(1,3) len
    by (simp add: opened_def)
qed

lemma object_write_opened:
  assumes s: "opened os s es" and n: "name_wf n" "room_for es n"
    and len: "0 \<le> len" "len \<le> 3072" "nat len \<le> length buffer"
    and w: "write_protected os s n = Some False"
  shows "\<exists>s'. sunxi_secure_object_write os s n buffer len = Some (0, s') \<and>
    opened os s' (snd (fill_entries es n 3176)) \<and> map_dirty s' \<and>
    (\<forall>out dl. nat len \<le> length out \<longrightarrow>
       sunxi_secure_object_read os s' n out dl = Some (0, overlay out (take (nat len) buffer), len)) \<and>
    (\<forall>n' out dl. n' \<noteq> n \<longrightarrow>
       sunxi_secure_object_read os s' n' out dl = sunxi_secure_object_read os s n' out dl)"
proof -
  have rep: "map_rep (secure_storage_map s) es" and l3: "\<forall>e \<in> set es. snd e = 3176"
    using s by (simp_all add: opened_def)
  let ?es = "snd (fill_entries es n 3176)"
  obtain i m l where m: "fill_name_in_map (secure_storage_map s) n 3176 = Some (i, m)"
    "map_rep m ?es" "1 \<le> i" "i \<le> 31" "probe_name_in_map m n = Some (i, Some l)"
    "l = 3176 \<or> (n, l) \<in> set es"
    and others: "\<And>n'. n' \<noteq> n \<Longrightarrow>
      probe_name_in_map m n' = probe_name_in_map (secure_storage_map s) n'"
    using sst_map.enter_then_lookup [OF rep n(2,1), of 3176] by (auto simp: len_wf_def)
  have "\<forall>e \<in> set ?es. snd e = 3176"
    using l3 by (auto simp: fill_entries_def split: option.splits)
  from object_write_item [OF s w len m(1-4) this] obtain s' obj where
    s': "sunxi_secure_object_write os s n buffer len = Some (0, s')" "opened os s' ?es" "map_dirty s'"
    and obj: "valid_object obj" "unat (actual_len obj) = nat len"
      "take (nat len) (data obj) = take (nat len) buffer"
    and item: "item os s' i = (0, object_bytes obj @ replicate 920 0)"
      "\<And>j. 0 \<le> j \<Longrightarrow> j \<le> 31 \<Longrightarrow> j \<noteq> i \<Longrightarrow> item os s' j = item os s j"
    by blast
  have f: "find_entry ?es n 1 = (i, Some 3176)"
    using m(5,6) l3 by (auto simp: sst_map.lookup_rep [OF m(2)])
  have old: "sunxi_secure_object_read os s' n' out dl = sunxi_secure_object_read os s n' out dl"
    if "n' \<noteq> n" for n' out dl
  proof (rule object_read_same [OF s s'(2)])
    show f': "find_entry ?es n' 1 = find_entry es n' 1"
      using others [OF that] by (simp add: sst_map.lookup_rep [OF rep] sst_map.lookup_rep [OF m(2)])
    fix j
    assume j: "1 \<le> j" "j \<le> 31" "j = fst (find_entry es n' 1)"
    have "n' \<in> fst ` set ?es"
      using f' j(1,3) fst_find_entry_absent [of n' ?es 1] by force
    moreover have "n \<in> fst ` set ?es"
      using f m(3) fst_find_entry_absent [of n ?es 1] by force
    ultimately have "j \<noteq> i"
      using find_entry_inj [OF _ _ that, of ?es 1] f f' j(3) by simp
    then show "item os s' j = item os s j"
      using item(2) j by simp
  qed
  show ?thesis
    using s' old object_read_written [OF s'(2) f m(3) item(1) obj len(1,2)]
    by (intro exI [of _ s']) simp
qed

text \<open>
  The prefix comparison of \<open>__fill_name_in_map\<close>: an item whose name extends a stored name takes that
  name's item and gets no entry.
\<close>

lemma find_prefix_range:
  "find_prefix es n i = Some k \<Longrightarrow> i \<le> k \<and> k < i + int (length es)"
  by (induction es n i rule: find_prefix.induct) (fastforce split: if_splits)+

lemma object_write_shadowed:
  assumes s: "opened os s es" and n: "name_wf n" "n \<notin> fst ` set es" "find_prefix es n 1 = Some i"
    and len: "0 \<le> len" "len \<le> 3072" "nat len \<le> length buffer"
    and w: "write_protected os s n = Some False"
    and k: "find_entry es k 1 = (i, Some 3176)"
  shows "\<exists>s'. sunxi_secure_object_write os s n buffer len = Some (0, s') \<and> opened os s' es \<and>
    (\<forall>out dl. nat len \<le> length out \<longrightarrow>
       sunxi_secure_object_read os s' k out dl = Some (0, overlay out (take (nat len) buffer), len))"
proof -
  have rep: "map_rep (secure_storage_map s) es" and l3: "\<forall>e \<in> set es. snd e = 3176"
    using s by (simp_all add: opened_def)
  have f: "fill_entries es n 3176 = (i, es)"
    using n(3) by (simp add: fill_entries_def)
  have i: "1 \<le> i" "i \<le> 31"
    using find_prefix_range [OF n(3)] sst_map.rep_bound [OF rep] by simp_all
  obtain m where m: "fill_name_in_map (secure_storage_map s) n 3176 = Some (i, m)" "map_rep m es"
    using sst_map.enter_rep [OF rep n(1), of 3176] f by (auto simp: len_wf_def)
  from object_write_item [OF s w len m i l3] obtain s' obj where
    s': "sunxi_secure_object_write os s n buffer len = Some (0, s')" "opened os s' es"
    and obj: "valid_object obj" "unat (actual_len obj) = nat len"
      "take (nat len) (data obj) = take (nat len) buffer"
    and item: "item os s' i = (0, object_bytes obj @ replicate 920 0)"
    by blast
  show ?thesis
    using s' object_read_written [OF s'(2) k i(1) item obj len(1,2)] by (intro exI [of _ s']) simp
qed

section \<open>Lemmas: closing and opening\<close>

lemma seal_map:
  assumes "length m = 4096"
  shows "length (seal_map m) = 4096" "take 4088 (seal_map m) = take 4088 m"
    and "check_secure_storage_map (seal_map m) = 0"
proof -
  show "length (seal_map m) = 4096" "take 4088 (seal_map m) = take 4088 m"
    using assms by (simp_all add: seal_map_def)
  show "check_secure_storage_map (seal_map m) = 0"
    using assms
    by (simp add: seal_map_def check_secure_storage_map_def map_magic_def map_crc_def SEC_BLK_SIZE_def
        Let_def)
qed

lemma map_rep_seal: "map_rep m es \<Longrightarrow> map_rep (usable_map (seal_map m)) es"
  using seal_map [of m] by (simp add: map_rep_def usable_map_def SEC_BLK_SIZE_def)

lemma map_rep_length: "map_rep m es \<Longrightarrow> length m = 4096"
  by (simp add: map_rep_def SEC_BLK_SIZE_def)

lemma boot_booted: "booted os s \<Longrightarrow> boot os s = s"
  by (simp add: booted_def boot_def is_use_sst_ctl_def)

lemma boot_frame [simp]:
  "flash (boot os s) = flash s" "secure_storage_map (boot os s) = secure_storage_map s"
  "sec_mutex (boot os s) = sec_mutex s" "map_dirty (boot os s) = map_dirty s"
  "secure_storage_inited (boot os s) = secure_storage_inited s"
  by (simp_all add: boot_def is_use_sst_ctl_def)

lemma booted_frame [simp]:
  "booted os (s\<lparr>secure_storage_map := m\<rparr>) = booted os s"
  "booted os (s\<lparr>secure_storage_inited := b\<rparr>) = booted os s"
  "booted os (s\<lparr>map_dirty := b\<rparr>) = booted os s"
  "booted os (s\<lparr>sec_mutex := b\<rparr>) = booted os s"
  by (simp_all add: booted_def)

lemma disk_map_frame [simp]:
  "disk_map os (s\<lparr>secure_storage_map := m\<rparr>) = disk_map os s"
  "disk_map os (s\<lparr>secure_storage_inited := b\<rparr>) = disk_map os s"
  "disk_map os (s\<lparr>map_dirty := b\<rparr>) = disk_map os s"
  "disk_map os (s\<lparr>sec_mutex := b\<rparr>) = disk_map os s"
  by (simp_all add: fun_eq_iff disk_map_def)

lemma item_frame [simp]:
  "item os (s\<lparr>secure_storage_map := m\<rparr>) = item os s"
  "item os (s\<lparr>secure_storage_inited := b\<rparr>) = item os s"
  "item os (s\<lparr>map_dirty := b\<rparr>) = item os s"
  "item os (s\<lparr>sec_mutex := b\<rparr>) = item os s"
  by (simp_all add: fun_eq_iff item_def)

lemma init_stored:
  assumes "stored os s es"
  shows "\<exists>s'. sunxi_secure_storage_init os s = Some (0, s') \<and> opened os s' es \<and> \<not> map_dirty s' \<and>
    item os s' = item os (boot os s)"
proof -
  from assms obtain r m where rm: "r \<noteq> -1" "map_rep (usable_map m) es"
    "nv_read os (boot os s) 0 (secure_storage_map s) SEC_BLK_SIZE = (r, m)"
    by (auto simp: stored_def disk_map_def)
  let ?s = "(boot os s)\<lparr>sec_mutex := True, secure_storage_map := usable_map m, secure_storage_inited := True\<rparr>"
  obtain t where t: "get_flash_type os = Some t"
    using assms by (auto simp: stored_def booted_def)
  have b: "is_use_sst_ctl os (s\<lparr>sec_mutex := True, flash_boot_type := t\<rparr>) =
      (boot os s)\<lparr>sec_mutex := True\<rparr>"
    using t by (simp add: boot_def is_use_sst_ctl_def)
  have "sunxi_secure_storage_init os s = Some (0, ?s)"
    using assms t rm(1,3) by (simp add: sunxi_secure_storage_init_def stored_def b sunxi_secstorage_read_def)
  moreover have "opened os ?s es" "\<not> map_dirty ?s" "item os ?s = item os (boot os s)"
    using assms rm(2) by (simp_all add: opened_def stored_def)
  ultimately show ?thesis by blast
qed

lemma exit_opened:
  assumes "opened os s es"
  shows "\<exists>s'. sunxi_secure_storage_exit os s mode = (0, s') \<and> stored os s' es \<and>
    (\<forall>j. 1 \<le> j \<and> j \<le> 31 \<longrightarrow> item os (boot os s') j = item os s j)"
proof -
  have o: "secure_storage_inited s" "os_wf os" "booted os s" "medium_ok os s"
    "map_rep (secure_storage_map s) es" "\<forall>e \<in> set es. snd e = 3176"
    using assms by (simp_all add: opened_def booted_def)
  have len: "length (secure_storage_map s) = 4096"
    using map_rep_length [OF o(5)] .
  have fresh: "length (os_fresh os 4096) = 4096"
    using o(2) by (simp add: os_wf_def SEC_BLK_SIZE_def)
  show ?thesis
  proof (cases "mode \<noteq> 0 \<or> map_dirty s")
    case False
    let ?s = "s\<lparr>secure_storage_inited := False, map_dirty := False, sec_mutex := False\<rparr>"
    have "sunxi_secure_storage_exit os s mode = (0, ?s)"
      using False o(1) by (simp add: sunxi_secure_storage_exit_def)
    moreover have b: "boot os ?s = ?s"
      using o(3) by (intro boot_booted) simp
    moreover have "stored os ?s es"
      using assms False len unfolding stored_def b by (simp add: opened_def SEC_BLK_SIZE_def)
    ultimately show ?thesis
      by (intro exI [of _ ?s]) (simp add: item_def)
  next
    case True
    let ?m = "seal_map (secure_storage_map s)" and ?s0 = "s\<lparr>secure_storage_map := seal_map (secure_storage_map s)\<rparr>"
    note m = seal_map [OF len]
    obtain s1 where s1: "nv_write os ?s0 0 ?m 4096 = (0, s1)" "medium_ok os s1"
      using nv.set_ok [of os ?s0 0 ?m] o(4) m by auto
    let ?s = "s1\<lparr>secure_storage_inited := False, map_dirty := False, sec_mutex := False\<rparr>"
    have f: "secure_storage_map s1 = ?m" "sst_use_ioctl s1 = sst_use_ioctl s"
      "flash_boot_type s1 = flash_boot_type s"
      using nv_write_frame [OF s1(1)] by simp_all
    have "sunxi_secure_storage_exit os s mode = (0, ?s)"
      using True o(1) s1(1)
      by (auto simp: sunxi_secure_storage_exit_def sunxi_secstorage_write_def SEC_BLK_SIZE_def)
    moreover have b: "boot os ?s = ?s"
      using o(3) s1(2) f by (intro boot_booted) (simp add: booted_def)
    moreover have acc: "readable 0 ?m"
      using m(3) by (simp add: readable_def)
    moreover have "nv_read os s1 0 buf 4096 = (0, ?m)" if "length buf = 4096" for buf
      using nv.get_same [OF _ _ _ m(1) that acc s1(1)] o(4) by simp
    then have "disk_map os ?s es"
      using map_rep_seal [OF o(5)] unfolding disk_map_def
      by (intro exI [of _ 0] exI [of _ ?m]) (simp add: SEC_BLK_SIZE_def)
    then have "stored os ?s es"
      using o s1(2) f m(1) unfolding stored_def b by (simp add: booted_def SEC_BLK_SIZE_def)
    moreover have "item os ?s j = item os s j" if "1 \<le> j" "j \<le> 31" for j
      using nv.get_other [OF _ _ _ m(1) fresh _ _ _ s1(1), where j = j] o(4) that
      by (simp add: item_def SEC_BLK_SIZE_def)
    ultimately show ?thesis
      by (intro exI [of _ ?s]) simp
  qed
qed

lemma support_stored:
  assumes "stored os s es"
  shows "\<exists>s'. secure_storage_support os s = Some (0, s') \<and> stored os s' es \<and>
    (\<forall>j. 1 \<le> j \<and> j \<le> 31 \<longrightarrow> item os (boot os s') j = item os (boot os s) j)"
proof -
  obtain s1 where s1: "sunxi_secure_storage_init os s = Some (0, s1)" "opened os s1 es"
    "item os s1 = item os (boot os s)"
    using init_stored [OF assms] by blast
  obtain s2 where "sunxi_secure_storage_exit os s1 0 = (0, s2)" "stored os s2 es"
    "\<And>j. 1 \<le> j \<Longrightarrow> j \<le> 31 \<Longrightarrow> item os (boot os s2) j = item os s1 j"
    using exit_opened [OF s1(2)] by blast
  then show ?thesis
    using s1 by (simp add: secure_storage_support_def)
qed

text \<open>What \<open>secure_data_read\<close> does in a closed storage is determined by the first opening.\<close>

definition first_read ::
    "'k os \<Rightarrow> 'k sst \<Rightarrow> cstr \<Rightarrow> byte list \<Rightarrow> int \<Rightarrow> (int \<times> byte list \<times> int) option" where
  "first_read os s n out dl = do {
     (_, s) \<leftarrow> sunxi_secure_storage_init os s;
     sunxi_secure_object_read os s n out dl
   }"

lemma first_read_same:
  assumes "stored os s es" "stored os s' es'" "find_entry es' n 1 = find_entry es n 1"
    and "\<And>j. 1 \<le> j \<Longrightarrow> j \<le> 31 \<Longrightarrow> j = fst (find_entry es n 1) \<Longrightarrow>
      item os (boot os s') j = item os (boot os s) j"
  shows "first_read os s' n out dl = first_read os s n out dl"
proof -
  obtain t where t: "sunxi_secure_storage_init os s = Some (0, t)" "opened os t es"
    "item os t = item os (boot os s)"
    using init_stored [OF assms(1)] by blast
  obtain t' where t': "sunxi_secure_storage_init os s' = Some (0, t')" "opened os t' es'"
    "item os t' = item os (boot os s')"
    using init_stored [OF assms(2)] by blast
  show ?thesis
    using t(1) t'(1) object_read_same [OF t(2) t'(2) assms(3)] assms(4) t(3) t'(3)
    by (simp add: first_read_def)
qed

lemma data_read_stored:
  assumes "stored os s es" "first_read os s n out dl = Some (r, b, l)"
  shows "\<exists>s'. secure_data_read os s n out dl = Some (0, b, l, s') \<and> stored os s' es \<and>
    first_read os s' = first_read os s"
proof -
  obtain s1 where s1: "secure_storage_support os s = Some (0, s1)" "stored os s1 es"
    "\<And>j. 1 \<le> j \<Longrightarrow> j \<le> 31 \<Longrightarrow> item os (boot os s1) j = item os (boot os s) j"
    using support_stored [OF assms(1)] by blast
  obtain s2 where s2: "sunxi_secure_storage_init os s1 = Some (0, s2)" "opened os s2 es"
    "item os s2 = item os (boot os s1)"
    using init_stored [OF s1(2)] by blast
  have "first_read os s1 n out dl = Some (r, b, l)"
    using first_read_same [OF assms(1) s1(2)] s1(3) assms(2) by simp
  then have r: "sunxi_secure_object_read os s2 n out dl = Some (r, b, l)"
    using s2(1) by (simp add: first_read_def)
  obtain s3 where s3: "sunxi_secure_storage_exit os s2 0 = (0, s3)" "stored os s3 es"
    "\<And>j. 1 \<le> j \<Longrightarrow> j \<le> 31 \<Longrightarrow> item os (boot os s3) j = item os s2 j"
    using exit_opened [OF s2(2)] by blast
  have "first_read os s3 = first_read os s"
  proof (intro ext)
    show "first_read os s3 n out dl = first_read os s n out dl" for n out dl
      using first_read_same [OF assms(1) s3(2)] s1(3) s2(3) s3(3) by simp
  qed
  then show ?thesis
    using s1(1) s2(1) r s3(1,2) by (simp add: secure_data_read_def)
qed

lemma data_write_stored:
  assumes s: "stored os s es" and n: "name_wf n" "room_for es n"
    and len: "0 \<le> len" "len \<le> 3072" and bs: "strncpy_from buffer (nat len) = Some bs"
    and w: "\<And>t. opened os t es \<Longrightarrow> write_protected os t n = Some False"
  shows "\<exists>s'. secure_data_write os s (Some n) (Some buffer) len = Some (0, s') \<and>
    stored os s' (snd (fill_entries es n 3176)) \<and>
    (\<forall>out dl. nat len \<le> length out \<longrightarrow> first_read os s' n out dl = Some (0, overlay out bs, len)) \<and>
    (\<forall>n' out dl. n' \<noteq> n \<longrightarrow> first_read os s' n' out dl = first_read os s n' out dl)"
proof -
  let ?es = "snd (fill_entries es n 3176)" and ?b = "overlay (replicate SEC_BLK_SIZE 0) bs"
  have lb: "length bs = nat len"
    using bs by (auto simp: strncpy_from_def split: if_splits)
  have nl: "nat len \<le> 3072"
    using len(2) by (simp only: nat_le_iff)
  then have b: "length ?b = 4096" "take (nat len) ?b = bs"
    using lb by (simp_all add: overlay_def SEC_BLK_SIZE_def)
  obtain s1 where s1: "secure_storage_support os s = Some (0, s1)" "stored os s1 es"
    "\<And>j. 1 \<le> j \<Longrightarrow> j \<le> 31 \<Longrightarrow> item os (boot os s1) j = item os (boot os s) j"
    using support_stored [OF s] by blast
  obtain s2 where s2: "sunxi_secure_storage_init os s1 = Some (0, s2)" "opened os s2 es"
    "item os s2 = item os (boot os s1)"
    using init_stored [OF s1(2)] by blast
  have "nat len \<le> length ?b"
    using nl b(1) by linarith
  from object_write_opened [OF s2(2) n len this w [OF s2(2)]]
  obtain s3 where s3: "sunxi_secure_object_write os s2 n ?b len = Some (0, s3)" "opened os s3 ?es"
    "\<And>out dl. nat len \<le> length out \<Longrightarrow>
       sunxi_secure_object_read os s3 n out dl = Some (0, overlay out bs, len)"
    "\<And>n' out dl. n' \<noteq> n \<Longrightarrow>
       sunxi_secure_object_read os s3 n' out dl = sunxi_secure_object_read os s2 n' out dl"
    unfolding b(2) by blast
  obtain s4 where s4: "sunxi_secure_storage_exit os s3 0 = (0, s4)" "stored os s4 ?es"
    "\<And>j. 1 \<le> j \<Longrightarrow> j \<le> 31 \<Longrightarrow> item os (boot os s4) j = item os s3 j"
    using exit_opened [OF s3(2)] by blast
  obtain s5 where s5: "sunxi_secure_storage_init os s4 = Some (0, s5)" "opened os s5 ?es"
    "item os s5 = item os (boot os s4)"
    using init_stored [OF s4(2)] by blast
  have r: "first_read os s4 n' out dl = sunxi_secure_object_read os s3 n' out dl" for n' out dl
    using s5(1) object_read_same [OF s3(2) s5(2)] s4(3) s5(3) by (simp add: first_read_def)
  have "sunxi_secure_object_read os s2 n' out dl = first_read os s n' out dl" for n' out dl
    using s2(1) first_read_same [OF s s1(2)] s1(3) by (simp add: first_read_def)
  then show ?thesis
    using s1(1) s2(1) s3 s4(1,2) r lb bs len b
    by (simp add: secure_data_write_def SEC_BLK_SIZE_def)
qed

end
