(* ===== verification/Keybox_Laws.thy ===== *)
theory Keybox_Laws
  imports Secure_Storage
begin

text \<open>
  Further facts on the operations of \<open>Secure_Storage\<close>: which of them keep, take or give back the
  mutex whatever the system calls do, what listing and erasing do to the entries, and an operating
  system and storage on which all hypotheses of this library hold.
\<close>

section \<open>The mutex\<close>

lemma init_mutex:
  "ensures (sunxi_secure_storage_init os s) (\<lambda>(r, s').
     \<not> sec_mutex s \<and> (if r = 0 then sec_mutex s' \<and> secure_storage_inited s' else r = -1 \<and> \<not> sec_mutex s'))"
  by (rule ensuresI) (auto simp: sunxi_secure_storage_init_def Let_def is_use_sst_ctl_def
      split: if_splits option.splits prod.splits)

lemma exit_mutex [simp]:
  "secure_storage_inited s \<Longrightarrow> \<not> sec_mutex (snd (sunxi_secure_storage_exit os s mode))"
  by (auto simp: sunxi_secure_storage_exit_def Let_def split: prod.splits)

lemma storage_write_frame:
  "ensures (sunxi_secure_storage_write os s n b len) (\<lambda>(r, s').
     sec_mutex s' = sec_mutex s \<and> secure_storage_inited s' = secure_storage_inited s)"
  by (rule ensuresI) (auto simp: sunxi_secure_storage_write_def sunxi_secstorage_write_def nv_write_def
      Let_def split: if_splits option.splits prod.splits)

lemma object_write_frame:
  "ensures (sunxi_secure_object_write os s n b len) (\<lambda>(r, s').
     sec_mutex s' = sec_mutex s \<and> secure_storage_inited s' = secure_storage_inited s)"
  unfolding sunxi_secure_object_write_def ensures_simps
proof (rule ensures_all, simp add: ensures_simps, rule impI, rule ensures_all)
  fix w
  show "ensures (case w of (ret, secure_object, retLen) \<Rightarrow>
      let retLen = case retLen of None \<Rightarrow> 0 | Some n \<Rightarrow> n
      in if ret < 0 \<or> int SEC_BLK_SIZE < retLen then Some (- 1, s)
         else sunxi_secure_storage_write os s n secure_object retLen)
    (\<lambda>(r, s'). sec_mutex s' = sec_mutex s \<and> secure_storage_inited s' = secure_storage_inited s)"
    by (cases w) (simp add: Let_def ensures_simps storage_write_frame)
qed

lemma support_mutex: "ensures (secure_storage_support os s) (\<lambda>(r, s'). \<not> sec_mutex s')"
  unfolding secure_storage_support_def ensures_simps
  by (rule ensures_conseq [OF init_mutex]) (auto simp: ensures_simps split: if_splits)

lemma session_mutex:
  fixes os :: "'k os"
  assumes "\<And>s2. secure_storage_inited s2 \<Longrightarrow>
    ensures (f s2) (\<lambda>x. \<not> sec_mutex (P x))" and "\<And>s2. P (g s2) = s2"
  shows "ensures (sunxi_secure_storage_init os s1 \<bind> (\<lambda>(r, s). if r < 0 then Some (g s) else f s))
    (\<lambda>x. \<not> sec_mutex (P x :: 'k sst))"
  unfolding ensures_simps
  by (rule ensures_conseq [OF init_mutex])
    (auto simp: ensures_simps case_prod_beta assms split: if_splits)

lemma data_write_mutex:
  assumes "\<not> sec_mutex s"
  shows "ensures (secure_data_write os s n b len) (\<lambda>x. \<not> sec_mutex (snd x))"
proof -
  have w: "ensures (sunxi_secure_object_write os s2 n' bak len \<bind> (\<lambda>(ret, s).
        let (ret', s) = sunxi_secure_storage_exit os s 0
        in Some (if ret < 0 then -1 else if ret' < 0 then -1 else 0, s))) (\<lambda>x. \<not> sec_mutex (snd x))"
    if "secure_storage_inited s2" for s2 n' bak
    unfolding ensures_simps
    by (rule ensures_conseq [OF object_write_frame])
      (use that in \<open>auto simp: ensures_simps Let_def case_prod_beta\<close>)
  have session: "ensures (sunxi_secure_storage_init os s1 \<bind> (\<lambda>(ret, s). if ret < 0 then Some (-1, s)
      else sunxi_secure_object_write os s n' bak len \<bind> (\<lambda>(ret, s).
        let (ret', s) = sunxi_secure_storage_exit os s 0
        in Some (if ret < 0 then -1 else if ret' < 0 then -1 else 0, s)))) (\<lambda>x. \<not> sec_mutex (snd x))"
    for s1 n' bak
    by (rule session_mutex) (rule w, assumption, simp)
  show ?thesis
  proof (cases "\<exists>n' b'. n = Some n' \<and> b = Some b'")
    case True
    then obtain n' b' where nb: "n = Some n'" "b = Some b'" by blast
    have "ensures (secure_storage_support os s \<bind> (\<lambda>(ret, s). if ret \<noteq> 0 then Some (0, s)
        else sunxi_secure_storage_init os s \<bind> (\<lambda>(ret, s). if ret < 0 then Some (-1, s)
          else sunxi_secure_object_write os s n' bak len \<bind> (\<lambda>(ret, s).
            let (ret', s) = sunxi_secure_storage_exit os s 0
            in Some (if ret < 0 then -1 else if ret' < 0 then -1 else 0, s)))))
        (\<lambda>x. \<not> sec_mutex (snd x))" for bak
      unfolding ensures_bind [of "secure_storage_support os s"]
      by (rule ensures_conseq [OF support_mutex])
        (auto simp: ensures_basic split: if_splits intro: session)
    then show ?thesis
      using assms unfolding secure_data_write_def nb
      by (auto simp: ensures_basic ensures_bind [of "strncpy_from _ _"] Let_def
          intro!: ensures_all [where f = "strncpy_from b' (nat len)"])
  qed (use assms in \<open>auto simp: secure_data_write_def ensures_basic split: option.splits\<close>)
qed

lemma data_read_mutex:
  "ensures (secure_data_read os s n b dl) (\<lambda>x. \<not> sec_mutex (snd (snd (snd x))))"
proof -
  have r: "ensures (sunxi_secure_object_read os s2 n b dl \<bind> (\<lambda>(r, buffer, data_len).
        let (r', s) = sunxi_secure_storage_exit os s2 0
        in Some (if r < 0 then ret else if r' < 0 then ret else 0, buffer, data_len, s)))
      (\<lambda>x. \<not> sec_mutex (snd (snd (snd x))))" if "secure_storage_inited s2" for ret s2
    unfolding ensures_simps
    by (rule ensures_all) (use that in \<open>auto simp: ensures_simps Let_def case_prod_beta\<close>)
  have session: "ensures (sunxi_secure_storage_init os s1 \<bind> (\<lambda>(r, s). if r < 0 then Some (ret, b, dl, s)
      else sunxi_secure_object_read os s n b dl \<bind> (\<lambda>(r, buffer, data_len).
        let (r', s) = sunxi_secure_storage_exit os s 0
        in Some (if r < 0 then ret else if r' < 0 then ret else 0, buffer, data_len, s))))
      (\<lambda>x. \<not> sec_mutex (snd (snd (snd x))))" for s1 ret
    by (rule session_mutex) (rule r, assumption, simp)
  show ?thesis
    unfolding secure_data_read_def ensures_bind [of "secure_storage_support os s"]
    by (rule ensures_conseq [OF support_mutex])
      (use session [of _ 0] in \<open>auto simp: ensures_basic split: if_splits\<close>)
qed

section \<open>Erasing, listing, missing items\<close>

lemma map_rep_empty: "map_rep empty_map []"
  by (simp add: map_rep_def SEC_BLK_SIZE_def)

lemma erase_stored:
  assumes "stored os s es"
  shows "\<exists>s'. sunxi_secure_object_erase os s = Some (0, s') \<and> stored os s' []"
proof -
  obtain s1 where s1: "sunxi_secure_storage_init os s = Some (0, s1)" "opened os s1 es"
    using init_stored [OF assms] by blast
  have "opened os (s1\<lparr>secure_storage_map := empty_map, map_dirty := True\<rparr>) []"
    using s1(2) map_rep_empty by (simp add: opened_def)
  then obtain s2 where "sunxi_secure_storage_exit os (s1\<lparr>secure_storage_map := empty_map, map_dirty := True\<rparr>) 0 = (0, s2)"
    "stored os s2 []"
    using exit_opened by blast
  then show ?thesis
    using s1(1) by (simp add: sunxi_secure_object_erase_def)
qed

lemma probe_missing:
  "opened os s es \<Longrightarrow> n \<notin> fst ` set es \<Longrightarrow>
   probe_name_in_map (secure_storage_map s) n = Some (-1, None)"
  using probe_refines [of "secure_storage_map s" es n]
  by (simp add: opened_def fst_find_entry_absent)

lemma object_read_missing:
  "opened os s es \<Longrightarrow> n \<notin> fst ` set es \<Longrightarrow>
   sunxi_secure_object_read os s n out dl = Some (-1, out, dl)"
  by (simp add: sunxi_secure_object_read_def sunxi_secure_storage_read_def probe_missing)

lemma write_protected_new:
  "opened os s es \<Longrightarrow> n \<notin> fst ` set es \<Longrightarrow> write_protected os s n = Some False"
  by (simp add: write_protected_def sunxi_secure_storage_probe_def probe_missing)

lemma first_read_missing:
  assumes "stored os s es" "n \<notin> fst ` set es"
  shows "first_read os s n out dl = Some (-1, out, dl)"
  using init_stored [OF assms(1)] object_read_missing [OF _ assms(2)] by (auto simp: first_read_def)

text \<open>What \<open>sunxi_secure_object_list\<close> prints for the entries, numbered from \<open>i\<close>.\<close>

fun listing :: "(cstr \<Rightarrow> cstr) \<Rightarrow> entries \<Rightarrow> int \<Rightarrow> (int \<times> cstr \<times> cstr) list" where
  "listing v [] i = []"
| "listing v (e # es) i = (i, fst e, v (fst e)) # listing v es (i + 1)"

lemma list_from_encode:
  assumes "list_all entry_wf es" "length pre + length (encode es) < SEC_BLK_SIZE"
    and m: "secure_storage_map s = pre @ encode es @ 0 # r"
    and v: "\<And>e. e \<in> set es \<Longrightarrow> \<exists>b l. sunxi_secure_object_read os s (fst e) (replicate SEC_BLK_SIZE 0) 0 =
      Some (0, b, l) \<and> takeWhile (\<lambda>c. c \<noteq> 0) b = v (fst e)"
  shows "list_from os s (length pre) i = Some (True, listing v es i)"
  using assms(1,2) m v
proof (induction es arbitrary: pre i)
  case Nil
  then show ?case
    by (subst list_from.simps) (simp add: rd_def nth_append)
next
  case (Cons e es)
  then have e: "entry_wf e" and es: "list_all entry_wf es" by simp_all
  have "list_from os s (length (pre @ encode_entry e)) (i + 1) = Some (True, listing v es (i + 1))"
    using Cons.prems es by (intro Cons.IH) simp_all
  moreover obtain c where "rd (secure_storage_map s) (length pre) = Some c" "c \<noteq> 0"
    using rd_encode_entry [OF e] Cons.prems(3) by auto
  moreover obtain b l where "sunxi_secure_object_read os s (fst e) (replicate SEC_BLK_SIZE 0) 0 = Some (0, b, l)"
    "takeWhile (\<lambda>c. c \<noteq> 0) b = v (fst e)"
    using Cons.prems(4) [of e] by auto
  moreover obtain k where "length (encode_entry e) = Suc k"
    by (simp add: length_encode_entry)
  ultimately show ?case
    using parse_entry_encode [OF e, of pre "encode es @ 0 # r"] Cons.prems(2,3)
      strlen_at_encode [OF e, of pre "encode es @ 0 # r"]
    by (subst list_from.simps) (simp add: algebra_simps)
qed

lemma list_opened:
  assumes s: "stored os s es"
    and v: "\<And>e. e \<in> set es \<Longrightarrow> \<exists>b l. first_read os s (fst e) (replicate SEC_BLK_SIZE 0) 0 = Some (0, b, l) \<and>
      takeWhile (\<lambda>c. c \<noteq> 0) b = v (fst e)"
  shows "\<exists>s'. sunxi_secure_object_list os s = Some (0, listing v es 1, s') \<and> stored os s' es"
proof -
  obtain s1 where s1: "sunxi_secure_storage_init os s = Some (0, s1)" "opened os s1 es"
    using init_stored [OF s] by blast
  then have rep: "map_rep (secure_storage_map s1) es"
    by (simp add: opened_def)
  obtain r where "secure_storage_map s1 = [] @ encode es @ 0 # r"
    using map_rep_tail [OF rep] by blast
  then have "list_from os s1 (length ([] :: byte list)) 1 = Some (True, listing v es 1)"
    using rep map_rep_space [OF rep] v s1(1)
    by (intro list_from_encode [where r = r]) (auto simp: map_rep_def SEC_BLK_SIZE_def first_read_def)
  moreover obtain s2 where "sunxi_secure_storage_exit os s1 0 = (0, s2)" "stored os s2 es"
    using exit_opened [OF s1(2)] by blast
  ultimately show ?thesis
    using s1(1) by (simp add: sunxi_secure_object_list_def)
qed

section \<open>A system on which the hypotheses hold\<close>

definition demo_os :: "unit os" where
  "demo_os =
     \<lparr>os_malloc = (\<lambda>_. True), os_fresh = (\<lambda>n. replicate n 0), os_access = (\<lambda>_. False),
      os_open = (\<lambda>_. True), os_cmdline = Some (words_line [(bytes_of ''boot_type'', bytes_of ''1'')]),
      os_lseek = (\<lambda>_. True), os_read = (\<lambda>_ n. int n), os_write = (\<lambda>_ n. int n),
      os_secblk_read = (\<lambda>_ _ _. (-1, [])), os_secblk_write = (\<lambda>_ _ _ _. (-1, ())),
      os_sst_read = (\<lambda>_ _. (-1, [])), os_sst_write = (\<lambda>_ _ _. (-1, ()))\<rparr>"

definition demo_sst :: "unit sst" where
  "demo_sst =
     \<lparr>secure_storage_map = empty_map, secure_storage_inited = False, map_dirty = False,
      sst_use_ioctl = False, flash_boot_type = -1, sec_mutex = False,
      flash = \<lparr>sd_bytes = (\<lambda>_. 0), drv = ()\<rparr>\<rparr>"

lemma demo_os_sel [simp]:
  "os_malloc demo_os n = True" "os_fresh demo_os n = replicate n 0" "os_access demo_os p = False"
  "os_open demo_os p = True" "os_lseek demo_os off = True" "os_read demo_os off n = int n"
  "os_write demo_os off n = int n"
  "os_cmdline demo_os = Some (words_line [(bytes_of ''boot_type'', bytes_of ''1'')])"
  by (simp_all add: demo_os_def)

lemma demo_sst_sel [simp]:
  "secure_storage_map demo_sst = empty_map" "secure_storage_inited demo_sst = False"
  "map_dirty demo_sst = False" "sst_use_ioctl demo_sst = False" "sec_mutex demo_sst = False"
  "flash demo_sst = \<lparr>sd_bytes = (\<lambda>_. 0), drv = ()\<rparr>"
  by (simp_all add: demo_sst_def)

lemma atol_1: "atol [49] = 1"
  using atol_dec_of_int [of 1] by (simp add: dec_of_int_def dec_of_nat.simps)

lemma demo_flash_type: "get_flash_type demo_os = Some 1"
proof -
  let ?ws = "[(bytes_of ''boot_type'', bytes_of ''1'')]"
  have f: "find_key (words_line ?ws) (bytes_of ''boot_type'') = Some (Some (bytes_of ''1''))"
    by (subst find_key_words) (simp_all add: word_wf_def bytes_of_def)
  have l: "fgets_line 1024 (words_line ?ws) = words_line ?ws"
    by (simp add: fgets_line_def bytes_of_def)
  have "dropWhile (\<lambda>c. c = SPACE) (words_line ?ws) \<noteq> []"
    by (simp add: bytes_of_def)
  then have "getInfoFromCmdline demo_os (bytes_of ''boot_type'') 10 = Some (0, Some (strncpy_bytes (bytes_of ''1'') 10))"
    using f l by (simp add: getInfoFromCmdline_def del: words_line.simps)
  moreover have "takeWhile (\<lambda>c. c \<noteq> 0) (strncpy_bytes (bytes_of ''1'') 10) = [49]"
    by (simp add: strncpy_bytes_def bytes_of_def takeWhile_replicate)
  ultimately show ?thesis
    by (simp add: get_flash_type_def atol_1 flash_types)
qed

lemma demo_stored: "stored demo_os demo_sst []"
proof -
  let ?s = "boot demo_os demo_sst"
  have b: "?s = demo_sst\<lparr>flash_boot_type := 1\<rparr>"
    by (simp add: boot_def demo_flash_type is_use_sst_ctl_def)
  have r: "sd_reliable demo_os" "os_malloc demo_os 4096" "length (os_fresh demo_os 4096) = 4096"
    by (simp_all add: sd_reliable_def)
  have p: "pread (flash ?s) off 4096 = replicate 4096 0" for off
    by (simp add: b pread_def map_replicate_const)
  have c: "check_secure_storage_map (replicate 4096 0) = 2"
    by (simp add: check_secure_storage_map_def map_magic_def STORE_OBJECT_MAGIC_def)
  have "nv_read demo_os ?s 0 buf 4096 = (0, replicate 4096 0)" if "length buf = 4096" for buf
    using sd_read_map_reliable [OF r(1,2) _ _ that r(3), of ?s 0] p c
    by (simp add: nv_read_def b flash_types)
  moreover have "usable_map (replicate 4096 0) = empty_map"
    by (simp add: usable_map_def c SEC_BLK_SIZE_def)
  ultimately have "disk_map demo_os ?s []"
    unfolding disk_map_def using map_rep_empty
    by (intro exI [of _ 0] exI [of _ "replicate 4096 0"]) (simp add: SEC_BLK_SIZE_def)
  moreover have "booted demo_os ?s"
    using r demo_flash_type
    by (simp add: booted_def b medium_ok_def flash_types SEC_BLK_SIZE_def)
  ultimately show ?thesis
    by (simp add: stored_def os_wf_def)
qed

end
