(* ===== verification/Keybox_Cli.thy ===== *)
theory Keybox_Cli
  imports Keybox_Laws
begin

text \<open>
  The programs on top of the keybox library: \<open>keybox_na.c\<close>, which has the trusted environment encrypt
  a key file and stores the result, and \<open>libkeybox/main.c\<close> with the self-test of \<open>test.c\<close>.
  The GlobalPlatform TEE client calls are not part of the sources; their results are the
  record \<open>tee\<close>. \<open>getopt\<close> is represented by the list of options it returns.
\<close>

section \<open>keybox_na.c\<close>

definition TEEC_SUCCESS :: u32 where "TEEC_SUCCESS = 0"
definition SUNXI_SECURE_STORTAGE_INFO_HEAD_LEN :: u32 where
  "SUNXI_SECURE_STORTAGE_INFO_HEAD_LEN = 64 + 4 + 4 + 4"

record tee =
  tee_initialize :: u32
  tee_open_session :: u32
  tee_allocate :: bool
  tee_get_dm_crypt_key :: "u32 \<times> byte list"
  tee_sec_object_down :: "byte list \<Rightarrow> u32 \<times> byte list"

record sunxi_secure_storage_info_t =
  info_name :: "byte list"
  info_len :: u32
  info_encrypted :: u32
  info_write_protect :: u32
  info_key_data :: "byte list"

definition info_bytes :: "sunxi_secure_storage_info_t \<Rightarrow> byte list" where
  "info_bytes i =
     info_name i @ le32 (info_len i) @ le32 (info_encrypted i) @ le32 (info_write_protect i) @
     info_key_data i"

definition info_of :: "byte list \<Rightarrow> sunxi_secure_storage_info_t" where
  "info_of b =
     \<lparr>info_name = take 64 b, info_len = of_le32 (drop 64 b), info_encrypted = of_le32 (drop 68 b),
      info_write_protect = of_le32 (drop 72 b), info_key_data = take 4020 (drop 76 b)\<rparr>"

text \<open>The result and the key printed.\<close>

definition get_dm_crypt_key :: "tee \<Rightarrow> u32 \<times> byte list" where
  "get_dm_crypt_key t =
     (if tee_initialize t \<noteq> TEEC_SUCCESS then (tee_initialize t, [])
      else if tee_open_session t \<noteq> TEEC_SUCCESS then (tee_open_session t, [])
      else let (teecErr, key) = tee_get_dm_crypt_key t
           in (teecErr, if teecErr = TEEC_SUCCESS then key else []))"

text \<open>The name is the C string at the start of the structure.\<close>

definition secure_object_down ::
    "'k os \<Rightarrow> tee \<Rightarrow> 'k sst \<Rightarrow> byte list \<Rightarrow> (u32 \<times> 'k sst) option" where
  "secure_object_down os t s secure_object =
     (if tee_initialize t \<noteq> TEEC_SUCCESS then Some (tee_initialize t, s)
      else if tee_open_session t \<noteq> TEEC_SUCCESS then Some (tee_open_session t, s)
      else if \<not> tee_allocate t then Some (TEEC_SUCCESS, s)
      else
        let (teecErr, secure_object) = tee_sec_object_down t secure_object
        in do {
          (ret, s) \<leftarrow> sunxi_secure_storage_init os s;
          if ret = 0 \<and> teecErr = TEEC_SUCCESS then do {
            n \<leftarrow> strlen_at secure_object 0;
            (_, s) \<leftarrow> sunxi_secure_object_write os s (take n secure_object) secure_object
              (sint (SUNXI_SECURE_STORTAGE_INFO_HEAD_LEN + info_len (info_of secure_object)));
            Some (teecErr, snd (sunxi_secure_storage_exit os s 0))
          }
          else Some (teecErr, s)
        })"

datatype na_option = Opt_r | Opt_w | Opt_k cstr | Opt_f cstr | Opt_unknown
datatype op_mode = OP_NULL | OP_READ | OP_WRITE

text \<open>\<open>None\<close> where an unknown option ends the program.\<close>

fun na_options ::
    "na_option list \<Rightarrow> op_mode \<times> cstr option \<times> cstr option \<Rightarrow> (op_mode \<times> cstr option \<times> cstr option) option" where
  "na_options [] st = Some st"
| "na_options (opt # opts) (m, key_name, key_file) =
     (case opt of
        Opt_r \<Rightarrow> na_options opts (OP_READ, key_name, key_file)
      | Opt_w \<Rightarrow> na_options opts (OP_WRITE, key_name, key_file)
      | Opt_k arg \<Rightarrow> na_options opts (m, Some arg, key_file)
      | Opt_f arg \<Rightarrow> na_options opts (m, key_name, Some arg)
      | Opt_unknown \<Rightarrow> None)"

text \<open>What \<open>stat\<close>, \<open>open\<close> and \<open>read\<close> answer for the key file.\<close>

record files =
  f_stat :: "cstr \<Rightarrow> nat option"
  f_open :: "cstr \<Rightarrow> bool"
  f_read :: "cstr \<Rightarrow> nat \<Rightarrow> byte list option"

text \<open>
  \<open>main\<close>: the exit code, the key printed and the state. \<open>strcpy\<close> of a key name that does not fit is
  \<open>None\<close>.
\<close>

definition na_main ::
    "'k os \<Rightarrow> tee \<Rightarrow> files \<Rightarrow> 'k sst \<Rightarrow> na_option list \<Rightarrow> (int \<times> byte list \<times> 'k sst) option" where
  "na_main os t fs s opts =
     (case na_options opts (OP_NULL, None, None) of
        None \<Rightarrow> Some (-1, [], s)
      | Some (OP_NULL, _, _) \<Rightarrow> Some (-1, [], s)
      | Some (OP_READ, None, _) \<Rightarrow> Some (-1, [], s)
      | Some (OP_READ, Some key_name, _) \<Rightarrow>
          if key_name = bytes_of ''dm_crypt_key''
          then let (ret, key) = get_dm_crypt_key t in Some (sint ret, key, s)
          else Some (-1, [], s)
      | Some (OP_WRITE, Some key_name, Some key_file) \<Rightarrow>
          (case f_stat fs key_file of
             None \<Rightarrow> Some (-1, [], s)
           | Some st_size \<Rightarrow>
               if 4096 - unat SUNXI_SECURE_STORTAGE_INFO_HEAD_LEN < st_size then Some (-1, [], s)
               else if \<not> f_open fs key_file then Some (-1, [], s)
               else if 64 \<le> length key_name then None
               else case f_read fs key_file st_size of
                   None \<Rightarrow> Some (-1, [], s)
                 | Some bs \<Rightarrow> do {
                     (ret, s) \<leftarrow> secure_object_down os t s (info_bytes
                       \<lparr>info_name = strncpy_bytes key_name 64, info_len = of_nat st_size,
                        info_encrypted = 1, info_write_protect = 0,
                        info_key_data = overlay (replicate 4020 0) bs\<rparr>);
                     Some (sint ret, [], s)
                   })
      | Some (OP_WRITE, _, _) \<Rightarrow> Some (-1, [], s))"

section \<open>test.c\<close>

definition my_key :: "(string \<times> string) list" where
  "my_key =
     [(''SN'', ''BE5G31404000000110''), (''PN'', ''V1GW0101GW0100''),
      (''IMEI'', ''004201000902E5G11404404000000110''), (''TID'', ''010121011000001''),
      (''EMAC'', ''0C:C6:55:04:86:FF''), (''WMAC'', ''0C:C6:55:04:86:9B''),
      (''SN1'', ''BE5G31404000000110''), (''PN1'', ''V1GW0101GW0100''),
      (''IMEI1'', ''004201000902E5G11404404000000110''), (''TID1'', ''010121011000001''),
      (''EMAC1'', ''0C:C6:55:04:86:FF''), (''WMAC1'', ''0C:C6:55:04:86:9B'')]"

text \<open>The loop of \<open>test_sst_init\<close>: whether every write succeeded.\<close>

fun test_writes :: "'k os \<Rightarrow> 'k sst \<Rightarrow> (string \<times> string) list \<Rightarrow> (bool \<times> 'k sst) option" where
  "test_writes os s [] = Some (True, s)"
| "test_writes os s ((n, k) # ks) = do {
     (ret, s) \<leftarrow> sunxi_secure_object_write os s (bytes_of n) (strncpy_bytes (bytes_of k) 128) 128;
     if ret < 0 then Some (False, s) else test_writes os s ks
   }"

definition test_sst_init :: "'k os \<Rightarrow> 'k sst \<Rightarrow> (int \<times> 'k sst) option" where
  "test_sst_init os s = do {
     (ret, s) \<leftarrow> secure_storage_support os s;
     if ret \<noteq> 0 then Some (1, s)
     else do {
       (ret, s) \<leftarrow> sunxi_secure_storage_init os s;
       if ret < 0 then Some (-1, s)
       else do {
         (ok, s) \<leftarrow> test_writes os s my_key;
         if \<not> ok then Some (-1, snd (sunxi_secure_storage_exit os s 0))
         else let (ret, s) = sunxi_secure_storage_exit os s 1 in Some (if ret < 0 then -1 else 0, s)
       }
     }
   }"

text \<open>How the loop of \<open>test_sst_verify\<close> ends; \<open>key_buf\<close> is one buffer for all keys.\<close>

datatype verdict = Verified | Read_failed | Wrong_key

fun test_reads :: "'k os \<Rightarrow> 'k sst \<Rightarrow> byte list \<Rightarrow> (string \<times> string) list \<Rightarrow> verdict option" where
  "test_reads os s key_buf [] = Some Verified"
| "test_reads os s key_buf ((n, k) # ks) = do {
     (ret, key_buf, _) \<leftarrow> sunxi_secure_object_read os s (bytes_of n) key_buf 0;
     if ret < 0 then Some Read_failed
     else if \<not> starts_with key_buf k then Some Wrong_key
     else test_reads os s key_buf ks
   }"

definition test_sst_verify :: "'k os \<Rightarrow> 'k sst \<Rightarrow> (int \<times> 'k sst) option" where
  "test_sst_verify os s = do {
     (ret, s) \<leftarrow> secure_storage_support os s;
     if ret \<noteq> 0 then Some (1, snd (sunxi_secure_storage_exit os s 0))
     else do {
       (ret, s) \<leftarrow> sunxi_secure_storage_init os s;
       if ret < 0 then Some (1, snd (sunxi_secure_storage_exit os s 0))
       else do {
         v \<leftarrow> test_reads os s (replicate 128 0) my_key;
         let s = (if v = Read_failed then snd (sunxi_secure_storage_exit os s 0) else s);
         let s = snd (sunxi_secure_storage_exit os s 0);
         Some (if v = Verified then 0 else 1, s)
       }
     }
   }"

partial_function (option) test_sst_read :: "'k os \<Rightarrow> 'k sst \<Rightarrow> (int \<times> 'k sst) option" where
  "test_sst_read os s =
     test_sst_verify os s \<bind> (\<lambda>(ret, s). if ret \<noteq> 0 then Some (1, s) else test_sst_read os s)"

partial_function (option) test_sst_write :: "'k os \<Rightarrow> 'k sst \<Rightarrow> (int \<times> 'k sst) option" where
  "test_sst_write os s =
     test_sst_init os s \<bind> (\<lambda>(ret, s).
       if ret \<noteq> 0 then Some (1, s)
       else test_sst_verify os s \<bind> (\<lambda>(ret, s).
         if ret \<noteq> 0 then Some (1, s) else test_sst_write os s))"

section \<open>main.c\<close>

text \<open>
  The exit code, the keys printed by \<open>-r\<close> (\<open>None\<close> for a failed read) and \<open>-l\<close>, and the state; \<open>argv\<close>
  without the program's name. A key longer than \<open>buf\<close> overflows it.
\<close>

definition cli_read :: "'k os \<Rightarrow> 'k sst \<Rightarrow> cstr \<Rightarrow> (int \<times> (cstr \<times> cstr option) list \<times> 'k sst) option" where
  "cli_read os s n = do {
     (ret, s) \<leftarrow> secure_storage_support os s;
     if ret \<noteq> 0 then Some (0, [], s)
     else do {
       (ret, s) \<leftarrow> sunxi_secure_storage_init os s;
       if ret \<noteq> 0 then Some (0, [], s)
       else do {
         (ret, buf, _) \<leftarrow> sunxi_secure_object_read os s n (replicate 256 0) 0;
         out \<leftarrow> (if ret < 0 then Some None
                 else if 0 \<in> set buf then Some (Some (takeWhile (\<lambda>c. c \<noteq> 0) buf)) else None);
         let (ret, s) = sunxi_secure_storage_exit os s 0;
         Some (if ret < 0 then -1 else 0, [(n, out)], s)
       }
     }
   }"

definition cli_main :: "'k os \<Rightarrow> 'k sst \<Rightarrow> cstr list \<Rightarrow> (int \<times> (cstr \<times> cstr option) list \<times> 'k sst) option" where
  "cli_main os s argv =
     (case argv of
        [] \<Rightarrow> Some (-1, [], s)
      | opt # args \<Rightarrow>
          if starts_with opt ''-r'' then (case args of [] \<Rightarrow> Some (0, [], s) | n # _ \<Rightarrow> cli_read os s n)
          else if starts_with opt ''-w'' then
            (case args of
               n # v # _ \<Rightarrow> do {
                 (ret, s) \<leftarrow> secure_data_write os s (Some n) (Some (v @ [0])) (int (min (length v) 128));
                 Some (if ret < 0 then -1 else 0, [], s)
               }
             | _ \<Rightarrow> Some (0, [], s))
          else if starts_with opt ''-t'' then
            (case args of
               [] \<Rightarrow> Some (-1, [], s)
             | m # _ \<Rightarrow>
                 map_option (\<lambda>s. (0, [], s))
                   (if atol m = 0 then map_option snd (test_sst_init os s)
                    else if atol m = 1 then map_option snd (test_sst_read os s)
                    else if atol m = 2 then map_option snd (test_sst_write os s)
                    else if atol m = 3 then map_option snd (test_sst_verify os s)
                    else Some s))
          else if starts_with opt ''-e'' then
            (case args of
               [] \<Rightarrow> Some (-1, [], s)
             | m # _ \<Rightarrow>
                 map_option (\<lambda>s. (0, [], s))
                   (if atol m = 0 then map_option snd (sunxi_secure_object_erase os s) else Some s))
          else if starts_with opt ''-d'' then Some (0, [], s)
          else if starts_with opt ''-l'' then
            map_option (\<lambda>(_, ls, s). (0, map (\<lambda>(_, n, v). (n, Some v)) ls, s)) (sunxi_secure_object_list os s)
          else Some (0, [], s))"

section \<open>Lemmas: the self-test\<close>

text \<open>An open storage whose entries' items all hold an object of 128 bytes, as the self-test writes.\<close>

definition full :: "'k os \<Rightarrow> 'k sst \<Rightarrow> entries \<Rightarrow> bool" where
  "full os s es \<longleftrightarrow> opened os s es \<and>
     (\<forall>k < length es. \<exists>obj r. item os s (1 + int k) = (0, object_bytes obj @ r) \<and> valid_object obj \<and>
        unat (actual_len obj) = 128)"

definition enters :: "entries \<Rightarrow> cstr \<Rightarrow> bool" where
  "enters es n \<longleftrightarrow> name_wf n \<and> n \<notin> fst ` set es \<and> (find_prefix es n 1 \<noteq> None \<or> length es < 31)"

fun all_enter :: "entries \<Rightarrow> cstr list \<Rightarrow> bool" where
  "all_enter es [] = True"
| "all_enter es (n # ns) = (enters es n \<and> all_enter (snd (fill_entries es n 3176)) ns)"

definition entered :: "entries \<Rightarrow> cstr list \<Rightarrow> entries" where
  "entered es ns = foldl (\<lambda>es n. snd (fill_entries es n 3176)) es ns"

lemma full_write:
  assumes s: "full os s es" and n: "enters es n" and b: "128 \<le> length buffer"
  shows "\<exists>s'. sunxi_secure_object_write os s n buffer 128 = Some (0, s') \<and>
    full os s' (snd (fill_entries es n 3176))"
proof -
  let ?es = "snd (fill_entries es n 3176)" and ?i = "fst (fill_entries es n 3176)"
  have o: "opened os s es" and rep: "map_rep (secure_storage_map s) es"
    and l3: "\<forall>e \<in> set es. snd e = 3176"
    using s by (simp_all add: full_def opened_def)
  have wf: "name_wf n" and new: "n \<notin> fst ` set es"
    using n by (simp_all add: enters_def)
  have i: "1 \<le> ?i" "?i \<le> 31" "?es = es \<or> ?es = es @ [(n, 3176)] \<and> ?i = int (length es) + 1"
    using n find_prefix_range [of es n 1] sst_map.rep_bound [OF rep]
    by (auto simp: enters_def fill_entries_def split: option.splits)
  obtain m where m: "fill_name_in_map (secure_storage_map s) n 3176 = Some (?i, m)" "map_rep m ?es"
    using sst_map.enter_rep [OF rep wf, of 3176] by (auto simp: len_wf_def)
  have l3': "\<forall>e \<in> set ?es. snd e = 3176"
    using l3 i(3) by auto
  obtain s' obj where s': "sunxi_secure_object_write os s n buffer 128 = Some (0, s')" "opened os s' ?es"
    "valid_object obj" "unat (actual_len obj) = 128" "item os s' ?i = (0, object_bytes obj @ replicate 920 0)"
    "\<forall>j. 0 \<le> j \<and> j \<le> 31 \<and> j \<noteq> ?i \<longrightarrow> item os s' j = item os s j"
    using object_write_item [OF o write_protected_new [OF o new] _ _ _ m(1,2) i(1,2) l3', of 128 buffer] b
    by auto
  have "\<exists>obj r. item os s' (1 + int k) = (0, object_bytes obj @ r) \<and> valid_object obj \<and>
      unat (actual_len obj) = 128" if k: "k < length ?es" for k
  proof (cases "1 + int k = ?i")
    case True
    then show ?thesis
      using s'(3-5) by auto
  next
    case False
    then have "k < length es"
      using i(3) k by auto
    moreover have "1 + int k \<le> 31"
      using k sst_map.rep_bound [OF m(2)] by simp
    ultimately show ?thesis
      using s s'(6) False by (simp add: full_def)
  qed
  then show ?thesis
    using s'(1,2) by (auto simp: full_def)
qed

lemma test_writes_full:
  "full os s es \<Longrightarrow> all_enter es (map (bytes_of \<circ> fst) ks) \<Longrightarrow>
   \<exists>s'. test_writes os s ks = Some (True, s') \<and> full os s' (entered es (map (bytes_of \<circ> fst) ks))"
proof (induction ks arbitrary: s es)
  case (Cons nk ks)
  obtain n k where nk: "nk = (n, k)" by (cases nk)
  have b: "128 \<le> length (strncpy_bytes (bytes_of k) 128)" by simp
  have "enters es (bytes_of n)"
    using Cons.prems(2) nk by simp
  from full_write [OF Cons.prems(1) this b] obtain s1 where
    s1: "sunxi_secure_object_write os s (bytes_of n) (strncpy_bytes (bytes_of k) 128) 128 = Some (0, s1)"
    "full os s1 (snd (fill_entries es (bytes_of n) 3176))"
    by blast
  then show ?case
    using Cons.IH [OF s1(2)] Cons.prems(2) nk by (simp add: entered_def)
qed (simp add: entered_def)

lemma full_read:
  assumes s: "full os s es" and n: "n \<in> fst ` set es" and b: "128 \<le> length key_buf"
  shows "\<exists>bs. sunxi_secure_object_read os s n key_buf dl = Some (0, overlay key_buf bs, 128) \<and> length bs = 128"
proof -
  have o: "opened os s es"
    using s by (simp add: full_def)
  obtain k l where k: "find_entry es n 1 = (1 + int k, Some l)" "k < length es" "es ! k = (n, l)"
    using find_entry_present [OF n] by blast
  then have "l = 3176"
    using o nth_mem [OF k(2)] by (auto simp: opened_def)
  moreover obtain obj r where obj: "item os s (1 + int k) = (0, object_bytes obj @ r)" "valid_object obj"
    "unat (actual_len obj) = 128"
    using s k(2) by (auto simp: full_def)
  moreover have "length (take 128 (data obj)) = 128"
    using obj(2) by (simp add: valid_object_def object_wf_def)
  ultimately show ?thesis
    using object_read_written [OF o _ _ obj(1,2), of n 128 "take 128 (data obj)" key_buf dl] k(1) b
    by auto
qed

lemma test_reads_missing:
  assumes s: "full os s es"
  shows "length key_buf = 128 \<Longrightarrow> \<exists>nk \<in> set ks. bytes_of (fst nk) \<notin> fst ` set es \<Longrightarrow>
    \<exists>v. test_reads os s key_buf ks = Some v \<and> v \<noteq> Verified"
proof (induction ks arbitrary: key_buf)
  case (Cons nk ks)
  obtain n k where nk: "nk = (n, k)" by (cases nk)
  show ?case
  proof (cases "bytes_of n \<in> fst ` set es")
    case False
    then show ?thesis
      using s by (simp add: nk object_read_missing [of os s es] full_def)
  next
    case True
    then obtain bs where bs: "sunxi_secure_object_read os s (bytes_of n) key_buf 0 =
        Some (0, overlay key_buf bs, 128)" "length bs = 128"
      using full_read [OF s] Cons.prems(1) by force
    then have "\<exists>v. test_reads os s (overlay key_buf bs) ks = Some v \<and> v \<noteq> Verified"
      using Cons True nk by (intro Cons.IH) (auto simp: length_overlay)
    then show ?thesis
      using bs(1) by (auto simp: nk)
  qed
qed simp

text \<open>The keys of the self-test: the second six extend the first six and are not entered.\<close>

definition my_entries :: entries where
  "my_entries = map (\<lambda>n. (bytes_of n, 3176)) [''SN'', ''PN'', ''IMEI'', ''TID'', ''EMAC'', ''WMAC'']"

lemmas enter_simps = enters_def fill_entries_def name_wf_def MAP_KEY_NAME_SIZE_def bytes_of_def

lemma my_key_enter:
  "all_enter [] (map (bytes_of \<circ> fst) my_key)" "entered [] (map (bytes_of \<circ> fst) my_key) = my_entries"
  by (simp_all add: my_key_def enter_simps entered_def my_entries_def)

lemma full_same_items:
  assumes "full os s es" "opened os s' es" "\<And>j. 1 \<le> j \<Longrightarrow> j \<le> 31 \<Longrightarrow> item os s' j = item os s j"
  shows "full os s' es"
proof -
  have "length es \<le> 31"
    using assms(2) sst_map.rep_bound by (auto simp: opened_def)
  then show ?thesis
    using assms by (simp add: full_def)
qed

lemma self_test:
  assumes "stored os s []"
  shows "\<exists>s1 s2. test_sst_init os s = Some (0, s1) \<and> stored os s1 my_entries \<and>
    test_sst_verify os s1 = Some (1, s2)"
proof -
  obtain a where a: "secure_storage_support os s = Some (0, a)" "stored os a []"
    using support_stored [OF assms] by blast
  obtain b where b: "sunxi_secure_storage_init os a = Some (0, b)" "opened os b []"
    using init_stored [OF a(2)] by blast
  then have "full os b []"
    by (simp add: full_def)
  from test_writes_full [OF this my_key_enter(1)] obtain c where
    c: "test_writes os b my_key = Some (True, c)" "full os c my_entries"
    unfolding my_key_enter(2) by blast
  then have oc: "opened os c my_entries"
    by (simp add: full_def)
  obtain d where d: "sunxi_secure_storage_exit os c 1 = (0, d)" "stored os d my_entries"
    "\<And>j. 1 \<le> j \<Longrightarrow> j \<le> 31 \<Longrightarrow> item os (boot os d) j = item os c j"
    using exit_opened [OF oc] by blast
  obtain e where e: "secure_storage_support os d = Some (0, e)" "stored os e my_entries"
    "\<And>j. 1 \<le> j \<Longrightarrow> j \<le> 31 \<Longrightarrow> item os (boot os e) j = item os (boot os d) j"
    using support_stored [OF d(2)] by blast
  obtain f where f: "sunxi_secure_storage_init os e = Some (0, f)" "opened os f my_entries"
    "item os f = item os (boot os e)"
    using init_stored [OF e(2)] by blast
  have "full os f my_entries"
    using full_same_items [OF c(2) f(2)] d(3) e(3) f(3) by simp
  moreover have "\<exists>nk \<in> set my_key. bytes_of (fst nk) \<notin> fst ` set my_entries"
    by (rule bexI [of _ "(''SN1'', ''BE5G31404000000110'')"]) (simp_all add: my_key_def my_entries_def bytes_of_def)
  ultimately obtain v where "test_reads os f (replicate 128 0) my_key = Some v" "v \<noteq> Verified"
    using test_reads_missing [of os f my_entries "replicate 128 0" my_key] by auto
  then show ?thesis
    using a(1) b(1) c(1) d(1,2) e(1) f(1)
    by (intro exI) (auto simp: test_sst_init_def test_sst_verify_def)
qed

section \<open>Lemmas: provisioning a key\<close>

lemma na_options_append: "na_options (xs @ ys) st = na_options xs st \<bind> na_options ys"
  by (induction xs st rule: na_options.induct) (auto split: na_option.splits)

text \<open>
  \<open>keybox_na -w -k key_name -f key_file\<close> on a closed storage, with a key the trusted environment
  returns as \<open>out\<close>.
\<close>

lemma down_stored:
  assumes s: "stored os s es" and n: "name_wf n" "n \<notin> fst ` set es" "room_for es n"
    and t: "tee_initialize t = 0" "tee_open_session t = 0" "tee_allocate t"
      "tee_sec_object_down t b = (0, out)" "length out = 4096" "takeWhile (\<lambda>c. c \<noteq> 0) out = n"
      "unat (info_len (info_of out)) \<le> 2996"
  shows "\<exists>s'. secure_object_down os t s b = Some (0, s') \<and> stored os s' (es @ [(n, 3176)]) \<and>
    (\<forall>buf dl. 3072 \<le> length buf \<longrightarrow> first_read os s' n buf dl =
       Some (0, overlay buf (take (76 + unat (info_len (info_of out))) out),
         76 + int (unat (info_len (info_of out)))))"
proof -
  let ?k = "76 + unat (info_len (info_of out))"
  have u: "unat (SUNXI_SECURE_STORTAGE_INFO_HEAD_LEN + info_len (info_of out)) = ?k"
    using t(7) by (simp add: SUNXI_SECURE_STORTAGE_INFO_HEAD_LEN_def unat_word_ariths)
  then have len: "sint (SUNXI_SECURE_STORTAGE_INFO_HEAD_LEN + info_len (info_of out)) = int ?k"
    using t(7) by (subst sint_small) simp_all
  have fe: "snd (fill_entries es n 3176) = es @ [(n, 3176)]"
    using n(2,3) find_prefix_free [of es n 1] by (simp add: fill_entries_def room_for_def)
  have z: "strlen_at out 0 = Some (length n)" "take (length n) out = n"
  proof -
    have ne: "takeWhile (\<lambda>c. c \<noteq> 0) out \<noteq> out"
      using t(5,6) n(1) by (auto simp: name_wf_def MAP_KEY_NAME_SIZE_def)
    then have "0 \<in> set out"
      by (simp add: takeWhile_eq_all_conv)
    then show "strlen_at out 0 = Some (length n)"
      using t(6) by (simp add: strlen_at_def)
    show "take (length n) out = n"
      using t(6) by (metis takeWhile_eq_take)
  qed
  obtain s1 where s1: "sunxi_secure_storage_init os s = Some (0, s1)" "opened os s1 es"
    using init_stored [OF s] by blast
  have k: "0 \<le> int ?k" "int ?k \<le> 3072" "nat (int ?k) \<le> length out"
    by (rule of_nat_0_le_iff) (use t(5,7) in \<open>linarith, simp only: nat_int\<close>)
  note w = object_write_opened [OF s1(2) n(1,3) k write_protected_new [OF s1(2) n(2)], unfolded fe nat_int]
  obtain s2 where s2: "sunxi_secure_object_write os s1 n out (int ?k) = Some (0, s2)"
    "opened os s2 (es @ [(n, 3176)])"
    "\<And>buf dl. ?k \<le> length buf \<Longrightarrow>
       sunxi_secure_object_read os s2 n buf dl = Some (0, overlay buf (take ?k out), int ?k)"
    using w by blast
  obtain s3 where s3: "sunxi_secure_storage_exit os s2 0 = (0, s3)" "stored os s3 (es @ [(n, 3176)])"
    "\<And>j. 1 \<le> j \<Longrightarrow> j \<le> 31 \<Longrightarrow> item os (boot os s3) j = item os s2 j"
    using exit_opened [OF s2(2)] by blast
  obtain s4 where s4: "sunxi_secure_storage_init os s3 = Some (0, s4)" "opened os s4 (es @ [(n, 3176)])"
    "item os s4 = item os (boot os s3)"
    using init_stored [OF s3(2)] by blast
  have "first_read os s3 n buf dl = sunxi_secure_object_read os s2 n buf dl" for buf dl
    using s4(1) object_read_same [OF s2(2) s4(2)] s3(3) s4(3) by (simp add: first_read_def)
  moreover have "secure_object_down os t s b = Some (0, s3)"
    using t z s1(1) s2(1) s3(1) len
    by (simp add: secure_object_down_def TEEC_SUCCESS_def del: of_nat_add)
  ultimately show ?thesis
    using s3(2) s2(3) t(7) by (intro exI [of _ s3]) simp
qed

end
