(* ===== verification/Crc_Reflected.thy ===== *)
theory Crc_Reflected
  imports C_Prelude
begin

text \<open>
  Cyclic redundancy checks in reflected form, of any width: one bit at a time as the reference, the
  table algorithm that consumes a byte at a time, and what such a checksum detects. The two
  checksums of the repository, of 32 and of 16 bits, are instances.
\<close>

unbundle bit_operations_syntax

section \<open>One bit at a time\<close>

definition rc_bit :: "'w::len word \<Rightarrow> 'w word \<Rightarrow> 'w word" where
  "rc_bit poly c = (if bit c 0 then drop_bit 1 c XOR poly else drop_bit 1 c)"

fun rc_ref :: "'w::len word \<Rightarrow> 'w word \<Rightarrow> byte list \<Rightarrow> 'w word" where
  "rc_ref poly c [] = c"
| "rc_ref poly c (b # bs) = rc_ref poly ((rc_bit poly ^^ 8) (c XOR ucast b)) bs"

text \<open>The table, and one step with it.\<close>

definition rc_table :: "'w::len word \<Rightarrow> 'w word list" where
  "rc_table poly = map (\<lambda>i. (rc_bit poly ^^ 8) (of_nat i)) [0..<256]"

definition rc_step :: "'w::len word list \<Rightarrow> 'w word \<Rightarrow> byte \<Rightarrow> 'w word" where
  "rc_step table c b = table ! unat (take_bit 8 (c XOR ucast b)) XOR drop_bit 8 c"

text \<open>The bytes as one word, the first one lowest.\<close>

fun le_word :: "byte list \<Rightarrow> 'w::len word" where
  "le_word [] = 0"
| "le_word (b # bs) = ucast b XOR push_bit 8 (le_word bs)"

section \<open>Linearity\<close>

lemma rc_bit_xor: "rc_bit p (a XOR b) = rc_bit p a XOR rc_bit p b"
  by (auto simp: rc_bit_def bit_simps ac_simps)

lemma rc_bits_xor: "(rc_bit p ^^ n) (a XOR b) = (rc_bit p ^^ n) a XOR (rc_bit p ^^ n) b"
  by (induction n) (auto simp: rc_bit_xor)

lemma rc_bits_shift: "take_bit n c = 0 \<Longrightarrow> (rc_bit p ^^ n) c = drop_bit n c"
proof (induction n arbitrary: c)
  case (Suc n)
  from Suc.prems have "\<not> bit c 0"
    using bit_take_bit_iff [of "Suc n" c 0] by simp
  then have step: "rc_bit p c = drop_bit 1 c"
    by (simp add: rc_bit_def)
  have "take_bit n (drop_bit 1 c) = drop_bit 1 (take_bit (Suc n) c)"
    by (rule bit_word_eqI) (auto simp: bit_simps)
  with Suc.prems have "take_bit n (drop_bit 1 c) = 0"
    by simp
  then show ?case
    using Suc.IH [of "drop_bit 1 c"] step
    by (simp add: funpow_Suc_right del: funpow.simps)
qed auto

lemma rc_bits_8:
  "(rc_bit p ^^ 8) x = rc_bit p (rc_bit p (rc_bit p (rc_bit p (rc_bit p (rc_bit p (rc_bit p (rc_bit p x)))))))"
  by (simp add: eval_nat_numeral)

lemma rc_ref_append: "rc_ref p c (xs @ ys) = rc_ref p (rc_ref p c xs) ys"
  by (induction xs arbitrary: c) auto

lemma upt_256: "[0..<256] = 0 # 1 # [2..<256]"
  by (simp add: upt_conv_Cons numeral_2_eq_2)

section \<open>Polynomials whose highest bit is set\<close>

locale reflected_crc =
  fixes poly :: "'w::len word"
  assumes top: "bit poly (LENGTH('w) - 1)"
    and width: "8 \<le> LENGTH('w)"
begin

lemma byte_bit_high: "\<not> bit b (8 + n)" for b :: byte
  using bit_imp_le_length [of b "8 + n"] by auto

lemma unat_take_bit_8: "unat (take_bit 8 (x :: 'w word)) < 256"
  using take_bit_nat_less_exp [of 8 "unat x"] by (simp add: unsigned_take_bit_eq)

lemma step_ref: "rc_step (rc_table poly) c b = (rc_bit poly ^^ 8) (c XOR ucast b)"
proof -
  let ?x = "c XOR ucast b"
  have "unat (take_bit 8 ?x) < 256"
    by (rule unat_take_bit_8)
  then have t: "rc_table poly ! unat (take_bit 8 ?x) = (rc_bit poly ^^ 8) (take_bit 8 ?x)"
    by (simp add: rc_table_def)
  have x: "?x = take_bit 8 ?x XOR push_bit 8 (drop_bit 8 ?x)"
  proof (rule bit_word_eqI)
    fix i assume "i < LENGTH('w)"
    then show "bit ?x i = bit (take_bit 8 ?x XOR push_bit 8 (drop_bit 8 ?x)) i"
      by (cases "i < 8") (auto simp: bit_simps)
  qed
  have "(rc_bit poly ^^ 8) (push_bit 8 (drop_bit 8 ?x)) = drop_bit 8 (push_bit 8 (drop_bit 8 ?x))"
    by (rule rc_bits_shift) (simp add: take_bit_push_bit)
  also have "\<dots> = drop_bit 8 c"
    by (rule bit_word_eqI) (auto simp: bit_simps byte_bit_high dest: bit_imp_le_length)
  finally show ?thesis
    unfolding rc_step_def by (metis t x rc_bits_xor)
qed

lemma bit_top: "bit (rc_bit poly c) (LENGTH('w) - 1) \<longleftrightarrow> bit c 0"
  using top by (auto simp: rc_bit_def bit_simps dest: bit_imp_le_length)

lemma bit_inject [simp]: "rc_bit poly a = rc_bit poly b \<longleftrightarrow> a = b"
proof
  assume eq: "rc_bit poly a = rc_bit poly b"
  then have b0: "bit a 0 \<longleftrightarrow> bit b 0"
    using bit_top by metis
  have "drop_bit 1 a XOR poly = drop_bit 1 b XOR poly \<longleftrightarrow> drop_bit 1 a = drop_bit 1 b"
    by (metis xor.assoc xor.right_neutral xor_self_eq)
  with eq b0 have d: "drop_bit 1 a = drop_bit 1 b"
    by (auto simp: rc_bit_def split: if_splits)
  show "a = b"
  proof (rule bit_word_eqI)
    fix n
    show "bit a n = bit b n"
      using b0 arg_cong [OF d, of "\<lambda>w. bit w (n - 1)"] by (cases n) (auto simp: bit_simps)
  qed
qed simp

lemma bits_inject [simp]: "(rc_bit poly ^^ n) a = (rc_bit poly ^^ n) b \<longleftrightarrow> a = b"
  by (induction n) auto

lemma xor_inject: "a XOR c = b XOR c \<longleftrightarrow> a = b" "c XOR a = c XOR b \<longleftrightarrow> a = b" for a :: "'w word"
  by (metis xor.assoc xor.commute xor.right_neutral xor_self_eq)+

lemma state_inject: "rc_ref poly a bs = rc_ref poly b bs \<longleftrightarrow> a = b"
  by (induction bs arbitrary: a b) (auto simp: xor_inject)

lemma le_word_high: "8 * length bs \<le> n \<Longrightarrow> \<not> bit (le_word bs :: 'w word) n"
proof (induction bs arbitrary: n)
  case (Cons b bs)
  then have "\<not> bit (le_word bs :: 'w word) (n - 8)" "\<not> bit b n"
    using bit_imp_le_length [of b n] by auto
  then show ?case
    by (simp add: bit_simps)
qed simp

lemma ref_word:
  "8 * length bs \<le> LENGTH('w) \<Longrightarrow> rc_ref poly c bs = (rc_bit poly ^^ (8 * length bs)) (c XOR le_word bs)"
proof (induction bs arbitrary: c)
  case (Cons b bs)
  let ?w = "le_word bs :: 'w word" and ?f = "rc_bit poly ^^ 8"
  have "n < 8 * length bs" if "bit ?w n" for n
    using le_word_high [of bs n] that by (meson not_le)
  then have "8 + n < LENGTH('w)" if "bit ?w n" for n
    using that Cons.prems by fastforce
  then have "drop_bit 8 (push_bit 8 ?w) = ?w"
    by (intro bit_word_eqI) (auto simp: bit_simps)
  moreover have "?f (push_bit 8 ?w) = drop_bit 8 (push_bit 8 ?w)"
    by (rule rc_bits_shift) (simp add: take_bit_push_bit)
  ultimately have "?f (c XOR ucast b) XOR ?w = ?f (c XOR le_word (b # bs))"
    using rc_bits_xor [of 8 poly "c XOR ucast b" "push_bit 8 ?w"] by (simp add: xor.assoc)
  moreover have "rc_bit poly ^^ (8 * length (b # bs)) = (rc_bit poly ^^ (8 * length bs)) \<circ> ?f"
    using funpow_add [of "8 * length bs" 8 "rc_bit poly"] by (simp add: add.commute)
  ultimately show ?case
    using Cons.IH [of "?f (c XOR ucast b)"] Cons.prems by (simp only: rc_ref.simps) simp
qed simp

lemma le_word_inject:
  "length x = length y \<Longrightarrow> 8 * length x \<le> LENGTH('w) \<Longrightarrow> (le_word x :: 'w word) = le_word y \<Longrightarrow> x = y"
proof (induction x y rule: list_induct2)
  case (Cons a x b y)
  have "bit a n = bit b n" if "n < 8" for n
    using arg_cong [OF Cons.prems(2), of "\<lambda>w. bit w n"] that width by (auto simp: bit_simps)
  then have ab: "a = b"
    by (intro bit_word_eqI) auto
  have "bit (le_word x :: 'w word) n = bit (le_word y :: 'w word) n" for n
  proof (cases "8 + n < LENGTH('w)")
    case True
    then show ?thesis
      using arg_cong [OF Cons.prems(2), of "\<lambda>w. bit w (8 + n)"] by (simp add: bit_simps byte_bit_high)
  next
    case False
    then show ?thesis
      using le_word_high [of x n] le_word_high [of y n] Cons.hyps Cons.prems(1) by auto
  qed
  then have "x = y"
    using Cons.prems(1) by (intro Cons.IH bit_word_eqI) simp_all
  then show ?case
    using ab by simp
qed simp

text \<open>Two messages that differ within as many consecutive bytes as the checksum has are told apart.\<close>

lemma burst:
  assumes "length x = length y" "8 * length x \<le> LENGTH('w)"
    and eq: "rc_ref poly c (pre @ x @ post) = rc_ref poly c (pre @ y @ post)"
  shows "x = y"
proof -
  from eq have "rc_ref poly (rc_ref poly c pre) x = rc_ref poly (rc_ref poly c pre) y"
    by (simp add: rc_ref_append state_inject)
  then have "(le_word x :: 'w word) = le_word y"
    using assms(1,2) by (simp add: ref_word xor_inject)
  then show ?thesis
    by (rule le_word_inject [OF assms(1,2)])
qed

end

end
