(* ===== verification/Crc32_Ref.thy ===== *)
theory Crc32_Ref
  imports Crc32 Crc_Reflected
begin

text \<open>
  The mathematical CRC-32 and the code's: the constant table of \<open>local_crc32.c\<close> holds the bitwise
  CRC of the polynomial 0xEDB88320, so \<open>crc32\<close> is that checksum, and a corruption confined to
  four consecutive bytes always changes it.
\<close>

unbundle bit_operations_syntax

text \<open>The reference: one bit at a time.\<close>

definition crc_ref :: "u32 \<Rightarrow> byte list \<Rightarrow> u32" where
  "crc_ref c bs = rc_ref 0xEDB88320 c bs"

interpretation crc32_poly: reflected_crc "0xEDB88320 :: u32"
  by unfold_locales (simp_all add: bit_numeral_word_iff)

section \<open>The table is the bitwise CRC\<close>

lemma crc_table_ref: "crc_table = rc_table 0xEDB88320"
  by (simp add: rc_table_def upt_256 upt_rec_numeral)
    (simp add: crc_table_def rc_bits_8 rc_bit_def)

section \<open>The code computes the bitwise CRC\<close>

lemma DO_CRC_ref: "DO_CRC c (ucast b) = rc_step (rc_table 0xEDB88320) c b" for b :: byte
  by (simp add: DO_CRC_def rc_step_def crc_table_ref and_255)

lemma crc_bytes_ref: "crc_bytes c bs = crc_ref c bs"
  by (induction bs arbitrary: c) (simp_all add: crc_ref_def DO_CRC_ref crc32_poly.step_ref)

section \<open>Burst errors\<close>

lemma crc32_ref: "crc32 p 0 bs = crc_ref 0xffffffff bs XOR 0xffffffff"
  by (simp add: crc32_def crc32_no_comp_bytes crc_bytes_ref)

lemma crc32_burst:
  assumes "length x = length y" "length x \<le> 4"
    and "crc32 p 0 (pre @ x @ post) = crc32 q 0 (pre @ y @ post)"
  shows "x = y"
  using assms crc32_poly.burst [of x y]
  by (simp add: crc32_ref crc_ref_def crc32_poly.xor_inject)

end
