(* ===== verification/Keybox_Properties.thy ===== *)
theory Keybox_Properties
  imports Keybox_Cli Crc32_Ref
begin

text \<open>
  What the keybox library promises its callers, as properties of the operations modelled in the
  theories below, each with an instance on a concrete storage.
\<close>

section \<open>Definitions\<close>

text \<open>The contents of an open storage as a map from names to values.\<close>

definition object_value :: "'k os \<Rightarrow> 'k sst \<Rightarrow> cstr \<Rightarrow> byte list option" where
  "object_value os s n =
     (case sunxi_secure_object_read os s n (replicate MAX_STORE_LEN 0) 0 of
        None \<Rightarrow> None
      | Some (ret, b, l) \<Rightarrow> if ret = 0 then Some (take (nat l) b) else None)"

definition demo_key :: cstr where "demo_key = bytes_of ''key''"

definition demo_object :: store_object_t where
  "demo_object =
     (let obj = \<lparr>magic = STORE_OBJECT_MAGIC, obj_id = 0, obj_name = strncpy_bytes demo_key 64,
        re_encrypt = 0, version = 1, write_protect = 0, reserved = replicate 12 0, actual_len = 3,
        data = replicate 3072 7, crc = 0\<rparr>
      in obj\<lparr>crc := crc_of (object_body obj)\<rparr>)"

definition demo_item :: "byte list" where
  "demo_item = object_bytes demo_object @ replicate 920 0"

section \<open>Lemmas\<close>

lemma demo_key_ok: "name_wf demo_key" "room_for [] demo_key"
  by (simp_all add: demo_key_def name_wf_def MAP_KEY_NAME_SIZE_def bytes_of_def room_for_def prefix_free_def)

lemma demo_object_valid: "valid_object demo_object"
  by (simp add: demo_object_def valid_object_def object_wf_def object_body_def Let_def)

lemma demo_item_ok: "length demo_item = 4096" "check_secure_storage_key demo_item = 0"
  using demo_object_valid
  by (simp_all add: demo_item_def check_key_valid length_object_bytes valid_object_def)

lemma demo_opened: "\<exists>s. sunxi_secure_storage_init demo_os demo_sst = Some (0, s) \<and> opened demo_os s []"
  using init_stored [OF demo_stored] by blast

section \<open>Storing and reading keys\<close>





section \<open>The two copies\<close>

text \<open>
  C3: an item is never lost by an interrupted write on the eMMC path. Whatever \<open>lseek\<close> and \<open>write\<close>
  do during \<open>_sd_write\<close> (fail, or transfer any part of either copy), a later \<open>sd_read_key\<close> on a working
  device returns 0 with the new item, with the old one, or with the partly written first copy,
  and the last only if that copy passes the checksum.
\<close>

lemma interrupted_write_keeps_item:
  assumes "sd_write os (flash s) i (Some b) 4096 = (ret, d')" "length b = 4096"
    and "check_secure_storage_key b = 0"
    and "pread (flash s) (sd_offset_backup i) 4096 = old" "check_secure_storage_key old = 0"
    and "sd_reliable os'" "\<not> sst_use_ioctl s" "i \<le> 32" "length buf = 4096"
  shows "\<exists>x. sd_read_key os' (s\<lparr>flash := d'\<rparr>) i buf 4096 = (0, x) \<and>
    (x = b \<or> x = old \<or> x = pread d' (sd_offset i) 4096 \<and> check_secure_storage_key x = 0)"
  using sd_write_copies [OF assms(1,2)] assms(3-5)
    sd_read_key_reliable [OF assms(6), of "s\<lparr>flash := d'\<rparr>" i buf] assms(7-9)
  by (auto simp: Let_def)

lemma interrupted_write_keeps_item_witness:
  "\<exists>x. sd_read_key demo_os (demo_sst\<lparr>flash := snd (sd_write (demo_os\<lparr>os_write := (\<lambda>_ _. 100)\<rparr>)
      (pwrite (flash demo_sst) (sd_offset_backup 1) demo_item) 1 (Some demo_item) 4096)\<rparr>)
      1 (replicate 4096 0) 4096 = (0, x) \<and>
    (x = demo_item \<or> x = demo_item \<or> check_secure_storage_key x = 0)"
proof -
  let ?s = "demo_sst\<lparr>flash := pwrite (flash demo_sst) (sd_offset_backup 1) demo_item\<rparr>"
  let ?os = "demo_os\<lparr>os_write := (\<lambda>_ _. 100)\<rparr>"
  have w: "sd_write ?os (flash ?s) 1 (Some demo_item) 4096 =
      (fst (sd_write ?os (flash ?s) 1 (Some demo_item) 4096), snd (sd_write ?os (flash ?s) 1 (Some demo_item) 4096))"
    by simp
  have old: "pread (flash ?s) (sd_offset_backup 1) 4096 = demo_item"
    using pread_pwrite_same [of "flash demo_sst" "sd_offset_backup 1" demo_item] demo_item_ok(1) by simp
  have r: "sd_reliable demo_os"
    by (simp add: sd_reliable_def)
  show ?thesis
    using interrupted_write_keeps_item [OF w demo_item_ok old demo_item_ok(2) r, of "replicate 4096 0"]
    by auto
qed



text \<open>
  C4: the read path never returns a written object with a damaged header or payload: whatever the
  driver, the system calls and the medium do, \<open>sd_read_key\<close> does not succeed with bytes that differ
  from a valid object's in a burst of one to four bytes before the checksum.
\<close>

lemma read_key_detects_burst:
  assumes "check_secure_storage_key (pre @ x @ post) = 0" "length x = length y" "length x \<le> 4" "x \<noteq> y"
    and "length pre + length x \<le> 3172" "4096 \<le> length (pre @ x @ post)"
  shows "sd_read_key os s i buf len \<noteq> (0, pre @ y @ post)"
proof
  assume "sd_read_key os s i buf len = (0, pre @ y @ post)"
  then have y: "check_secure_storage_key (pre @ y @ post) = 0"
    by (rule sd_read_key_sound)
  have c: "crc (object_of (pre @ z @ post)) = of_le32 (drop (3172 - length pre - length x) post)"
    if "length z = length x" for z
    using that assms(5) by (simp add: object_of_def)
  have t: "take (sizeof_store_object - 4) (pre @ z @ post) = pre @ z @ take (3172 - length pre - length x) post"
    if "length z = length x" for z
    using that assms(5) by (simp add: sizeof_store_object_def)
  have "crc32 0 0 (pre @ x @ take (3172 - length pre - length x) post) =
      crc32 0 0 (pre @ y @ take (3172 - length pre - length x) post)"
    using assms(1,2) y c [of x] c [of y] t [of x] t [of y]
    by (simp add: check_secure_storage_key_def Let_def crc_of_def split: if_splits)
  then show False
    using crc32_burst [OF assms(2,3)] assms(4) by blast
qed

lemma read_key_detects_burst_witness:
  "sd_read_key demo_os demo_sst 1 [] 4096 \<noteq>
    (0, take 200 demo_item @ [demo_item ! 200 + 1] @ drop 201 demo_item)"
proof -
  have d: "demo_item = take 200 demo_item @ [demo_item ! 200] @ drop 201 demo_item"
    using demo_item_ok(1) id_take_nth_drop [of 200 demo_item] by simp
  show ?thesis
  proof (rule read_key_detects_burst [where x = "[demo_item ! 200]"])
    show "check_secure_storage_key (take 200 demo_item @ [demo_item ! 200] @ drop 201 demo_item) = 0"
      using demo_item_ok(2) d by simp
    show "length (take 200 demo_item) + length [demo_item ! 200] \<le> 3172"
      "4096 \<le> length (take 200 demo_item @ [demo_item ! 200] @ drop 201 demo_item)"
      using demo_item_ok(1) by simp_all
  qed simp_all
qed

section \<open>Objects, maps and sessions\<close>

text \<open>
  C7: the table-driven \<open>crc32\<close> of \<open>local_crc32.c\<close>, with its unaligned head, its word loop and its tail,
  computes the bitwise CRC-32 (polynomial 0xEDB88320) of the bytes for every address \<open>p\<close>.
\<close>

lemma crc32_is_bitwise_crc: "crc32 p 0 bs = crc_ref 0xffffffff bs XOR 0xffffffff"
  by (rule crc32_ref)

text \<open>
  C8: \<open>unwrap_secure_object\<close> returns what \<open>wrap_secure_object\<close> packed, for every payload of at most 3072
  bytes, and the packed object passes the check of the read path.
\<close>

lemma unwrap_wrap:
  assumes "0 \<le> len" "len \<le> 3072" "nat len \<le> length src" "nat len \<le> length payload"
  shows "\<exists>b. wrap_secure_object src name (word_of_int len) (replicate SEC_BLK_SIZE 0) = Some (0, b, Some 3176) \<and>
    check_secure_storage_key b = 0 \<and>
    unwrap_secure_object b 3176 payload n = Some (0, overlay payload (take (nat len) src), len)"
proof -
  obtain obj where obj: "wrap_secure_object src name (word_of_int len) (replicate SEC_BLK_SIZE 0) =
      Some (0, object_bytes obj @ replicate 920 0, Some 3176)" "valid_object obj"
    "unat (actual_len obj) = nat len" "take (nat len) (data obj) = take (nat len) src"
    using wrap_item [OF assms(1-3)] by blast
  then show ?thesis
    using unwrap_ok [OF obj(2), of payload "replicate 920 0" n] check_key_valid [OF obj(2)] assms
    by simp
qed

lemma unwrap_wrap_witness:
  "\<exists>b. wrap_secure_object [1, 2, 3] demo_key (word_of_int 2) (replicate SEC_BLK_SIZE 0) = Some (0, b, Some 3176) \<and>
    unwrap_secure_object b 3176 [9, 9, 9] 0 = Some (0, [1, 2, 9], 2)"
  using unwrap_wrap [of 2 "[1, 2, 3]" "[9, 9, 9]" demo_key 0] by (auto simp: overlay_def numeral_eq_Suc)

text \<open>
  On a map buffer that represents the entries \<open>es\<close>, \<open>__fill_name_in_map\<close> returns an item number
  from 1 to 31 under which \<open>__probe_name_in_map\<close> then finds the name, and the lookups of all other
  names are unchanged. This holds if no other entry's name is a prefix of the name and the map
  has the name or room for it.
\<close>

lemma fill_then_probe:
  assumes "map_rep m es" "room_for es n" "name_wf n" "len_wf l"
  shows "\<exists>i m' l'. fill_name_in_map m n l = Some (i, m') \<and> map_rep m' (snd (fill_entries es n l)) \<and>
    1 \<le> i \<and> i \<le> 31 \<and> probe_name_in_map m' n = Some (i, Some l') \<and> (l' = l \<or> (n, l') \<in> set es) \<and>
    (\<forall>n'. n' \<noteq> n \<longrightarrow> probe_name_in_map m' n' = probe_name_in_map m n')"
  by (rule sst_map.enter_then_lookup [OF assms])

lemma fill_then_probe_witness:
  "\<exists>m'. fill_name_in_map empty_map demo_key 5 = Some (1, m') \<and> probe_name_in_map m' demo_key = Some (1, Some 5)"
proof -
  obtain i m' l' where m: "fill_name_in_map empty_map demo_key 5 = Some (i, m')"
    "map_rep m' (snd (fill_entries [] demo_key 5))" "probe_name_in_map m' demo_key = Some (i, Some l')"
    using fill_then_probe [OF map_rep_empty demo_key_ok(2,1), of 5] by (auto simp: len_wf_def)
  have "probe_name_in_map m' demo_key = Some (1, Some 5)"
    by (simp add: sst_map.lookup_rep [OF m(2)] fill_entries_def)
  then show ?thesis
    using m by auto
qed

text \<open>
  C5: closing the storage and opening it again, as after a reboot, loses nothing: the sealed map is
  accepted, the entries are the same and every name has the value it had.
\<close>

lemma close_open:
  assumes "opened os s es"
  shows "\<exists>s1 s2. sunxi_secure_storage_exit os s mode = (0, s1) \<and>
    sunxi_secure_storage_init os s1 = Some (0, s2) \<and> opened os s2 es \<and>
    object_value os s2 = object_value os s"
proof -
  obtain s1 where s1: "sunxi_secure_storage_exit os s mode = (0, s1)" "stored os s1 es"
    "\<And>j. 1 \<le> j \<Longrightarrow> j \<le> 31 \<Longrightarrow> item os (boot os s1) j = item os s j"
    using exit_opened [OF assms] by blast
  obtain s2 where s2: "sunxi_secure_storage_init os s1 = Some (0, s2)" "opened os s2 es"
    "item os s2 = item os (boot os s1)"
    using init_stored [OF s1(2)] by blast
  have "sunxi_secure_object_read os s2 n out dl = sunxi_secure_object_read os s n out dl" for n out dl
    using object_read_same [OF assms s2(2)] s1(3) s2(3) by simp
  then show ?thesis
    using s1(1) s2(1,2) by (simp add: object_value_def fun_eq_iff)
qed

lemma close_open_witness:
  "\<exists>s s1 s2. sunxi_secure_storage_exit demo_os s 1 = (0, s1) \<and>
    sunxi_secure_storage_init demo_os s1 = Some (0, s2) \<and> opened demo_os s2 []"
proof -
  obtain s where s: "opened demo_os s []"
    using demo_opened by blast
  then show ?thesis
    using close_open [OF s, of 1] by blast
qed



text \<open>
  \<open>sunxi_secure_object_list\<close> prints every stored name once, in the order of the map and numbered
  from 1, with its value as a string, and leaves the storage as it was.
\<close>

lemma list_prints_entries:
  assumes "stored os s es"
    and "\<And>e. e \<in> set es \<Longrightarrow> \<exists>b l. first_read os s (fst e) (replicate SEC_BLK_SIZE 0) 0 = Some (0, b, l) \<and>
      takeWhile (\<lambda>c. c \<noteq> 0) b = v (fst e)"
  shows "\<exists>s'. sunxi_secure_object_list os s = Some (0, listing v es 1, s') \<and> stored os s' es"
  by (rule list_opened [OF assms])

lemma list_prints_entries_witness:
  "\<exists>s s'. sunxi_secure_object_list demo_os s = Some (0, [(1, demo_key, [1, 2])], s')"
proof -
  have bs: "strncpy_from [1, 2] (nat 2) = Some [1, 2 :: byte]"
    by (simp add: strncpy_from_def strncpy_bytes_def numeral_eq_Suc)
  have w: "\<And>t. opened demo_os t [] \<Longrightarrow> write_protected demo_os t demo_key = Some False"
    by (rule write_protected_new, assumption) simp
  obtain s where s: "stored demo_os s [(demo_key, 3176)]"
    "first_read demo_os s demo_key (replicate SEC_BLK_SIZE 0) 0 = Some (0, overlay (replicate SEC_BLK_SIZE 0) [1, 2], 2)"
    using data_write_stored [OF demo_stored demo_key_ok _ _ bs w] by (auto simp: fill_entries_def SEC_BLK_SIZE_def)
  have "takeWhile (\<lambda>c. c \<noteq> 0) (overlay (replicate SEC_BLK_SIZE 0) [1, 2 :: byte]) = [1, 2]"
    by (simp add: overlay_def takeWhile_replicate)
  then show ?thesis
    using list_prints_entries [OF s(1), of "\<lambda>_. [1, 2]"] s(2) by auto
qed

text \<open>\<open>sunxi_secure_object_erase\<close> leaves a closed storage without entries, also on the medium.\<close>

lemma erase_empties:
  assumes "stored os s es"
  shows "\<exists>s'. sunxi_secure_object_erase os s = Some (0, s') \<and> stored os s' [] \<and>
    (\<forall>n out dl. first_read os s' n out dl = Some (-1, out, dl))"
  using erase_stored [OF assms] first_read_missing by fastforce

lemma erase_empties_witness: "\<exists>s'. sunxi_secure_object_erase demo_os demo_sst = Some (0, s')"
  using erase_empties [OF demo_stored] by blast

section \<open>Refused and mistaken requests\<close>

text \<open>
  A key that is not stored leaves the caller's buffer and length alone, but \<open>secure_data_read\<close>
  returns 0 all the same, although \<open>api.h\<close> documents -1 for a failure: its error paths return the
  result of \<open>secure_storage_support\<close>.
\<close>

lemma data_read_missing_returns_0:
  assumes "stored os s es" "n \<notin> fst ` set es"
  shows "\<exists>s'. secure_data_read os s n out dl = Some (0, out, dl, s') \<and> stored os s' es"
  using data_read_stored [OF assms(1) first_read_missing [OF assms]] by blast

lemma data_read_missing_returns_0_witness:
  "\<exists>s'. secure_data_read demo_os demo_sst demo_key [9, 9] 7 = Some (0, [9, 9], 7, s')"
  using data_read_missing_returns_0 [OF demo_stored, of demo_key "[9, 9]" 7] by auto

text \<open>
  C12: if the name to be written is new but extends a stored name \<open>k\<close>, the write returns 0, overwrites
  the value of \<open>k\<close> and enters nothing: the new name still cannot be read. \<open>__fill_name_in_map\<close> compares
  only as many characters as the stored name has.
\<close>

lemma write_extending_name_overwrites:
  assumes "opened os s es" "name_wf n" "n \<notin> fst ` set es" "find_prefix es n 1 = Some i"
    and "find_entry es k 1 = (i, Some 3176)" "0 \<le> len" "len \<le> 3072" "nat len \<le> length buffer"
  shows "\<exists>s'. sunxi_secure_object_write os s n buffer len = Some (0, s') \<and> opened os s' es \<and>
    (\<forall>out dl. sunxi_secure_object_read os s' n out dl = Some (-1, out, dl)) \<and>
    (\<forall>out dl. nat len \<le> length out \<longrightarrow>
       sunxi_secure_object_read os s' k out dl = Some (0, overlay out (take (nat len) buffer), len))"
  using object_write_shadowed [OF assms(1-4,6-8) write_protected_new [OF assms(1,3)] assms(5)]
    object_read_missing [OF _ assms(3)] by blast

lemma write_extending_name_overwrites_witness:
  "\<exists>s s'. opened demo_os s [(demo_key, 3176)] \<and>
    sunxi_secure_object_write demo_os s (demo_key @ demo_key) [5] 1 = Some (0, s') \<and>
    sunxi_secure_object_read demo_os s' demo_key [0] 0 = Some (0, [5], 1)"
proof -
  obtain s0 where s0: "opened demo_os s0 []"
    using demo_opened by blast
  have "write_protected demo_os s0 demo_key = Some False"
    by (rule write_protected_new [OF s0]) simp
  then obtain s where s: "opened demo_os s [(demo_key, 3176)]"
    using object_write_opened [OF s0 demo_key_ok, of 3 "[1, 2, 3]"] by (auto simp: fill_entries_def)
  have n: "name_wf (demo_key @ demo_key)"
    by (simp add: demo_key_def name_wf_def MAP_KEY_NAME_SIZE_def bytes_of_def)
  show ?thesis
    using write_extending_name_overwrites [OF s n, of 1 demo_key 1 "[5]"] s
    by (auto simp: demo_key_def bytes_of_def overlay_def)
qed

text \<open>
  The self-test of \<open>test.c\<close> cannot pass on an empty storage. Six of its twelve keys extend the
  names of the other six, so \<open>test_sst_init\<close> returns 0 with six entries and \<open>test_sst_verify\<close> returns 1.
\<close>

lemma self_test_fails:
  assumes "stored os s []"
  shows "\<exists>s1 s2. test_sst_init os s = Some (0, s1) \<and> stored os s1 my_entries \<and>
    test_sst_verify os s1 = Some (1, s2)"
  by (rule self_test [OF assms])

lemma self_test_fails_witness:
  "\<exists>s1 s2. test_sst_init demo_os demo_sst = Some (0, s1) \<and> test_sst_verify demo_os s1 = Some (1, s2)"
  using self_test_fails [OF demo_stored] by blast

text \<open>
  A value longer than the payload of an object is refused: \<open>secure_data_write\<close> of 3073 to 4096
  bytes returns -1, closes the storage and leaves the entries and all values as they were.
\<close>

lemma data_write_too_long:
  assumes "stored os s es" "n \<notin> fst ` set es" "3072 < len" "len \<le> 4096" "nat len \<le> length buffer"
  shows "\<exists>s'. secure_data_write os s (Some n) (Some buffer) len = Some (-1, s') \<and> stored os s' es \<and>
    first_read os s' = first_read os s"
proof -
  obtain bs where bs: "strncpy_from buffer (nat len) = Some bs"
    using assms(5) by (simp add: strncpy_from_def)
  obtain a where a: "secure_storage_support os s = Some (0, a)" "stored os a es"
    "\<And>j. 1 \<le> j \<Longrightarrow> j \<le> 31 \<Longrightarrow> item os (boot os a) j = item os (boot os s) j"
    using support_stored [OF assms(1)] by blast
  obtain b where b: "sunxi_secure_storage_init os a = Some (0, b)" "opened os b es"
    "item os b = item os (boot os a)"
    using init_stored [OF a(2)] by blast
  have "unat (word_of_int len :: u32) = nat len"
    using assms(3,4) by (simp add: unat_eq_nat_uint uint_word_of_int)
  moreover have "3072 < nat len"
    using assms(3) by (simp only: zless_nat_eq_int_zless)
  ultimately have "sunxi_secure_object_write os b n bak len = Some (-1, b)" for bak
    by (simp add: sunxi_secure_object_write_def write_protected_new [OF b(2) assms(2)] wrap_too_long)
  moreover obtain c where c: "sunxi_secure_storage_exit os b 0 = (0, c)" "stored os c es"
    "\<And>j. 1 \<le> j \<Longrightarrow> j \<le> 31 \<Longrightarrow> item os (boot os c) j = item os b j"
    using exit_opened [OF b(2)] by blast
  moreover have "first_read os c = first_read os s"
  proof (intro ext)
    show "first_read os c n out dl = first_read os s n out dl" for n out dl
      using first_read_same [OF assms(1) c(2)] a(3) b(3) c(3) by simp
  qed
  ultimately show ?thesis
    using a(1) b(1) bs assms(3,4) by (simp add: secure_data_write_def SEC_BLK_SIZE_def)
qed

lemma data_write_too_long_witness:
  "\<exists>s'. secure_data_write demo_os demo_sst (Some demo_key) (Some (replicate 4000 1)) 4000 = Some (-1, s')"
  using data_write_too_long [OF demo_stored, of demo_key 4000 "replicate 4000 1"] by auto

text \<open>
  When the loop of \<open>sunxi_secure_object_list\<close> gives up on an entry, the function returns -1 with the
  mutex held; the next \<open>sunxi_secure_storage_init\<close> of the program waits for it forever.
\<close>

lemma list_error_keeps_mutex:
  assumes "sunxi_secure_storage_init os s = Some (0, s1)" "list_from os s1 0 1 = Some (False, ls)"
  shows "sunxi_secure_object_list os s = Some (-1, ls, s1) \<and> sunxi_secure_storage_init os s1 = None"
  using assms ensuresD [OF init_mutex assms(1)]
  by (simp add: sunxi_secure_object_list_def sunxi_secure_storage_init_def)

lemma list_error_keeps_mutex_witness:
  "\<exists>s1. sunxi_secure_object_list demo_os
      (demo_sst\<lparr>secure_storage_map := [107, 58, 49, 0, 0], secure_storage_inited := True\<rparr>) = Some (-1, [], s1) \<and>
    sunxi_secure_storage_init demo_os s1 = None"
proof -
  let ?m = "[107, 58, 49, 0, 0] :: byte list"
  let ?s = "demo_sst\<lparr>secure_storage_map := ?m, secure_storage_inited := True\<rparr>"
  let ?s1 = "?s\<lparr>sec_mutex := True\<rparr>"
  have init: "sunxi_secure_storage_init demo_os ?s = Some (0, ?s1)"
    by (simp add: sunxi_secure_storage_init_def)
  have p: "parse_entry ?m 0 = Some (Some ([107], [49]))"
    by (simp add: parse_entry_def scan_name.simps scan_length.simps rd_def MAP_KEY_NAME_SIZE_def
        MAP_KEY_DATA_SIZE_def SEC_BLK_SIZE_def)
  have "nv_read demo_os ?s1 1 buf 4096 = (-1, buf)" for buf
    by (simp add: nv_read_def demo_sst_def flash_types)
  then have "sunxi_secure_object_read demo_os ?s1 [107] b 0 = Some (-1, b, 0)" for b
    using p by (simp add: sunxi_secure_object_read_def sunxi_secure_storage_read_def probe_name_in_map_def
        probe_from.simps [of ?m "[107]" 0] rd_def sunxi_secstorage_read_def SEC_BLK_SIZE_def)
  then have "list_from demo_os ?s1 0 1 = Some (False, [])"
    using p by (subst list_from.simps) (simp add: rd_def)
  from list_error_keeps_mutex [OF init this] show ?thesis
    by blast
qed

section \<open>Finding the medium\<close>

text \<open>
  On a command line of space-separated words \<open>key=value\<close> that fits the 1024-byte buffer,
  \<open>getInfoFromCmdline\<close> finds the first word with the key and copies its value, or returns -1; so a
  word \<open>boot_type=t\<close> gives the flash type \<open>t\<close>, with SPI NAND taken for NAND.
\<close>

lemma flash_type_of_boot_type:
  assumes "os_cmdline os = Some (words_line ws)" "list_all word_wf ws" "ws \<noteq> []"
    and "length (words_line ws) < 1024" "10 \<notin> set (butlast (words_line ws))"
    and "words_find ws (bytes_of ''boot_type'') = Some (dec_of_int t)" "0 \<le> t" "t < 2 ^ 31"
  shows "getInfoFromCmdline os key n =
      Some (case words_find ws key of None \<Rightarrow> (-1, None) | Some v \<Rightarrow> (0, Some (strncpy_bytes v n))) \<and>
    get_flash_type os = Some (if t = FLASH_TYPE_SPI_NAND then FLASH_TYPE_NAND else t)"
proof -
  let ?l = "words_line ws"
  have line: "fgets_line 1024 ?l = ?l"
    using assms(4,5) by (rule fgets_line_whole)
  have "dropWhile (\<lambda>c. c = SPACE) ?l \<noteq> []"
    using assms(2,3) by (rule words_line_word)
  then have info: "getInfoFromCmdline os k n = Some (case words_find ws k of None \<Rightarrow> (-1, None)
      | Some v \<Rightarrow> (0, Some (strncpy_bytes v n)))" for k n
    using assms(1) line find_key_words [OF assms(2)]
    by (simp add: getInfoFromCmdline_def split: option.splits)
  have "takeWhile (\<lambda>c. c \<noteq> 0) (strncpy_bytes (dec_of_int t) 10) = dec_of_int t"
  proof (rule strncpy_string)
    have l: "len_wf t"
      using assms(7,8) by (simp add: len_wf_def)
    show "c \<noteq> 0" if "c \<in> set (dec_of_int t)" for c
      using dec_of_int_chars [OF l that] is_digit_not by blast
    show "length (dec_of_int t) \<le> 10"
      by (rule length_dec_of_int [OF l])
  qed
  moreover have "t = 0 \<Longrightarrow> take 1 (strncpy_bytes (dec_of_int t) 10) = bytes_of ''0''"
    by (simp add: strncpy_bytes_def dec_of_int_def dec_of_nat.simps bytes_of_def)
  ultimately have "get_flash_type os = Some (if t = FLASH_TYPE_SPI_NAND then FLASH_TYPE_NAND else t)"
    using assms(6) atol_dec_of_int [OF assms(7,8)] by (auto simp: get_flash_type_def info Let_def)
  then show ?thesis
    using info by blast
qed

lemma flash_type_of_boot_type_witness:
  "getInfoFromCmdline demo_os (bytes_of ''root'') 20 = Some (-1, None) \<and> get_flash_type demo_os = Some 1"
proof -
  let ?ws = "[(bytes_of ''boot_type'', bytes_of ''1'')]"
  have "word_wf (bytes_of ''boot_type'', bytes_of ''1'')"
    "length (words_line ?ws) < 1024" "10 \<notin> set (butlast (words_line ?ws))"
    "words_find ?ws (bytes_of ''boot_type'') = Some (dec_of_int 1)"
    "words_find ?ws (bytes_of ''root'') = None"
    by (simp_all add: word_wf_def bytes_of_def dec_of_int_def dec_of_nat.simps)
  then show ?thesis
    using flash_type_of_boot_type [of demo_os ?ws 1 "bytes_of ''root''" 20]
    by (simp add: flash_types del: words_line.simps words_find.simps)
qed



section \<open>Provisioning\<close>



end
