(* ===== verification/Aactd_Wire.thy ===== *)
theory Aactd_Wire
  imports C_Prelude
begin

text \<open>
  The library of the audio control daemon, \<open>aactd-lib\<close>: the messages of \<open>communicate.c\<close>, their byte
  layout and checksum, and the full-length reads and writes of \<open>common.c\<close>. A buffer is a list of
  bytes, a pointer into it a position; an access outside the buffer is \<open>None\<close>. A buffer argument
  that may be NULL is an option; the pointers to structures are never NULL in the sources.
\<close>

section \<open>common.c\<close>

definition aactd_le_buf_to_uint16 :: "byte list \<Rightarrow> nat \<Rightarrow> u16 option" where
  "aactd_le_buf_to_uint16 b p = map_option of_le16 (slice b p 2)"

definition aactd_le_buf_to_uint32 :: "byte list \<Rightarrow> nat \<Rightarrow> u32 option" where
  "aactd_le_buf_to_uint32 b p = map_option of_le32 (slice b p 4)"

text \<open>An \<open>int32_t\<close> is its 32 bits; \<open>sint\<close> reads it.\<close>

definition aactd_le_buf_to_int32 :: "byte list \<Rightarrow> nat \<Rightarrow> u32 option" where
  "aactd_le_buf_to_int32 b p = map_option of_le32 (slice b p 4)"

definition aactd_uint16_to_le_buf :: "u16 \<Rightarrow> byte list \<Rightarrow> nat \<Rightarrow> byte list option" where
  "aactd_uint16_to_le_buf v b p = put b p (le16 v)"

definition aactd_uint32_to_le_buf :: "u32 \<Rightarrow> byte list \<Rightarrow> nat \<Rightarrow> byte list option" where
  "aactd_uint32_to_le_buf v b p = put b p (le32 v)"

definition aactd_int32_to_le_buf :: "u32 \<Rightarrow> byte list \<Rightarrow> nat \<Rightarrow> byte list option" where
  "aactd_int32_to_le_buf v b p = put b p (le32 v)"

definition aactd_calculate_checksum :: "byte list \<Rightarrow> int \<Rightarrow> byte option" where
  "aactd_calculate_checksum b buf_len = map_option (\<lambda>bs. foldl (+) 0 bs) (slice b 0 (nat buf_len))"

text \<open>
  What arrives on a connection: pieces of the peer's stream, or an error of \<open>read\<close>; after the last,
  the end of the stream. One \<open>read\<close> returns at most one piece, and at most what was asked for.
\<close>

datatype event = Piece "byte list" | Read_error

fun sock_read :: "nat \<Rightarrow> event list \<Rightarrow> byte list option \<times> event list" where
  "sock_read n [] = (Some [], [])"
| "sock_read n (Read_error # r) = (None, r)"
| "sock_read n (Piece bs # r) =
     (Some (take n bs), if length bs \<le> n then r else Piece (drop n bs) # r)"

text \<open>The loop of \<open>aactd_readn\<close>: the return value and the bytes stored, also before an error.\<close>

function aactd_readn :: "nat \<Rightarrow> event list \<Rightarrow> int \<times> byte list \<times> event list" where
  "aactd_readn left_bytes inp =
     (if left_bytes = 0 then (0, [], inp)
      else case sock_read left_bytes inp of
          (None, r) \<Rightarrow> (-1, [], r)
        | (Some bs, r) \<Rightarrow>
            if bs = [] then (0, [], r)
            else
              let (ret, bs', r) = aactd_readn (left_bytes - length bs) r
              in (if ret < 0 then -1 else int (length bs) + ret, bs @ bs', r))"
  by pat_completeness auto
termination
  by (relation "measure fst") (auto simp: neq_Nil_conv)

declare aactd_readn.simps [simp del]

text \<open>
  The loop of \<open>aactd_writen\<close>: \<open>rets\<close> are the return values of the calls of \<open>write\<close> (after the last of
  them \<open>write\<close> takes everything). The return value and the bytes that reached the peer.
\<close>

fun aactd_writen :: "int list \<Rightarrow> byte list \<Rightarrow> int \<times> byte list" where
  "aactd_writen [] bs = (int (length bs), bs)"
| "aactd_writen (ret # rets) bs =
     (if bs = [] then (0, [])
      else if ret < 0 then (-1, [])
      else if ret = 0 then (0, [])
      else
        let k = min (nat ret) (length bs);
            (n, out) = aactd_writen rets (drop k bs)
        in (if n < 0 then -1 else int k + n, take k bs @ out))"

section \<open>Messages\<close>

definition AACTD_COM_HEADER_FLAG :: byte where "AACTD_COM_HEADER_FLAG = 0xAA"
definition CMD_READ :: byte where "CMD_READ = 0"
definition CMD_WRITE :: byte where "CMD_WRITE = 1"
definition EQ_SW :: byte where "EQ_SW = 1"
definition DRC_HW :: byte where "DRC_HW = 2"

record aactd_com_header =
  h_flag :: byte
  h_version :: byte
  h_command :: byte
  h_type :: byte
  h_data_len :: u32

definition sizeof_header :: nat where "sizeof_header = 8"

definition aactd_com_buf_to_header ::
    "byte list option \<Rightarrow> aactd_com_header \<Rightarrow> (int \<times> aactd_com_header) option" where
  "aactd_com_buf_to_header buf header =
     (case buf of None \<Rightarrow> Some (-1, header)
      | Some b \<Rightarrow> do {
          h \<leftarrow> slice b 0 4;
          len \<leftarrow> aactd_le_buf_to_uint32 b 4;
          Some (0, \<lparr>h_flag = h ! 0, h_version = h ! 1, h_command = h ! 2, h_type = h ! 3, h_data_len = len\<rparr>)
        })"

definition aactd_com_header_to_buf ::
    "aactd_com_header \<Rightarrow> byte list option \<Rightarrow> (int \<times> byte list option) option" where
  "aactd_com_header_to_buf header buf =
     (case buf of None \<Rightarrow> Some (-1, None)
      | Some b \<Rightarrow> do {
          b \<leftarrow> put b 0 [h_flag header, h_version header, h_command header, h_type header];
          b \<leftarrow> aactd_uint32_to_le_buf (h_data_len header) b 4;
          Some (0, Some b)
        })"

record eq_sw_filter_arg =
  f_type :: byte
  frequency :: u32
  gain :: u32
  quality :: u32
  enabled :: byte

record eq_sw_data =
  global_enabled :: byte
  filter_num :: byte
  filter_args :: "eq_sw_filter_arg list"

record drc_hw_reg_arg =
  reg_offset :: u32
  reg_value :: u32

record drc_hw_data =
  reg_num :: u16
  reg_args :: "drc_hw_reg_arg list"

definition sizeof_filter_arg :: nat where "sizeof_filter_arg = 14"
definition sizeof_reg_arg :: nat where "sizeof_reg_arg = 8"

definition eq_sw_buf_to_filter_arg :: "byte list \<Rightarrow> nat \<Rightarrow> eq_sw_filter_arg option" where
  "eq_sw_buf_to_filter_arg b p = do {
     t \<leftarrow> rd b p;
     f \<leftarrow> aactd_le_buf_to_int32 b (p + 1);
     g \<leftarrow> aactd_le_buf_to_int32 b (p + 5);
     q \<leftarrow> aactd_le_buf_to_int32 b (p + 9);
     e \<leftarrow> rd b (p + 13);
     Some \<lparr>f_type = t, frequency = f, gain = g, quality = q, enabled = e\<rparr>
   }"

definition eq_sw_filter_arg_to_buf :: "eq_sw_filter_arg \<Rightarrow> byte list \<Rightarrow> nat \<Rightarrow> byte list option" where
  "eq_sw_filter_arg_to_buf arg b p = do {
     b \<leftarrow> put b p [f_type arg];
     b \<leftarrow> aactd_int32_to_le_buf (frequency arg) b (p + 1);
     b \<leftarrow> aactd_int32_to_le_buf (gain arg) b (p + 5);
     b \<leftarrow> aactd_int32_to_le_buf (quality arg) b (p + 9);
     put b (p + 13) [enabled arg]
   }"

definition drc_hw_buf_to_reg_arg :: "byte list \<Rightarrow> nat \<Rightarrow> drc_hw_reg_arg option" where
  "drc_hw_buf_to_reg_arg b p = do {
     off \<leftarrow> aactd_le_buf_to_uint32 b p;
     v \<leftarrow> aactd_le_buf_to_uint32 b (p + 4);
     Some \<lparr>reg_offset = off, reg_value = v\<rparr>
   }"

definition drc_hw_reg_arg_to_buf :: "drc_hw_reg_arg \<Rightarrow> byte list \<Rightarrow> nat \<Rightarrow> byte list option" where
  "drc_hw_reg_arg_to_buf arg b p = do {
     b \<leftarrow> aactd_uint32_to_le_buf (reg_offset arg) b p;
     aactd_uint32_to_le_buf (reg_value arg) b (p + 4)
   }"

text \<open>
  The loops over the arguments: \<open>n\<close> arguments of \<open>sz\<close> bytes read from position \<open>p\<close> into an array,
  and \<open>n\<close> elements of an array written from position \<open>p\<close>.
\<close>

fun read_args :: "(byte list \<Rightarrow> nat \<Rightarrow> 'a option) \<Rightarrow> nat \<Rightarrow> nat \<Rightarrow> byte list \<Rightarrow> nat \<Rightarrow> 'a list option" where
  "read_args get_arg sz 0 b p = Some []"
| "read_args get_arg sz (Suc n) b p = do {
     a \<leftarrow> get_arg b p;
     as \<leftarrow> read_args get_arg sz n b (p + sz);
     Some (a # as)
   }"

fun write_args ::
    "('a \<Rightarrow> byte list \<Rightarrow> nat \<Rightarrow> byte list option) \<Rightarrow> nat \<Rightarrow> nat \<Rightarrow> 'a list \<Rightarrow> byte list \<Rightarrow> nat \<Rightarrow> byte list option" where
  "write_args put_arg sz 0 as b p = Some b"
| "write_args put_arg sz (Suc n) [] b p = None"
| "write_args put_arg sz (Suc n) (a # as) b p = do {
     b \<leftarrow> put_arg a b p;
     write_args put_arg sz n as b (p + sz)
   }"

text \<open>\<open>cap\<close> is the number of elements of the array behind \<open>filter_args\<close>, respectively \<open>reg_args\<close>.\<close>

definition eq_sw_buf_to_data ::
    "byte list option \<Rightarrow> nat \<Rightarrow> nat \<Rightarrow> eq_sw_data \<Rightarrow> (int \<times> eq_sw_data) option" where
  "eq_sw_buf_to_data buf p cap data =
     (case buf of None \<Rightarrow> Some (-1, data)
      | Some b \<Rightarrow> do {
          g \<leftarrow> rd b p;
          n \<leftarrow> rd b (p + 1);
          if cap < unat n then None
          else do {
            as \<leftarrow> read_args eq_sw_buf_to_filter_arg sizeof_filter_arg (unat n) b (p + 2);
            Some (0, \<lparr>global_enabled = g, filter_num = n, filter_args = as\<rparr>)
          }
        })"

definition eq_sw_data_to_buf ::
    "eq_sw_data \<Rightarrow> byte list option \<Rightarrow> nat \<Rightarrow> (int \<times> byte list option) option" where
  "eq_sw_data_to_buf data buf p =
     (case buf of None \<Rightarrow> Some (-1, None)
      | Some b \<Rightarrow> do {
          b \<leftarrow> put b p [global_enabled data];
          b \<leftarrow> put b (p + 1) [filter_num data];
          b \<leftarrow> write_args eq_sw_filter_arg_to_buf sizeof_filter_arg (unat (filter_num data))
                 (filter_args data) b (p + 2);
          Some (0, Some b)
        })"

definition drc_hw_buf_to_data ::
    "byte list option \<Rightarrow> nat \<Rightarrow> nat \<Rightarrow> drc_hw_data \<Rightarrow> (int \<times> drc_hw_data) option" where
  "drc_hw_buf_to_data buf p cap data =
     (case buf of None \<Rightarrow> Some (-1, data)
      | Some b \<Rightarrow> do {
          n \<leftarrow> aactd_le_buf_to_uint16 b p;
          if cap < unat n then None
          else do {
            as \<leftarrow> read_args drc_hw_buf_to_reg_arg sizeof_reg_arg (unat n) b (p + 2);
            Some (0, \<lparr>reg_num = n, reg_args = as\<rparr>)
          }
        })"

definition drc_hw_data_to_buf ::
    "drc_hw_data \<Rightarrow> byte list option \<Rightarrow> nat \<Rightarrow> (int \<times> byte list option) option" where
  "drc_hw_data_to_buf data buf p =
     (case buf of None \<Rightarrow> Some (-1, None)
      | Some b \<Rightarrow> do {
          b \<leftarrow> aactd_uint16_to_le_buf (reg_num data) b p;
          b \<leftarrow> write_args drc_hw_reg_arg_to_buf sizeof_reg_arg (unat (reg_num data))
                 (reg_args data) b (p + 2);
          Some (0, Some b)
        })"

text \<open>A message: the header, the buffer behind \<open>data\<close> and the checksum.\<close>

record aactd_com =
  header :: aactd_com_header
  com_data :: "byte list"
  checksum :: byte

text \<open>\<open>aactd_com_copy\<close>; the destination's buffer keeps what is behind the copied bytes.\<close>

definition aactd_com_copy :: "aactd_com \<Rightarrow> aactd_com \<Rightarrow> aactd_com option" where
  "aactd_com_copy src dst = do {
     bs \<leftarrow> slice (com_data src) 0 (unat (h_data_len (header src)));
     d \<leftarrow> put (com_data dst) 0 bs;
     Some \<lparr>header = header src, com_data = d, checksum = checksum src\<rparr>
   }"

section \<open>The layout\<close>

definition header_bytes :: "aactd_com_header \<Rightarrow> byte list" where
  "header_bytes h = [h_flag h, h_version h, h_command h, h_type h] @ le32 (h_data_len h)"

definition filter_arg_bytes :: "eq_sw_filter_arg \<Rightarrow> byte list" where
  "filter_arg_bytes a = [f_type a] @ le32 (frequency a) @ le32 (gain a) @ le32 (quality a) @ [enabled a]"

definition reg_arg_bytes :: "drc_hw_reg_arg \<Rightarrow> byte list" where
  "reg_arg_bytes a = le32 (reg_offset a) @ le32 (reg_value a)"

definition eq_sw_bytes :: "eq_sw_data \<Rightarrow> byte list" where
  "eq_sw_bytes d = [global_enabled d, filter_num d] @ concat (map filter_arg_bytes (filter_args d))"

definition drc_hw_bytes :: "drc_hw_data \<Rightarrow> byte list" where
  "drc_hw_bytes d = le16 (reg_num d) @ concat (map reg_arg_bytes (reg_args d))"

text \<open>Structures whose count is the number of their arguments.\<close>

definition eq_sw_wf :: "eq_sw_data \<Rightarrow> bool" where
  "eq_sw_wf d \<longleftrightarrow> length (filter_args d) = unat (filter_num d)"

definition drc_hw_wf :: "drc_hw_data \<Rightarrow> bool" where
  "drc_hw_wf d \<longleftrightarrow> length (reg_args d) = unat (reg_num d)"

section \<open>Lemmas: consecutive stores\<close>

lemma put_bind_put:
  "put b p xs \<bind> (\<lambda>b. put b (p + length xs) ys) = put b p (xs @ ys)"
  by (auto simp: put_def ac_simps split: if_splits bind_splits)

lemma put_bind_put':
  "q = p + length xs \<Longrightarrow> put b p xs \<bind> (\<lambda>b. put b q ys \<bind> k) = put b p (xs @ ys) \<bind> k"
  using put_bind_put [of b p xs ys] by (metis Option.bind_assoc)

lemma put_nil: "p \<le> length b \<Longrightarrow> put b p [] = Some b"
  by (simp add: put_def)

lemma slice_middle: "slice (pre @ bs @ post) (length pre) (length bs) = Some bs"
  by (simp add: slice_def)

lemma slice_middle': "p = length pre \<Longrightarrow> n = length bs \<Longrightarrow> slice (pre @ bs @ post) p n = Some bs"
  by (simp add: slice_def)

lemma put_middle: "length old = length bs \<Longrightarrow> put (pre @ old @ post) (length pre) bs = Some (pre @ bs @ post)"
  by (simp add: put_def)

lemma header_to_buf:
  "aactd_com_header_to_buf h (Some b) = map_option (\<lambda>b. (0, Some b)) (put b 0 (header_bytes h))"
  by (simp add: aactd_com_header_to_buf_def aactd_uint32_to_le_buf_def header_bytes_def map_option_bind
      put_bind_put' [of 4 0] map_conv_bind_option comp_def)

lemma length_header_bytes [simp]: "length (header_bytes h) = 8"
  by (simp add: header_bytes_def)

lemma buf_to_header:
  "aactd_com_buf_to_header (Some (header_bytes h @ post)) h0 = Some (0, h)"
  by (simp add: aactd_com_buf_to_header_def aactd_le_buf_to_uint32_def header_bytes_def slice_def)

section \<open>The argument arrays\<close>

text \<open>
  A codec of arguments of a fixed size: storing writes the argument's bytes, loading them gives the
  argument back.
\<close>

locale arg_codec =
  fixes get_arg :: "byte list \<Rightarrow> nat \<Rightarrow> 'a option"
    and put_arg :: "'a \<Rightarrow> byte list \<Rightarrow> nat \<Rightarrow> byte list option"
    and arg_bytes :: "'a \<Rightarrow> byte list"
    and sz :: nat
  assumes length_arg: "length (arg_bytes a) = sz"
    and put_arg: "put_arg a b p = put b p (arg_bytes a)"
    and get_arg: "get_arg (pre @ arg_bytes a @ post) (length pre) = Some a"
begin

lemma length_args: "length (concat (map arg_bytes as)) = sz * length as"
  by (induction as) (auto simp: length_arg)

lemma write_args:
  "length as = n \<Longrightarrow> p \<le> length b \<Longrightarrow>
   write_args put_arg sz n as b p = put b p (concat (map arg_bytes as))"
proof (induction as arbitrary: n b p)
  case Nil
  then show ?case by (simp add: put_nil)
next
  case (Cons a as)
  then obtain k where n: "n = Suc k" "length as = k" by auto
  show ?case
  proof (cases "put b p (arg_bytes a)")
    case None
    then show ?thesis
      using n by (auto simp: put_arg put_def)
  next
    case (Some b')
    then have "p + sz \<le> length b'"
      using length_put [OF Some] length_arg [of a] by (simp add: put_def split: if_splits)
    then have "write_args put_arg sz k as b' (p + sz) = put b' (p + sz) (concat (map arg_bytes as))"
      by (rule Cons.IH [OF n(2)])
    then show ?thesis
      using n Some put_bind_put [of b p "arg_bytes a" "concat (map arg_bytes as)"]
      by (simp add: put_arg [of a b] length_arg)
  qed
qed

lemma read_args:
  "read_args get_arg sz (length as) (pre @ concat (map arg_bytes as) @ post) (length pre) = Some as"
proof (induction as arbitrary: pre)
  case (Cons a as)
  have "read_args get_arg sz (length as) ((pre @ arg_bytes a) @ concat (map arg_bytes as) @ post)
      (length (pre @ arg_bytes a)) = Some as"
    by (rule Cons.IH)
  then show ?case
    using get_arg [of pre a "concat (map arg_bytes as) @ post"] by (simp add: length_arg)
qed simp

end

lemma le_buf_middle:
  "aactd_le_buf_to_uint32 (pre @ le32 v @ post) (length pre) = Some v"
  "aactd_le_buf_to_int32 (pre @ le32 v @ post) (length pre) = Some v"
  by (simp_all add: aactd_le_buf_to_uint32_def aactd_le_buf_to_int32_def slice_def)

interpretation filter_codec:
  arg_codec eq_sw_buf_to_filter_arg eq_sw_filter_arg_to_buf filter_arg_bytes sizeof_filter_arg
proof unfold_locales
  show "length (filter_arg_bytes a) = sizeof_filter_arg" for a
    by (simp add: filter_arg_bytes_def sizeof_filter_arg_def)
  show "eq_sw_filter_arg_to_buf a b p = put b p (filter_arg_bytes a)" for a b p
    by (simp add: eq_sw_filter_arg_to_buf_def aactd_int32_to_le_buf_def put_bind_put'
        put_bind_put [of b p "[_] @ le32 _ @ le32 _ @ le32 _" "[_]", simplified] filter_arg_bytes_def)
  show "eq_sw_buf_to_filter_arg (pre @ filter_arg_bytes a @ post) (length pre) = Some a" for pre a post
    by (simp add: eq_sw_buf_to_filter_arg_def filter_arg_bytes_def rd_def nth_append
        aactd_le_buf_to_int32_def slice_def)
qed

interpretation reg_codec:
  arg_codec drc_hw_buf_to_reg_arg drc_hw_reg_arg_to_buf reg_arg_bytes sizeof_reg_arg
proof unfold_locales
  show "length (reg_arg_bytes a) = sizeof_reg_arg" for a
    by (simp add: reg_arg_bytes_def sizeof_reg_arg_def)
  show "drc_hw_reg_arg_to_buf a b p = put b p (reg_arg_bytes a)" for a b p
    using put_bind_put [of b p "le32 (reg_offset a)" "le32 (reg_value a)"]
    by (simp add: drc_hw_reg_arg_to_buf_def aactd_uint32_to_le_buf_def reg_arg_bytes_def)
  show "drc_hw_buf_to_reg_arg (pre @ reg_arg_bytes a @ post) (length pre) = Some a" for pre a post
    by (simp add: drc_hw_buf_to_reg_arg_def reg_arg_bytes_def aactd_le_buf_to_uint32_def slice_def)
qed

section \<open>Lemmas: the data of a message\<close>

lemma length_eq_sw_bytes: "eq_sw_wf d \<Longrightarrow> length (eq_sw_bytes d) = 2 + 14 * unat (filter_num d)"
  by (simp add: eq_sw_bytes_def eq_sw_wf_def filter_codec.length_args) (simp add: sizeof_filter_arg_def)

lemma length_drc_hw_bytes: "drc_hw_wf d \<Longrightarrow> length (drc_hw_bytes d) = 2 + 8 * unat (reg_num d)"
  by (simp add: drc_hw_bytes_def drc_hw_wf_def reg_codec.length_args) (simp add: sizeof_reg_arg_def)

lemma eq_sw_data_to_buf_put:
  assumes "eq_sw_wf d" "p + 2 \<le> length b"
  shows "eq_sw_data_to_buf d (Some b) p = map_option (\<lambda>b. (0, Some b)) (put b p (eq_sw_bytes d))"
proof -
  obtain b1 where b1: "put b p [global_enabled d, filter_num d] = Some b1"
    using assms(2) by (simp add: put_def)
  then have "p + 2 \<le> length b1"
    using assms(2) length_put by simp
  then have w: "write_args eq_sw_filter_arg_to_buf sizeof_filter_arg (unat (filter_num d)) (filter_args d) b1 (p + 2) =
      put b1 (p + 2) (concat (map filter_arg_bytes (filter_args d)))"
    using assms(1) by (intro filter_codec.write_args) (simp_all add: eq_sw_wf_def)
  have "eq_sw_data_to_buf d (Some b) p = (put b p [global_enabled d, filter_num d] \<bind> (\<lambda>b.
      write_args eq_sw_filter_arg_to_buf sizeof_filter_arg (unat (filter_num d)) (filter_args d) b (p + 2) \<bind>
      (\<lambda>b. Some (0, Some b))))"
    by (simp add: eq_sw_data_to_buf_def put_bind_put')
  also have "\<dots> = (put b p [global_enabled d, filter_num d] \<bind> (\<lambda>b.
      put b (p + 2) (concat (map filter_arg_bytes (filter_args d))))) \<bind> (\<lambda>b. Some (0, Some b))"
    using b1 w by simp
  also have "\<dots> = put b p (eq_sw_bytes d) \<bind> (\<lambda>b. Some (0, Some b))"
    using put_bind_put [of b p "[global_enabled d, filter_num d]"] by (simp add: eq_sw_bytes_def)
  finally show ?thesis
    by (simp add: map_conv_bind_option comp_def)
qed

lemma drc_hw_data_to_buf_put:
  assumes "drc_hw_wf d" "p + 2 \<le> length b"
  shows "drc_hw_data_to_buf d (Some b) p = map_option (\<lambda>b. (0, Some b)) (put b p (drc_hw_bytes d))"
proof -
  obtain b1 where b1: "put b p (le16 (reg_num d)) = Some b1"
    using assms(2) by (simp add: put_def)
  then have "p + 2 \<le> length b1"
    using assms(2) length_put by simp
  then have w: "write_args drc_hw_reg_arg_to_buf sizeof_reg_arg (unat (reg_num d)) (reg_args d) b1 (p + 2) =
      put b1 (p + 2) (concat (map reg_arg_bytes (reg_args d)))"
    using assms(1) by (intro reg_codec.write_args) (simp_all add: drc_hw_wf_def)
  have "drc_hw_data_to_buf d (Some b) p = (put b p (le16 (reg_num d)) \<bind> (\<lambda>b.
      put b (p + 2) (concat (map reg_arg_bytes (reg_args d))))) \<bind> (\<lambda>b. Some (0, Some b))"
    using b1 w by (simp add: drc_hw_data_to_buf_def aactd_uint16_to_le_buf_def)
  also have "\<dots> = put b p (drc_hw_bytes d) \<bind> (\<lambda>b. Some (0, Some b))"
    using put_bind_put [of b p "le16 (reg_num d)"] by (simp add: drc_hw_bytes_def)
  finally show ?thesis
    by (simp add: map_conv_bind_option comp_def)
qed

lemma eq_sw_buf_to_data_bytes:
  assumes "eq_sw_wf d" "unat (filter_num d) \<le> cap"
  shows "eq_sw_buf_to_data (Some (pre @ eq_sw_bytes d @ post)) (length pre) cap d0 = Some (0, d)"
proof -
  have "read_args eq_sw_buf_to_filter_arg sizeof_filter_arg (length (filter_args d))
      ((pre @ [global_enabled d, filter_num d]) @ concat (map filter_arg_bytes (filter_args d)) @ post)
      (length (pre @ [global_enabled d, filter_num d])) = Some (filter_args d)"
    by (rule filter_codec.read_args)
  then show ?thesis
    using assms by (simp add: eq_sw_buf_to_data_def eq_sw_bytes_def eq_sw_wf_def rd_def nth_append)
qed

lemma drc_hw_buf_to_data_bytes:
  assumes "drc_hw_wf d" "unat (reg_num d) \<le> cap"
  shows "drc_hw_buf_to_data (Some (pre @ drc_hw_bytes d @ post)) (length pre) cap d0 = Some (0, d)"
proof -
  have "read_args drc_hw_buf_to_reg_arg sizeof_reg_arg (length (reg_args d))
      ((pre @ le16 (reg_num d)) @ concat (map reg_arg_bytes (reg_args d)) @ post)
      (length (pre @ le16 (reg_num d))) = Some (reg_args d)"
    by (rule reg_codec.read_args)
  then show ?thesis
    using assms by (simp add: drc_hw_buf_to_data_def drc_hw_bytes_def drc_hw_wf_def
        aactd_le_buf_to_uint16_def slice_def)
qed

section \<open>Lemmas: checksum\<close>

lemma foldl_sum: "foldl (+) s bs = s + foldl (+) 0 bs" for s :: byte
  by (induction bs rule: rev_induct) (auto simp: add.assoc)

lemma foldl_sum_append: "foldl (+) 0 (xs @ ys) = foldl (+) 0 xs + foldl (+) (0 :: byte) ys"
  using foldl_sum [of "foldl (+) 0 xs" ys] by simp

text \<open>Changing a single byte changes the sum.\<close>

lemma sum_single_byte:
  "foldl (+) 0 (pre @ x # post) = foldl (+) 0 (pre @ y # post) \<longleftrightarrow> x = y" for x y :: byte
proof -
  have "foldl (+) 0 (pre @ z # post) = foldl (+) 0 pre + (z + foldl (+) 0 post)" for z :: byte
    using foldl_sum_append [of pre "z # post"] foldl_sum [of z post] by (simp del: foldl_append)
  then show ?thesis
    by simp
qed

section \<open>Lemmas: streams\<close>

text \<open>The bytes of an input without read errors.\<close>

fun clean :: "event list \<Rightarrow> bool" where
  "clean [] = True"
| "clean (Piece bs # r) = (bs \<noteq> [] \<and> clean r)"
| "clean (Read_error # r) = False"

fun stream :: "event list \<Rightarrow> byte list" where
  "stream [] = []"
| "stream (Piece bs # r) = bs @ stream r"
| "stream (Read_error # r) = stream r"

lemma sock_read_clean:
  assumes "clean inp" "0 < n"
  shows "\<exists>bs r. sock_read n inp = (Some bs, r) \<and> clean r \<and> stream inp = bs @ stream r \<and>
    length bs \<le> n \<and> (bs = [] \<longleftrightarrow> stream inp = [])"
proof (cases inp)
  case (Cons e r)
  then obtain bs where "e = Piece bs" "bs \<noteq> []" "clean r"
    using assms(1) by (cases e) auto
  then show ?thesis
    using Cons assms(2)
    by (intro exI [of _ "take n bs"] exI [of _ "if length bs \<le> n then r else Piece (drop n bs) # r"]) simp
qed simp

lemma readn_clean:
  "clean inp \<Longrightarrow> \<exists>r. aactd_readn n inp = (int (length (take n (stream inp))), take n (stream inp), r) \<and>
     clean r \<and> stream r = drop n (stream inp)"
proof (induction n inp rule: aactd_readn.induct)
  case (1 n inp)
  show ?case
  proof (cases "n = 0")
    case True
    then show ?thesis
      using 1 by (subst aactd_readn.simps) simp
  next
    case False
    then obtain bs r where b: "sock_read n inp = (Some bs, r)" "clean r" "stream inp = bs @ stream r"
      "length bs \<le> n" "bs = [] \<longleftrightarrow> stream inp = []"
      using sock_read_clean [of inp n] 1 by auto
    show ?thesis
    proof (cases "bs = []")
      case True
      have "aactd_readn n inp = (0, [], r)"
        using b(1) True False by (subst aactd_readn.simps) simp
      moreover have "stream r = []" "stream inp = []"
        using b(3,5) True by simp_all
      ultimately show ?thesis
        using b(2) by simp
    next
      case ne: False
      let ?t = "take (n - length bs) (stream r)"
      obtain r' where r': "aactd_readn (n - length bs) r = (int (length ?t), ?t, r')"
        "clean r'" "stream r' = drop (n - length bs) (stream r)"
        using 1(1) [OF False b(1) [symmetric] refl ne b(2)] by blast
      then have "aactd_readn n inp = (int (length bs) + int (length ?t), bs @ ?t, r')"
        using b(1) False ne by (subst aactd_readn.simps) simp
      moreover have "take n (stream inp) = bs @ ?t" "stream r' = drop n (stream inp)"
        using b(3,4) r'(3) by simp_all
      ultimately show ?thesis
        using r'(2) by simp
    qed
  qed
qed

text \<open>How much input is left: every byte and every error counts.\<close>

fun weight :: "event list \<Rightarrow> nat" where
  "weight [] = 0"
| "weight (Piece bs # r) = Suc (length bs) + weight r"
| "weight (Read_error # r) = Suc (weight r)"

lemma sock_read_weight: "sock_read n inp = (b, r) \<Longrightarrow> weight r \<le> weight inp \<and> (b \<noteq> Some [] \<longrightarrow> weight r < weight inp)"
proof (cases inp)
  case (Cons e r')
  then show "sock_read n inp = (b, r) \<Longrightarrow> ?thesis"
    by (cases e) (auto split: if_splits)
qed simp

lemma readn_weight:
  "aactd_readn n inp = (ret, bs, r) \<Longrightarrow>
   weight r \<le> weight inp \<and> (bs \<noteq> [] \<or> ret < 0 \<longrightarrow> weight r < weight inp) \<and> length bs \<le> n \<and>
   (0 \<le> ret \<longrightarrow> ret = int (length bs))"
proof (induction n inp arbitrary: ret bs r rule: aactd_readn.induct)
  case (1 n inp)
  obtain b1 r1 where s: "sock_read n inp = (b1, r1)" by force
  note w = sock_read_weight [OF s]
  show ?case
  proof (cases "n = 0 \<or> b1 = None \<or> b1 = Some []")
    case True
    then show ?thesis
      using 1(2) s w by (subst (asm) aactd_readn.simps) (auto split: if_splits)
  next
    case False
    then obtain bs1 where b1: "n \<noteq> 0" "b1 = Some bs1" "bs1 \<noteq> []" by auto
    obtain ret2 bs2 r2 where n: "aactd_readn (n - length bs1) r1 = (ret2, bs2, r2)"
      by (cases "aactd_readn (n - length bs1) r1")
    have IH: "weight r2 \<le> weight r1" "length bs2 \<le> n - length bs1" "0 \<le> ret2 \<longrightarrow> ret2 = int (length bs2)"
      using 1(1) [OF b1(1) s [symmetric] b1(2,3) n] by simp_all
    have "length bs1 \<le> n"
      using s b1(2) by (cases "(n, inp)" rule: sock_read.cases) auto
    moreover have "ret = (if ret2 < 0 then -1 else int (length bs1) + ret2)" "bs = bs1 @ bs2" "r = r2"
      using 1(2) s n b1 by (subst (asm) aactd_readn.simps; simp)+
    ultimately show ?thesis
      using IH w b1(2,3) by auto
  qed
qed

end
