(* ===== verification/Aactd_Daemon.thy ===== *)
theory Aactd_Daemon
  imports Aactd_Wire
begin

text \<open>
  The audio control daemon: the local processing of \<open>eq_sw.c\<close>, \<open>drc_hw.c\<close> and \<open>local.c\<close>, the
  connection loop of \<open>main.c\<close> over an arbitrary input, and the test client that builds messages.
  \<open>None\<close> is an access outside a buffer, or a wait for a thread that does not end.
\<close>

section \<open>State\<close>

text \<open>
  \<open>local_com_buf\<close> is one buffer; \<open>local_com.data\<close> points behind its header. \<open>published\<close> records the
  message in it at each broadcast, \<open>reg_writes\<close> what was written to the register file.
\<close>

record aactd =
  com_buf_len_max :: u32
  remote_com_buf :: "byte list"
  remote_header :: aactd_com_header
  local_header :: aactd_com_header
  local_com_buf :: "byte list"
  local_checksum :: byte
  local_data :: drc_hw_data
  published :: "byte list list"
  reg_writes :: "byte list list"

text \<open>
  The build's base address, whether the register file opens, and the result of the \<open>i\<close>-th \<open>write\<close> of \<open>n\<close>
  bytes to it.
\<close>

record drc_env =
  DRC_HW_REG_BASE_ADDR :: u32
  drc_open :: bool
  drc_write :: "nat \<Rightarrow> nat \<Rightarrow> int"

section \<open>eq_sw.c\<close>

definition sizeof_com :: "u32 \<Rightarrow> u32" where
  "sizeof_com data_len = 8 + data_len + 1"

text \<open>\<open>eq_sw_write_com_to_local\<close>: \<open>data\<close> is the remote buffer behind the header.\<close>

definition eq_sw_write_com_to_local :: "aactd \<Rightarrow> aactd_com \<Rightarrow> (int \<times> aactd) option" where
  "eq_sw_write_com_to_local s com = do {
     local_com \<leftarrow> aactd_com_copy com
       \<lparr>header = local_header s, com_data = drop sizeof_header (local_com_buf s), checksum = local_checksum s\<rparr>;
     let buf = take sizeof_header (local_com_buf s) @ com_data local_com;
     (_, buf) \<leftarrow> aactd_com_header_to_buf (header local_com) (Some buf);
     buf \<leftarrow> buf;
     let com_buf_actual_len = sizeof_com (h_data_len (header local_com));
     c \<leftarrow> aactd_calculate_checksum buf (sint (com_buf_actual_len - 1));
     buf \<leftarrow> put buf (unat (com_buf_actual_len - 1)) [c];
     Some (0, s\<lparr>local_header := header local_com, local_com_buf := buf, local_checksum := c,
       published := published s @ [take (unat com_buf_actual_len) buf]\<rparr>)
   }"

section \<open>drc_hw.c\<close>

definition hex_digit :: "u32 \<Rightarrow> byte" where
  "hex_digit d = (if d < 10 then 48 + ucast d else 87 + ucast d)"

text \<open>\<open>%08x\<close>.\<close>

definition hex8 :: "u32 \<Rightarrow> cstr" where
  "hex8 w = map (\<lambda>i. hex_digit (take_bit 4 (drop_bit (4 * i) w))) [7, 6, 5, 4, 3, 2, 1, 0]"

text \<open>The text \<open>snprintf\<close> leaves in \<open>buf[22]\<close>.\<close>

definition reg_text :: "u32 \<Rightarrow> u32 \<Rightarrow> cstr" where
  "reg_text addr v =
     take 21 (bytes_of ''0x'' @ hex8 addr @ bytes_of '' 0x'' @ hex8 v)"

fun drc_write_regs :: "drc_env \<Rightarrow> nat \<Rightarrow> drc_hw_reg_arg list \<Rightarrow> int \<times> byte list list" where
  "drc_write_regs env i [] = (0, [])"
| "drc_write_regs env i (a # as) =
     (let buf = reg_text (DRC_HW_REG_BASE_ADDR env + reg_offset a) (reg_value a);
          ret = drc_write env i (length buf)
      in if ret < 0 then (ret, [])
         else if ret < int (length buf) then (-1, [take (nat ret) buf])
         else let (r, ws) = drc_write_regs env (Suc i) as in (r, buf # ws))"

definition drc_hw_data_set :: "drc_env \<Rightarrow> drc_hw_data \<Rightarrow> (int \<times> byte list list) option" where
  "drc_hw_data_set env data =
     (if \<not> drc_open env then Some (-1, [])
      else if length (reg_args data) < unat (reg_num data) then None
      else Some (drc_write_regs env 0 (take (unat (reg_num data)) (reg_args data))))"

text \<open>\<open>local_data.reg_args\<close> has \<open>com_buf_len_max\<close> bytes.\<close>

definition drc_hw_write_com_to_local :: "drc_env \<Rightarrow> aactd \<Rightarrow> aactd_com \<Rightarrow> (int \<times> aactd) option" where
  "drc_hw_write_com_to_local env s com = do {
     (ret, d) \<leftarrow> drc_hw_buf_to_data (Some (com_data com)) 0 (unat (com_buf_len_max s) div sizeof_reg_arg)
       (local_data s);
     let s = s\<lparr>local_data := d\<rparr>;
     if ret < 0 then Some (ret, s)
     else do {
       (ret, ws) \<leftarrow> drc_hw_data_set env d;
       Some (if ret < 0 then ret else 0, s\<lparr>reg_writes := reg_writes s @ ws\<rparr>)
     }
   }"

section \<open>local.c\<close>

definition write_com_to_local :: "drc_env \<Rightarrow> aactd \<Rightarrow> aactd_com \<Rightarrow> (int \<times> aactd) option" where
  "write_com_to_local env s com =
     (if h_type (header com) = EQ_SW then do {
        (ret, s) \<leftarrow> eq_sw_write_com_to_local s com;
        Some (if ret < 0 then ret else 0, s)
      }
      else if h_type (header com) = DRC_HW then do {
        (ret, s) \<leftarrow> drc_hw_write_com_to_local env s com;
        Some (if ret < 0 then ret else 0, s)
      }
      else Some (0, s))"

definition read_com_from_local :: "aactd_com \<Rightarrow> int" where
  "read_com_from_local com = -1"

text \<open>
  Initialisation, by whether the two allocations and the thread creation succeed. The buffers are
  the parameter's indeterminate bytes. \<open>eq_sw_local_release\<close> joins the server thread, whose loop has
  no exit once it listens.
\<close>

record init_env =
  eq_malloc :: bool
  drc_malloc :: bool
  thread_created :: bool
  server_ends :: bool
  fresh_bytes :: "nat \<Rightarrow> byte list"

definition eq_sw_local_init :: "init_env \<Rightarrow> aactd \<Rightarrow> int \<times> aactd" where
  "eq_sw_local_init e s =
     (if \<not> eq_malloc e then (-12, s)
      else
        let s = s\<lparr>local_com_buf := fresh_bytes e (unat (com_buf_len_max s)),
                 local_header := (local_header s)\<lparr>h_data_len := 0\<rparr>\<rparr>
        in if \<not> thread_created e then (-1, s\<lparr>local_com_buf := []\<rparr>) else (0, s))"

definition eq_sw_local_release :: "init_env \<Rightarrow> aactd \<Rightarrow> (int \<times> aactd) option" where
  "eq_sw_local_release e s =
     (if \<not> server_ends e then None else Some (0, s\<lparr>local_com_buf := []\<rparr>))"

definition drc_hw_local_init :: "init_env \<Rightarrow> aactd \<Rightarrow> int \<times> aactd" where
  "drc_hw_local_init e s =
     (if \<not> drc_malloc e then (-12, s\<lparr>local_data := (local_data s)\<lparr>reg_num := 0\<rparr>\<rparr>)
      else (0, s\<lparr>local_data := \<lparr>reg_num = 0, reg_args = []\<rparr>\<rparr>))"

definition local_process_init :: "init_env \<Rightarrow> aactd \<Rightarrow> (int \<times> aactd) option" where
  "local_process_init e s =
     (let (ret, s) = eq_sw_local_init e s
      in if ret < 0 then Some (ret, s)
         else
           let (ret, s) = drc_hw_local_init e s
           in if ret < 0 then map_option (\<lambda>(_, s). (ret, s)) (eq_sw_local_release e s)
              else Some (0, s))"

section \<open>main.c\<close>

text \<open>The checksum and the command, once a whole message is in the buffer.\<close>

definition handle_com :: "drc_env \<Rightarrow> aactd \<Rightarrow> aactd option" where
  "handle_com env s = do {
     let hdr = remote_header s;
     let actual_len = sizeof_com (h_data_len hdr);
     c \<leftarrow> rd (remote_com_buf s) (sizeof_header + unat (h_data_len hdr));
     cal \<leftarrow> aactd_calculate_checksum (remote_com_buf s) (sint (actual_len - 1));
     if c \<noteq> cal then Some s
     else if h_command hdr = CMD_WRITE then
       map_option snd (write_com_to_local env s
         \<lparr>header = hdr, com_data = drop sizeof_header (remote_com_buf s), checksum = c\<rparr>)
     else Some s
   }"

text \<open>
  One pass of the loop over a connection: whether the loop goes on, the state and the unread input.
\<close>

definition receive :: "drc_env \<Rightarrow> aactd \<Rightarrow> event list \<Rightarrow> (bool \<times> aactd \<times> event list) option" where
  "receive env s inp =
     (let (ret, h, r) = aactd_readn sizeof_header inp
      in do {
        b \<leftarrow> put (remote_com_buf s) 0 h;
        let s = s\<lparr>remote_com_buf := b\<rparr>;
        if ret < 0 then Some (False, s, r)
        else if ret = 0 then Some (False, s, r)
        else if ret < int sizeof_header then Some (True, s, r)
        else do {
          (_, hdr) \<leftarrow> aactd_com_buf_to_header (Some b) (remote_header s);
          let s = s\<lparr>remote_header := hdr\<rparr>;
          let len = h_data_len hdr;
          if h_flag hdr \<noteq> AACTD_COM_HEADER_FLAG then Some (True, s, r)
          else if com_buf_len_max s < sizeof_com len then Some (True, s, r)
          else
            let (ret, d, r) = aactd_readn (unat (len + 1)) r
            in do {
              b \<leftarrow> put b sizeof_header d;
              let s = s\<lparr>remote_com_buf := b\<rparr>;
              if ret < 0 then Some (False, s, r)
              else if ret = 0 then Some (False, s, r)
              else if ret < int (unat (len + 1)) then Some (True, s, r)
              else map_option (\<lambda>s. (True, s, r)) (handle_com env s)
            }
        }
      })"

lemma receive_weight: "receive env s inp = Some (True, s', r') \<Longrightarrow> weight r' < weight inp"
proof -
  assume rec: "receive env s inp = Some (True, s', r')"
  obtain ret h r where n: "aactd_readn sizeof_header inp = (ret, h, r)"
    by (cases "aactd_readn sizeof_header inp")
  obtain len where "r' = r \<or> r' = snd (snd (aactd_readn len r))" "0 < ret"
    using rec n by (auto simp: receive_def Let_def Option.bind_eq_Some_conv case_prod_beta split: if_splits)
  moreover have "weight (snd (snd (aactd_readn k r))) \<le> weight r" for k
    using readn_weight [of k r] by (cases "aactd_readn k r") simp
  moreover have "0 < ret \<Longrightarrow> weight r < weight inp"
    using readn_weight [OF n] by auto
  ultimately show ?thesis
    by (metis order_le_less_trans)
qed

function session :: "drc_env \<Rightarrow> aactd \<Rightarrow> event list \<Rightarrow> (aactd \<times> event list) option" where
  "session env s inp =
     (case receive env s inp of
        None \<Rightarrow> None
      | Some (go_on, s', r) \<Rightarrow> if go_on then session env s' r else Some (s', r))"
  by pat_completeness auto
termination
  by (relation "measure (\<lambda>(env, s, inp). weight inp)") (auto dest: receive_weight)

declare session.simps [simp del]

text \<open>Connections are served one after the other.\<close>

fun serve :: "drc_env \<Rightarrow> aactd \<Rightarrow> event list list \<Rightarrow> aactd option" where
  "serve env s [] = Some s"
| "serve env s (inp # inps) =
     (case session env s inp of None \<Rightarrow> None | Some (s', _) \<Rightarrow> serve env s' inps)"

definition COM_BUF_LEN_MAX_DEFAULT :: u32 where "COM_BUF_LEN_MAX_DEFAULT = 1024"

text \<open>
  The results of \<open>getopt_long\<close> with the number \<open>atoi\<close> makes of the argument; the port and the verbosity
  have no effect here. \<open>Inl\<close> is the value \<open>main\<close> returns at once.
\<close>

datatype main_opt = Opt_help | Opt_buffer_length u32 | Opt_port int | Opt_verbose int | Opt_invalid

fun main_options :: "main_opt list \<Rightarrow> u32 \<Rightarrow> int + u32" where
  "main_options [] len = Inr len"
| "main_options (Opt_help # os) len = Inl 0"
| "main_options (Opt_buffer_length n # os) len = main_options os n"
| "main_options (Opt_port p # os) len = main_options os len"
| "main_options (Opt_verbose v # os) len = main_options os len"
| "main_options (Opt_invalid # os) len = Inl (-1)"

text \<open>
  The system calls of \<open>main\<close> up to its loop; \<open>Inl\<close> is what \<open>main\<close> returns, \<open>Inr\<close> the state after the
  connections that came in so far.
\<close>

record main_env =
  local_init :: init_env
  remote_malloc :: bool
  remote_bytes :: "nat \<Rightarrow> byte list"
  socket_ret :: int
  bind_ret :: int
  listen_ret :: int

definition drc_hw_local_release :: "aactd \<Rightarrow> int \<times> aactd" where
  "drc_hw_local_release s = (0, s\<lparr>local_data := (local_data s)\<lparr>reg_args := []\<rparr>\<rparr>)"

definition local_process_release :: "init_env \<Rightarrow> aactd \<Rightarrow> (int \<times> aactd) option" where
  "local_process_release e s =
     map_option (\<lambda>(_, s). (0, snd (drc_hw_local_release s))) (eq_sw_local_release e s)"

definition daemon_main ::
    "main_env \<Rightarrow> drc_env \<Rightarrow> main_opt list \<Rightarrow> aactd \<Rightarrow> event list list \<Rightarrow> (int + aactd) option" where
  "daemon_main e env os s inps =
     (case main_options os COM_BUF_LEN_MAX_DEFAULT of
        Inl ret \<Rightarrow> Some (Inl ret)
      | Inr len \<Rightarrow> do {
          (ret, s) \<leftarrow> local_process_init (local_init e) (s\<lparr>com_buf_len_max := len\<rparr>);
          let release = (\<lambda>ret s. map_option (\<lambda>_. Inl ret) (local_process_release (local_init e) s));
          if ret < 0 then Some (Inl ret)
          else if \<not> remote_malloc e then release (-12) s
          else let s = s\<lparr>remote_com_buf := remote_bytes e (unat len)\<rparr> in
          if socket_ret e < 0 then release (-1) s
          else if bind_ret e < 0 then release (bind_ret e) s
          else if listen_ret e < 0 then release (listen_ret e) s
          else map_option Inr (serve env s inps)
        })"

section \<open>The test client\<close>

definition COM_BUF_LEN_DEFAULT :: nat where "COM_BUF_LEN_DEFAULT = 1024"

text \<open>
  What \<open>client.c\<close> does for either type of message: header, data, checksum; \<open>put_data\<close> stores the data
  behind the header.
\<close>

definition client_message ::
    "byte \<Rightarrow> u32 \<Rightarrow> (byte list option \<Rightarrow> nat \<Rightarrow> (int \<times> byte list option) option) \<Rightarrow> byte list \<Rightarrow> byte list option" where
  "client_message t data_len put_data com_buf = do {
     (_, b) \<leftarrow> aactd_com_header_to_buf
       \<lparr>h_flag = 0xAA, h_version = 1, h_command = CMD_WRITE, h_type = t, h_data_len = data_len\<rparr> (Some com_buf);
     (_, b) \<leftarrow> put_data b sizeof_header;
     b \<leftarrow> b;
     let com_buf_actual_len = sizeof_com data_len;
     c \<leftarrow> aactd_calculate_checksum b (sint (com_buf_actual_len - 1));
     b \<leftarrow> put b (unat (com_buf_actual_len - 1)) [c];
     slice b 0 (unat com_buf_actual_len)
   }"

definition client_eq_sw :: "eq_sw_data \<Rightarrow> byte list \<Rightarrow> byte list option" where
  "client_eq_sw d com_buf =
     client_message EQ_SW (2 + 14 * ucast (filter_num d)) (eq_sw_data_to_buf d) com_buf"

definition client_drc_hw :: "drc_hw_data \<Rightarrow> byte list \<Rightarrow> byte list option" where
  "client_drc_hw d com_buf =
     client_message DRC_HW (2 + 8 * ucast (reg_num d)) (drc_hw_data_to_buf d) com_buf"

text \<open>The data the client sends for \<open>--eq\<close> and \<open>--drc\<close>.\<close>

definition test_eq_sw_data :: eq_sw_data where
  "test_eq_sw_data = \<lparr>global_enabled = 1, filter_num = 2, filter_args =
     [\<lparr>f_type = 1, frequency = 1000, gain = -12, quality = 150, enabled = 1\<rparr>,
      \<lparr>f_type = 1, frequency = 9000, gain = -12, quality = 220, enabled = 0\<rparr>]\<rparr>"

definition test_drc_hw_data :: drc_hw_data where
  "test_drc_hw_data = \<lparr>reg_num = 7, reg_args =
     map (\<lambda>(a, v). \<lparr>reg_offset = a, reg_value = v\<rparr>)
       [(0xF0, 0xA0000000), (0x108, 0x00FB), (0x10C, 0x000B), (0x110, 0x77F0), (0x114, 0x000B),
        (0x118, 0x77F0), (0x11C, 0x00FF)]\<rparr>"

section \<open>Lemmas: whole messages\<close>

definition frame :: "aactd_com_header \<Rightarrow> byte list \<Rightarrow> byte list" where
  "frame h d = header_bytes h @ d @ [foldl (+) 0 (header_bytes h @ d)]"

lemma length_frame [simp]: "length (frame h d) = 9 + length d"
  by (simp add: frame_def)

definition daemon_wf :: "aactd \<Rightarrow> bool" where
  "daemon_wf s \<longleftrightarrow>
     length (remote_com_buf s) = unat (com_buf_len_max s) \<and>
     length (local_com_buf s) = unat (com_buf_len_max s) \<and>
     9 \<le> unat (com_buf_len_max s) \<and> unat (com_buf_len_max s) < 2 ^ 31"

lemma unat_sizeof_com:
  assumes "unat len + 9 < 2 ^ 32"
  shows "unat (sizeof_com len) = unat len + 9" "unat (sizeof_com len - 1) = unat len + 8"
proof -
  have "unat (len + 9) = unat len + 9" "unat (len + 8) = unat len + 8"
    using assms by (simp_all add: unat_word_ariths)
  then show "unat (sizeof_com len) = unat len + 9" "unat (sizeof_com len - 1) = unat len + 8"
    by (simp_all add: sizeof_com_def algebra_simps)
qed

lemma sint_sizeof_com: "unat len + 9 < 2 ^ 31 \<Longrightarrow> sint (sizeof_com len - 1) = int (unat len + 8)"
  using unat_sizeof_com [of len] by (subst sint_small) simp_all

lemma checksum_of_prefix:
  "length bs = n \<Longrightarrow> aactd_calculate_checksum (bs @ r) (int n) = Some (foldl (+) 0 bs)"
  by (simp add: aactd_calculate_checksum_def slice_def)

text \<open>Publishing equalizer parameters puts the message, with its own checksum, into the local buffer.\<close>

lemma eq_sw_write_frame:
  assumes wf: "daemon_wf s" and d: "length d = unat (h_data_len h)" "9 + length d \<le> unat (com_buf_len_max s)"
    and c: "header com = h" "take (length d) (com_data com) = d" "length d \<le> length (com_data com)"
  shows "\<exists>c'. eq_sw_write_com_to_local s com = Some (0, s\<lparr>local_header := h,
      local_com_buf := frame h d @ drop (9 + length d) (local_com_buf s), local_checksum := c',
      published := published s @ [frame h d]\<rparr>)"
proof -
  let ?L = "local_com_buf s" and ?n = "length d"
  let ?c = "foldl (+) 0 (header_bytes h @ d) :: byte"
  have len: "length ?L = unat (com_buf_len_max s)"
    using wf by (simp add: daemon_wf_def)
  have b: "unat (h_data_len h) + 9 < 2 ^ 31"
    using wf d by (simp add: daemon_wf_def)
  have u: "unat (sizeof_com (h_data_len h)) = ?n + 9" "unat (sizeof_com (h_data_len h) - 1) = ?n + 8"
    "sint (sizeof_com (h_data_len h) - 1) = int (?n + 8)"
    using unat_sizeof_com [of "h_data_len h"] sint_sizeof_com [OF b] b d(1) by simp_all
  have copy: "aactd_com_copy com \<lparr>header = local_header s, com_data = drop sizeof_header ?L, checksum = local_checksum s\<rparr>
      = Some \<lparr>header = h, com_data = d @ drop (8 + ?n) ?L, checksum = checksum com\<rparr>"
    using c d len by (simp add: aactd_com_copy_def slice_def put_def sizeof_header_def add.commute)
  have buf: "put (take 8 ?L @ d @ drop (8 + ?n) ?L) 0 (header_bytes h) =
      Some (header_bytes h @ d @ drop (8 + ?n) ?L)"
    using d len by (simp add: put_def)
  have sum: "aactd_calculate_checksum (header_bytes h @ d @ drop (8 + ?n) ?L) (int (?n + 8)) = Some ?c"
    using checksum_of_prefix [of "header_bytes h @ d" "?n + 8"] by simp
  obtain x r where x: "drop (8 + ?n) ?L = x # r"
    using d(2) len by (cases "drop (8 + ?n) ?L") auto
  then have "drop (1 + (8 + ?n)) ?L = r"
    unfolding drop_drop [symmetric] by simp
  then have r: "r = drop (9 + ?n) ?L"
    by simp
  have last: "put (header_bytes h @ d @ drop (8 + ?n) ?L) (?n + 8) [?c] =
      Some (frame h d @ drop (9 + ?n) ?L)"
    using put_middle [of "[x]" "[?c]" "header_bytes h @ d" r] x r
    by (simp add: frame_def add.commute)
  show ?thesis
    using copy buf sum last u
    by (intro exI [of _ ?c]) (simp add: eq_sw_write_com_to_local_def header_to_buf sizeof_header_def Let_def)
qed

text \<open>A whole message with the right flag that fits the buffer reaches \<open>handle_com\<close>.\<close>

lemma receive_frame:
  assumes wf: "daemon_wf s" and d: "length d = unat (h_data_len h)" "9 + length d \<le> unat (com_buf_len_max s)"
    and h: "h_flag h = AACTD_COM_HEADER_FLAG" and inp: "clean inp" "stream inp = header_bytes h @ d @ c # rest"
  shows "\<exists>r. receive env s inp = map_option (\<lambda>s. (True, s, r)) (handle_com env
      (s\<lparr>remote_com_buf := header_bytes h @ d @ c # drop (9 + length d) (remote_com_buf s), remote_header := h\<rparr>)) \<and>
    clean r \<and> stream r = rest"
proof -
  let ?B = "remote_com_buf s" and ?n = "length d"
  have len: "length ?B = unat (com_buf_len_max s)"
    using wf by (simp add: daemon_wf_def)
  have b: "unat (h_data_len h) + 9 < 2 ^ 32"
    using wf d by (simp add: daemon_wf_def)
  obtain r1 where r1: "aactd_readn 8 inp = (8, header_bytes h, r1)" "clean r1" "stream r1 = d @ c # rest"
    using readn_clean [OF inp(1), of 8] inp(2) by auto
  obtain r2 where r2: "aactd_readn (?n + 1) r1 = (int (?n + 1), d @ [c], r2)" "clean r2" "stream r2 = rest"
    using readn_clean [OF r1(2), of "?n + 1"] r1(3) by auto
  have put1: "put ?B 0 (header_bytes h) = Some (header_bytes h @ drop 8 ?B)"
    using d len by (simp add: put_def)
  have put2: "put (header_bytes h @ drop 8 ?B) 8 (d @ [c]) = Some (header_bytes h @ d @ c # drop (9 + ?n) ?B)"
    using d len by (simp add: put_def)
  have u: "unat (h_data_len h + 1) = ?n + 1" "\<not> com_buf_len_max s < sizeof_com (h_data_len h)"
    using unat_sizeof_com(1) [OF b] b d by (simp_all add: unat_word_ariths word_less_nat_alt)
  have upd: "s\<lparr>remote_header := h, remote_com_buf := b\<rparr> = s\<lparr>remote_com_buf := b, remote_header := h\<rparr>" for b
    by simp
  show ?thesis
    using r1 r2 put1 put2 u h
    by (intro exI [of _ r2]) (simp add: upd receive_def sizeof_header_def buf_to_header Let_def case_prod_beta)
qed

lemma handle_frame:
  assumes wf: "daemon_wf s" and d: "length d = unat (h_data_len h)" "9 + length d \<le> unat (com_buf_len_max s)"
    and b: "remote_com_buf s = header_bytes h @ d @ c # r" "remote_header s = h"
  shows "handle_com env s =
    (if c \<noteq> foldl (+) 0 (header_bytes h @ d) then Some s
     else if h_command h = CMD_WRITE then map_option snd
       (write_com_to_local env s \<lparr>header = h, com_data = d @ c # r, checksum = c\<rparr>)
     else Some s)"
proof -
  have l: "unat (h_data_len h) + 9 < 2 ^ 31"
    using wf d by (simp add: daemon_wf_def)
  have "aactd_calculate_checksum ((header_bytes h @ d) @ c # r) (int (length d + 8)) =
      Some (foldl (+) 0 (header_bytes h @ d))"
    by (rule checksum_of_prefix) simp
  then show ?thesis
    using b d(1) sint_sizeof_com [OF l]
    by (simp add: handle_com_def sizeof_header_def rd_def nth_append Let_def)
qed

text \<open>One pass on a message sent as a frame, by type.\<close>

lemma receive_write_frame:
  assumes wf: "daemon_wf s" and d: "length d = unat (h_data_len h)" "9 + length d \<le> unat (com_buf_len_max s)"
    and h: "h_flag h = AACTD_COM_HEADER_FLAG" "h_command h = CMD_WRITE"
    and inp: "clean inp" "stream inp = frame h d @ rest"
  shows "\<exists>r r'. receive env s inp = map_option (\<lambda>x. (True, snd x, r)) (write_com_to_local env
      (s\<lparr>remote_com_buf := frame h d @ r', remote_header := h\<rparr>)
      \<lparr>header = h, com_data = d @ foldl (+) 0 (header_bytes h @ d) # r', checksum = foldl (+) 0 (header_bytes h @ d)\<rparr>) \<and>
    clean r \<and> stream r = rest \<and> daemon_wf (s\<lparr>remote_com_buf := frame h d @ r', remote_header := h\<rparr>)"
proof -
  let ?c = "foldl (+) 0 (header_bytes h @ d) :: byte" and ?r' = "drop (9 + length d) (remote_com_buf s)"
  let ?s = "s\<lparr>remote_com_buf := header_bytes h @ d @ ?c # ?r', remote_header := h\<rparr>"
  obtain r where r: "receive env s inp = map_option (\<lambda>s. (True, s, r)) (handle_com env ?s)" "clean r" "stream r = rest"
    using receive_frame [OF wf d h(1) inp(1), of ?c rest env] inp(2) by (auto simp: frame_def)
  have wf': "daemon_wf ?s"
    using wf d by (simp add: daemon_wf_def)
  from handle_frame [OF this d(1), of ?c ?r' env] d(2) h(2)
  have "handle_com env ?s = map_option snd (write_com_to_local env ?s
      \<lparr>header = h, com_data = d @ ?c # ?r', checksum = ?c\<rparr>)"
    by simp
  then show ?thesis
    using r wf' by (intro exI [of _ r] exI [of _ ?r']) (simp add: frame_def option.map_comp comp_def)
qed

end
