(* ===== verification/Aactd_Session.thy ===== *)
theory Aactd_Session
  imports Aactd_Daemon
begin

text \<open>
  Connections of the audio control daemon as a whole: independence of how the stream is cut into
  pieces, preservation of the buffers' sizes, and the conditions under which an access leaves a buffer.
\<close>

section \<open>Pieces\<close>

text \<open>Two results of a pass that differ only in how the unread bytes are cut.\<close>

definition same_rest ::
    "bool \<times> aactd \<times> event list \<Rightarrow> bool \<times> aactd \<times> event list \<Rightarrow> bool" where
  "same_rest x y \<longleftrightarrow> fst x = fst y \<and> fst (snd x) = fst (snd y) \<and>
     clean (snd (snd x)) \<and> clean (snd (snd y)) \<and> stream (snd (snd x)) = stream (snd (snd y))"

lemma readn_same:
  assumes "clean i" "clean j" "stream i = stream j"
  obtains ret bs r r' where "aactd_readn n i = (ret, bs, r)" "aactd_readn n j = (ret, bs, r')"
    "clean r" "clean r'" "stream r = stream r'"
  using readn_clean [OF assms(1), of n] readn_clean [OF assms(2), of n] assms(3) by metis

text \<open>The second read of a pass, and what follows it.\<close>

definition receive_data ::
    "drc_env \<Rightarrow> aactd \<Rightarrow> byte list \<Rightarrow> u32 \<Rightarrow> event list \<Rightarrow> (bool \<times> aactd \<times> event list) option" where
  "receive_data env s b len r =
     (let (ret, d, r) = aactd_readn (unat (len + 1)) r
      in do {
        b \<leftarrow> put b sizeof_header d;
        let s = s\<lparr>remote_com_buf := b\<rparr>;
        if ret < 0 then Some (False, s, r)
        else if ret = 0 then Some (False, s, r)
        else if ret < int (unat (len + 1)) then Some (True, s, r)
        else map_option (\<lambda>s. (True, s, r)) (handle_com env s)
      })"

lemma receive_data_same:
  assumes "clean i" "clean j" "stream i = stream j"
  shows "rel_option same_rest (receive_data env s b len i) (receive_data env s b len j)"
proof -
  obtain ret d r r' where n: "aactd_readn (unat (len + 1)) i = (ret, d, r)"
    "aactd_readn (unat (len + 1)) j = (ret, d, r')" "clean r" "clean r'" "stream r = stream r'"
    using readn_same [OF assms] .
  show ?thesis
  proof (cases "put b sizeof_header d")
    case (Some b')
    then show ?thesis
      using n by (cases "handle_com env (s\<lparr>remote_com_buf := b'\<rparr>)") (simp_all add: receive_data_def same_rest_def Let_def)
  qed (use n in \<open>simp add: receive_data_def\<close>)
qed

lemma receive_split:
  "receive env s inp =
     (let (ret, h, r) = aactd_readn sizeof_header inp
      in do {
        b \<leftarrow> put (remote_com_buf s) 0 h;
        let s = s\<lparr>remote_com_buf := b\<rparr>;
        if ret < 0 then Some (False, s, r)
        else if ret = 0 then Some (False, s, r)
        else if ret < int sizeof_header then Some (True, s, r)
        else do {
          (_, hdr) \<leftarrow> aactd_com_buf_to_header (Some b) (remote_header s);
          let s = s\<lparr>remote_header := hdr\<rparr>;
          if h_flag hdr \<noteq> AACTD_COM_HEADER_FLAG then Some (True, s, r)
          else if com_buf_len_max s < sizeof_com (h_data_len hdr) then Some (True, s, r)
          else receive_data env s b (h_data_len hdr) r
        }
      })"
  unfolding receive_def receive_data_def Let_def by simp

lemma receive_same:
  assumes "clean i" "clean j" "stream i = stream j"
  shows "rel_option same_rest (receive env s i) (receive env s j)"
proof -
  obtain ret h r r' where n: "aactd_readn sizeof_header i = (ret, h, r)"
    "aactd_readn sizeof_header j = (ret, h, r')" "clean r" "clean r'" "stream r = stream r'"
    using readn_same [OF assms] .
  show ?thesis
  proof (cases "put (remote_com_buf s) 0 h")
    case (Some b)
    show ?thesis
    proof (cases "aactd_com_buf_to_header (Some b) (remote_header s)")
      case None
      then show ?thesis
        using n Some by (simp add: receive_split same_rest_def Let_def)
    next
      case hdr: (Some x)
      then show ?thesis
        using n Some receive_data_same [OF n(3-5)]
        by (cases x) (simp add: receive_split same_rest_def Let_def)
    qed
  qed (use n in \<open>simp add: receive_split\<close>)
qed

lemma session_same:
  "clean i \<Longrightarrow> clean j \<Longrightarrow> stream i = stream j \<Longrightarrow>
   map_option fst (session env s i) = map_option fst (session env s j)"
proof (induction env s i arbitrary: j rule: session.induct)
  case (1 env s i)
  note rel = receive_same [OF 1(2-4), of env s]
  show ?case
  proof (cases "receive env s i")
    case None
    then show ?thesis
      using rel by (subst (1 2) session.simps) simp
  next
    case (Some x)
    obtain g s' r where x: "x = (g, s', r)" by (cases x)
    then obtain r' where r': "receive env s j = Some (g, s', r')" "clean r" "clean r'" "stream r = stream r'"
      using rel Some by (cases "receive env s j") (auto simp: same_rest_def)
    show ?thesis
    proof (cases g)
      case True
      then show ?thesis
        using 1(1) [OF Some [unfolded x] refl refl True r'(2-4)] Some x r'(1) by (subst (1 2) session.simps) simp
    next
      case False
      then show ?thesis
        using Some x r'(1) by (subst (1 2) session.simps) simp
    qed
  qed
qed

section \<open>Accesses outside a buffer\<close>

lemma reg_arg_None: "drc_hw_buf_to_reg_arg b p = None \<longleftrightarrow> length b < p + 8"
  by (auto simp: drc_hw_buf_to_reg_arg_def aactd_le_buf_to_uint32_def slice_def)

lemma read_regs_None:
  "p \<le> length b \<Longrightarrow> read_args drc_hw_buf_to_reg_arg sizeof_reg_arg n b p = None \<longleftrightarrow> length b < p + 8 * n"
proof (induction n arbitrary: p)
  case (Suc n)
  show ?case
  proof (cases "length b < p + 8")
    case True
    then show ?thesis
      using reg_arg_None [of b p] by simp
  next
    case False
    then obtain a where "drc_hw_buf_to_reg_arg b p = Some a"
      using reg_arg_None [of b p] by auto
    then show ?thesis
      using Suc.IH [of "p + 8"] False
      by (cases "read_args drc_hw_buf_to_reg_arg sizeof_reg_arg n b (p + 8)") (auto simp: sizeof_reg_arg_def)
  qed
qed simp

lemma length_read_args: "read_args g sz n b p = Some as \<Longrightarrow> length as = n"
  by (induction n arbitrary: p as) (auto simp: Option.bind_eq_Some_conv)

definition reg_count :: "byte list \<Rightarrow> nat" where
  "reg_count d = unat (of_le16 (take 2 d))"

lemma drc_buf_to_data_None:
  "drc_hw_buf_to_data (Some d) 0 cap d0 = None \<longleftrightarrow> length d < 2 + 8 * reg_count d \<or> cap < reg_count d"
proof (cases "length d < 2")
  case True
  then show ?thesis
    by (simp add: drc_hw_buf_to_data_def aactd_le_buf_to_uint16_def slice_def)
next
  case False
  then show ?thesis
    using read_regs_None [of 2 d "reg_count d"]
    by (cases "read_args drc_hw_buf_to_reg_arg sizeof_reg_arg (reg_count d) d 2")
      (auto simp: drc_hw_buf_to_data_def aactd_le_buf_to_uint16_def slice_def reg_count_def Let_def
        simp del: add_2_eq_Suc add_2_eq_Suc')
qed

lemma drc_buf_to_data_Some:
  "drc_hw_buf_to_data (Some d) p cap d0 = Some (ret, d') \<Longrightarrow> ret = 0 \<and> drc_hw_wf d'"
  by (auto simp: drc_hw_buf_to_data_def drc_hw_wf_def Option.bind_eq_Some_conv length_read_args split: if_splits)

lemma drc_hw_write_None:
  "drc_hw_write_com_to_local env s com = None \<longleftrightarrow>
     length (com_data com) < 2 + 8 * reg_count (com_data com) \<or>
     unat (com_buf_len_max s) div 8 < reg_count (com_data com)"
proof (cases "drc_hw_buf_to_data (Some (com_data com)) 0 (unat (com_buf_len_max s) div sizeof_reg_arg) (local_data s)")
  case None
  then show ?thesis
    using drc_buf_to_data_None [of "com_data com" "unat (com_buf_len_max s) div 8" "local_data s"]
    by (simp add: drc_hw_write_com_to_local_def sizeof_reg_arg_def)
next
  case (Some x)
  then have "fst x = 0" "drc_hw_wf (snd x)"
    using drc_buf_to_data_Some [of _ _ _ _ "fst x" "snd x"] by simp_all
  then have "drc_hw_data_set env (snd x) \<noteq> None"
    by (simp add: drc_hw_data_set_def drc_hw_wf_def)
  then show ?thesis
    using Some \<open>fst x = 0\<close> drc_buf_to_data_None [of "com_data com" "unat (com_buf_len_max s) div 8" "local_data s"]
    by (cases x) (auto simp: drc_hw_write_com_to_local_def sizeof_reg_arg_def case_prod_beta)
qed

text \<open>The handling of a whole message that fits leaves the buffers only on a register count too large.\<close>

lemma handle_None:
  assumes wf: "daemon_wf s" and fits: "9 + unat (h_data_len (remote_header s)) \<le> unat (com_buf_len_max s)"
    and hdr: "take 8 (remote_com_buf s) = header_bytes (remote_header s)"
  shows "handle_com env s = None \<longleftrightarrow>
    remote_com_buf s ! (8 + unat (h_data_len (remote_header s))) =
      foldl (+) 0 (take (8 + unat (h_data_len (remote_header s))) (remote_com_buf s)) \<and>
    h_command (remote_header s) = CMD_WRITE \<and> h_type (remote_header s) = DRC_HW \<and>
    unat (com_buf_len_max s) < 10 + 8 * reg_count (drop 8 (remote_com_buf s))"
proof -
  let ?h = "remote_header s" and ?B = "remote_com_buf s"
  let ?n = "unat (h_data_len ?h)"
  let ?d = "take ?n (drop 8 ?B)" and ?c = "?B ! (8 + ?n)" and ?r = "drop (9 + ?n) ?B"
  have len: "length ?B = unat (com_buf_len_max s)"
    using wf by (simp add: daemon_wf_def)
  then have ld: "length ?d = ?n"
    using fits by simp
  have tail: "drop (8 + ?n) ?B = ?c # ?r"
    using len fits Cons_nth_drop_Suc [of "8 + ?n" ?B] by simp
  have d: "drop 8 ?B = ?d @ ?c # ?r"
    using tail append_take_drop_id [of ?n "drop 8 ?B"] by (simp add: add.commute)
  have B: "?B = header_bytes ?h @ ?d @ ?c # ?r"
    using hdr d append_take_drop_id [of 8 ?B] by metis
  have pre: "header_bytes ?h @ ?d = take (8 + ?n) ?B"
    using hdr by (simp add: take_add)
  let ?com = "\<lparr>header = ?h, com_data = ?d @ ?c # ?r, checksum = ?c\<rparr>"
  have eq: "eq_sw_write_com_to_local s ?com \<noteq> None"
    using eq_sw_write_frame [OF wf, of ?d ?h ?com] ld fits by auto
  have drc: "drc_hw_write_com_to_local env s ?com = None \<longleftrightarrow>
      unat (com_buf_len_max s) < 10 + 8 * reg_count (drop 8 ?B)"
    using len d drc_hw_write_None [of env s ?com] fits by (auto simp: d [symmetric])
  have "EQ_SW \<noteq> DRC_HW"
    by (simp add: EQ_SW_def DRC_HW_def)
  define X where "X = write_com_to_local env s ?com"
  have w: "X = None \<longleftrightarrow> h_type ?h = DRC_HW \<and>
      unat (com_buf_len_max s) < 10 + 8 * reg_count (drop 8 ?B)"
    using eq drc \<open>EQ_SW \<noteq> DRC_HW\<close> by (auto simp: X_def write_com_to_local_def split: bind_splits)
  have "9 + length ?d \<le> unat (com_buf_len_max s)"
    using ld fits by simp
  from handle_frame [OF wf ld this B refl, of env]
  have "handle_com env s = (if ?c \<noteq> foldl (+) 0 (take (8 + ?n) ?B) then Some s
      else if h_command ?h = CMD_WRITE then map_option snd X else Some s)"
    unfolding pre X_def .
  then show ?thesis
    using w by simp
qed

section \<open>The sizes of the buffers\<close>

definition same_sizes :: "aactd \<Rightarrow> aactd \<Rightarrow> bool" where
  "same_sizes s s' \<longleftrightarrow> com_buf_len_max s' = com_buf_len_max s \<and>
     length (remote_com_buf s') = length (remote_com_buf s) \<and> length (local_com_buf s') = length (local_com_buf s)"

lemma same_sizes_trans: "same_sizes s s1 \<Longrightarrow> same_sizes s1 s2 \<Longrightarrow> same_sizes s s2"
  by (simp add: same_sizes_def)

lemma same_sizes_wf: "same_sizes s s' \<Longrightarrow> daemon_wf s \<Longrightarrow> daemon_wf s'"
  by (simp add: same_sizes_def daemon_wf_def)

lemma put_sizes: "put b p xs = Some b' \<Longrightarrow> length b' = length b"
  by (rule length_put)

lemma eq_sw_write_sizes:
  assumes wf: "8 \<le> length (local_com_buf s)" and w: "eq_sw_write_com_to_local s com = Some (ret, s')"
  shows "same_sizes s s'"
proof -
  obtain lc b1 b2 c b3 where
    copy: "aactd_com_copy com
       \<lparr>header = local_header s, com_data = drop sizeof_header (local_com_buf s), checksum = local_checksum s\<rparr> = Some lc"
    and b: "put (take sizeof_header (local_com_buf s) @ com_data lc) 0 (header_bytes (header lc)) = Some b2"
      "put b2 (unat (sizeof_com (h_data_len (header lc)) - 1)) [c] = Some b3"
    and s': "same_sizes s s' = (length b3 = length (local_com_buf s))"
    using w by (auto simp: eq_sw_write_com_to_local_def header_to_buf Let_def Option.bind_eq_Some_conv same_sizes_def)
  have "length (com_data lc) = length (local_com_buf s) - 8"
    using copy by (auto simp: aactd_com_copy_def Option.bind_eq_Some_conv sizeof_header_def dest: length_put)
  then show ?thesis
    using wf s' put_sizes [OF b(1)] put_sizes [OF b(2)] by (simp add: sizeof_header_def)
qed

lemma drc_hw_write_sizes:
  assumes w: "drc_hw_write_com_to_local env s com = Some (ret, s')"
  shows "same_sizes s s'"
proof -
  obtain r d where d: "drc_hw_buf_to_data (Some (com_data com)) 0 (unat (com_buf_len_max s) div sizeof_reg_arg)
      (local_data s) = Some (r, d)"
    using w by (auto simp: drc_hw_write_com_to_local_def split: bind_splits)
  show ?thesis
  proof (cases "drc_hw_data_set env d")
    case None
    then show ?thesis
      using w d by (auto simp: drc_hw_write_com_to_local_def same_sizes_def Let_def split: if_splits)
  next
    case (Some x)
    then have "s' = s\<lparr>local_data := d\<rparr> \<or> s' = s\<lparr>local_data := d, reg_writes := reg_writes s @ snd x\<rparr>"
      using w d by (cases x) (simp add: drc_hw_write_com_to_local_def Let_def split: if_splits)
    then show ?thesis
      by (auto simp: same_sizes_def)
  qed
qed

lemma write_sizes:
  assumes "8 \<le> length (local_com_buf s)" "write_com_to_local env s com = Some (ret, s')"
  shows "same_sizes s s'"
proof -
  have "(\<exists>r. eq_sw_write_com_to_local s com = Some (r, s')) \<or> (\<exists>r. drc_hw_write_com_to_local env s com = Some (r, s')) \<or>
      s' = s"
    using assms(2) by (auto simp: write_com_to_local_def Option.bind_eq_Some_conv split: if_splits)
  then show ?thesis
    using eq_sw_write_sizes [OF assms(1)] drc_hw_write_sizes by (auto simp: same_sizes_def)
qed

lemma handle_sizes:
  assumes "8 \<le> length (local_com_buf s)" "handle_com env s = Some s'"
  shows "same_sizes s s'"
proof -
  have "(\<exists>com ret. write_com_to_local env s com = Some (ret, s')) \<or> s' = s"
    using assms(2) by (auto simp: handle_com_def Let_def Option.bind_eq_Some_conv split: if_splits)
  then show ?thesis
    using write_sizes [OF assms(1)] by (auto simp: same_sizes_def)
qed

lemma receive_data_sizes:
  assumes "8 \<le> length (local_com_buf s)" "length b = length (remote_com_buf s)"
    "receive_data env s b len inp = Some (g, s', r)"
  shows "same_sizes s s'"
proof -
  obtain ret d r1 where n: "aactd_readn (unat (len + 1)) inp = (ret, d, r1)"
    by (cases "aactd_readn (unat (len + 1)) inp")
  then obtain b' where b': "put b sizeof_header d = Some b'"
    using assms(3) by (cases "put b sizeof_header d") (simp_all add: receive_data_def)
  have 1: "same_sizes s (s\<lparr>remote_com_buf := b'\<rparr>)"
    using put_sizes [OF b'] assms(2) by (simp add: same_sizes_def)
  have "s' = s\<lparr>remote_com_buf := b'\<rparr> \<or> handle_com env (s\<lparr>remote_com_buf := b'\<rparr>) = Some s'"
    using assms(3) n b' by (auto simp: receive_data_def Let_def split: if_splits)
  then show ?thesis
    using 1 handle_sizes [of "s\<lparr>remote_com_buf := b'\<rparr>" env s'] assms(1) same_sizes_trans by auto
qed

lemma receive_sizes:
  assumes "8 \<le> length (local_com_buf s)" "receive env s inp = Some (g, s', r)"
  shows "same_sizes s s'"
proof -
  obtain ret h r1 where n: "aactd_readn sizeof_header inp = (ret, h, r1)"
    by (cases "aactd_readn sizeof_header inp")
  then obtain b where b: "put (remote_com_buf s) 0 h = Some b"
    using assms(2) by (cases "put (remote_com_buf s) 0 h") (simp_all add: receive_split)
  have l: "length b = length (remote_com_buf s)"
    using put_sizes [OF b] .
  have d: "receive_data env (s\<lparr>remote_com_buf := b, remote_header := hdr\<rparr>) b len r1 = Some (g, s', r) \<Longrightarrow>
      same_sizes s s'" for hdr len
    using receive_data_sizes [of "s\<lparr>remote_com_buf := b, remote_header := hdr\<rparr>" b] assms(1) l
    by (simp add: same_sizes_def)
  show ?thesis
    using assms(2) n b l d
    by (auto simp: receive_split Let_def Option.bind_eq_Some_conv same_sizes_def split: if_splits)
qed

lemma session_sizes:
  "8 \<le> length (local_com_buf s) \<Longrightarrow> session env s inp = Some (s', r) \<Longrightarrow> same_sizes s s'"
proof (induction env s inp rule: session.induct)
  case (1 env s inp)
  then obtain g s1 r1 where rec: "receive env s inp = Some (g, s1, r1)"
    by (cases "receive env s inp") (auto simp: session.simps)
  have s1: "same_sizes s s1"
    using receive_sizes [OF 1(2) rec] .
  show ?case
  proof (cases g)
    case True
    then have "session env s1 r1 = Some (s', r)"
      using 1(3) rec by (subst (asm) session.simps) simp
    then show ?thesis
      using 1(1) [OF rec refl refl True] 1(2) s1 same_sizes_trans by (auto simp: same_sizes_def)
  next
    case False
    then show ?thesis
      using 1(3) rec s1 by (subst (asm) session.simps) simp
  qed
qed

lemma session_wf: "daemon_wf s \<Longrightarrow> session env s inp = Some (s', r) \<Longrightarrow> daemon_wf s'"
proof -
  assume "daemon_wf s" "session env s inp = Some (s', r)"
  then have "same_sizes s s'"
    using session_sizes by (simp add: daemon_wf_def)
  then show ?thesis
    using same_sizes_wf \<open>daemon_wf s\<close> by blast
qed

section \<open>The client's messages\<close>

definition client_header :: "byte \<Rightarrow> u32 \<Rightarrow> aactd_com_header" where
  "client_header t len =
     \<lparr>h_flag = AACTD_COM_HEADER_FLAG, h_version = 1, h_command = CMD_WRITE, h_type = t, h_data_len = len\<rparr>"

lemma client_message_frame:
  assumes d: "length d = unat len" "9 + length d \<le> length buf" "length buf < 2 ^ 31"
    and put: "\<And>b. length b = length buf \<Longrightarrow> put_data (Some b) 8 = map_option (\<lambda>b. (0, Some b)) (put b 8 d)"
  shows "client_message t len put_data buf = Some (frame (client_header t len) d)"
proof -
  let ?h = "client_header t len"
  let ?c = "foldl (+) 0 (header_bytes ?h @ d) :: byte"
  have b: "unat len + 9 < 2 ^ 31"
    using d by simp
  have u: "unat (sizeof_com len) = length d + 9" "unat (sizeof_com len - 1) = length d + 8"
    "sint (sizeof_com len - 1) = int (length d + 8)"
    using unat_sizeof_com [of len] sint_sizeof_com [OF b] b d(1) by simp_all
  have b1: "put buf 0 (header_bytes ?h) = Some (header_bytes ?h @ drop 8 buf)"
    using d by (simp add: put_def)
  have b2: "put_data (Some (header_bytes ?h @ drop 8 buf)) 8 =
      Some (0, Some (header_bytes ?h @ d @ drop (8 + length d) buf))"
    using put [of "header_bytes ?h @ drop 8 buf"] d by (simp add: put_def add.commute)
  have sum: "aactd_calculate_checksum (header_bytes ?h @ d @ drop (8 + length d) buf) (int (length d + 8)) = Some ?c"
    using checksum_of_prefix [of "header_bytes ?h @ d" "length d + 8"] by simp
  have drop1: "drop (9 + length d) buf = drop 1 (drop (8 + length d) buf)"
    unfolding drop_drop by simp
  have b3: "put (header_bytes ?h @ d @ drop (8 + length d) buf) (length d + 8) [?c] =
      Some (frame ?h d @ drop (9 + length d) buf)"
    using d unfolding drop1 by (simp add: put_def frame_def)
  have sl: "slice (frame ?h d @ drop (9 + length d) buf) 0 (length d + 9) = Some (frame ?h d)"
    by (simp add: slice_def)
  show ?thesis
    using b1 b2 sum b3 sl u
    by (simp add: client_message_def header_to_buf client_header_def AACTD_COM_HEADER_FLAG_def sizeof_header_def Let_def)
qed

type_synonym request = "eq_sw_data + drc_hw_data"

definition client_request :: "request \<Rightarrow> byte list \<Rightarrow> byte list option" where
  "client_request x com_buf = (case x of Inl d \<Rightarrow> client_eq_sw d com_buf | Inr d \<Rightarrow> client_drc_hw d com_buf)"

text \<open>The bytes of a request, and whether it is well-formed and fits \<open>n\<close> bytes.\<close>

definition request_frame :: "request \<Rightarrow> byte list" where
  "request_frame x = (case x of
     Inl d \<Rightarrow> frame (client_header EQ_SW (2 + 14 * ucast (filter_num d))) (eq_sw_bytes d)
   | Inr d \<Rightarrow> frame (client_header DRC_HW (2 + 8 * ucast (reg_num d))) (drc_hw_bytes d))"

definition request_fits :: "nat \<Rightarrow> request \<Rightarrow> bool" where
  "request_fits n x = (case x of
     Inl d \<Rightarrow> eq_sw_wf d \<and> 11 + 14 * unat (filter_num d) \<le> n
   | Inr d \<Rightarrow> drc_hw_wf d \<and> 11 + 8 * unat (reg_num d) \<le> n)"

lemma unat_eq_sw_len: "unat (2 + 14 * ucast n :: u32) = 2 + 14 * unat n" for n :: byte
proof -
  have n: "unat n < 256"
    by (rule order.strict_trans2 [OF unsigned_less]) simp
  moreover have "unat (ucast n :: u32) = unat n"
    using n by (simp add: unsigned_ucast_eq take_bit_nat_eq_self)
  ultimately show ?thesis
    by (simp add: unat_word_ariths)
qed

lemma unat_drc_hw_len: "unat (2 + 8 * ucast n :: u32) = 2 + 8 * unat n" for n :: u16
proof -
  have n: "unat n < 65536"
    by (rule order.strict_trans2 [OF unsigned_less]) simp
  moreover have "unat (ucast n :: u32) = unat n"
    using n by (simp add: unsigned_ucast_eq take_bit_nat_eq_self)
  ultimately show ?thesis
    by (simp add: unat_word_ariths)
qed

lemma client_request_frame:
  assumes "request_fits (length buf) x" "length buf < 2 ^ 31"
  shows "client_request x buf = Some (request_frame x)"
proof (cases x)
  case (Inl d)
  then have d: "eq_sw_wf d" "11 + 14 * unat (filter_num d) \<le> length buf"
    using assms(1) by (simp_all add: request_fits_def)
  have "client_message EQ_SW (2 + 14 * ucast (filter_num d)) (eq_sw_data_to_buf d) buf =
      Some (frame (client_header EQ_SW (2 + 14 * ucast (filter_num d))) (eq_sw_bytes d))"
    using d assms(2) by (intro client_message_frame)
      (simp_all add: length_eq_sw_bytes unat_eq_sw_len eq_sw_data_to_buf_put)
  then show ?thesis
    by (simp add: client_request_def client_eq_sw_def request_frame_def Inl)
next
  case (Inr d)
  then have d: "drc_hw_wf d" "11 + 8 * unat (reg_num d) \<le> length buf"
    using assms(1) by (simp_all add: request_fits_def)
  have "client_message DRC_HW (2 + 8 * ucast (reg_num d)) (drc_hw_data_to_buf d) buf =
      Some (frame (client_header DRC_HW (2 + 8 * ucast (reg_num d))) (drc_hw_bytes d))"
    using d assms(2) by (intro client_message_frame)
      (simp_all add: length_drc_hw_bytes unat_drc_hw_len drc_hw_data_to_buf_put)
  then show ?thesis
    by (simp add: client_request_def client_drc_hw_def request_frame_def Inr)
qed

section \<open>A connection of requests\<close>

definition drc_complete :: "drc_env \<Rightarrow> bool" where
  "drc_complete env \<longleftrightarrow> drc_open env \<and> (\<forall>i n. drc_write env i n = int n)"

definition reg_lines :: "drc_env \<Rightarrow> drc_hw_data \<Rightarrow> byte list list" where
  "reg_lines env d = map (\<lambda>a. reg_text (DRC_HW_REG_BASE_ADDR env + reg_offset a) (reg_value a)) (reg_args d)"

lemma drc_write_regs_complete:
  "drc_complete env \<Longrightarrow> drc_write_regs env i as =
     (0, map (\<lambda>a. reg_text (DRC_HW_REG_BASE_ADDR env + reg_offset a) (reg_value a)) as)"
  by (induction as arbitrary: i) (simp_all add: drc_complete_def Let_def)

text \<open>What a request adds to the published messages and to the register file.\<close>

fun eq_effect :: "request \<Rightarrow> byte list list" where
  "eq_effect (Inl d) = [request_frame (Inl d)]"
| "eq_effect (Inr d) = []"

fun drc_effect :: "drc_env \<Rightarrow> request \<Rightarrow> byte list list" where
  "drc_effect env (Inl d) = []"
| "drc_effect env (Inr d) = reg_lines env d"

lemma request_frame_shape:
  assumes "request_fits n x"
  obtains h d where "request_frame x = frame h d" "length d = unat (h_data_len h)" "9 + length d \<le> n"
    "h_flag h = AACTD_COM_HEADER_FLAG" "h_command h = CMD_WRITE"
    "\<forall>e. x = Inl e \<longrightarrow> h_type h = EQ_SW" "\<forall>e. x = Inr e \<longrightarrow> h_type h = DRC_HW \<and> d = drc_hw_bytes e \<and> drc_hw_wf e"
proof (cases x)
  case (Inl e)
  let ?h = "client_header EQ_SW (2 + 14 * ucast (filter_num e))"
  have "length (eq_sw_bytes e) = unat (h_data_len ?h)" "9 + length (eq_sw_bytes e) \<le> n"
    using assms Inl by (simp_all add: request_fits_def client_header_def length_eq_sw_bytes unat_eq_sw_len)
  moreover have "h_flag ?h = AACTD_COM_HEADER_FLAG" "h_command ?h = CMD_WRITE" "h_type ?h = EQ_SW"
    by (simp_all add: client_header_def)
  ultimately show ?thesis
    by (intro that [of ?h "eq_sw_bytes e"]) (simp_all add: request_frame_def Inl)
next
  case (Inr e)
  let ?h = "client_header DRC_HW (2 + 8 * ucast (reg_num e))"
  have "length (drc_hw_bytes e) = unat (h_data_len ?h)" "9 + length (drc_hw_bytes e) \<le> n" "drc_hw_wf e"
    using assms Inr by (simp_all add: request_fits_def client_header_def length_drc_hw_bytes unat_drc_hw_len)
  moreover have "h_flag ?h = AACTD_COM_HEADER_FLAG" "h_command ?h = CMD_WRITE" "h_type ?h = DRC_HW"
    by (simp_all add: client_header_def)
  ultimately show ?thesis
    by (intro that [of ?h "drc_hw_bytes e"]) (simp_all add: request_frame_def Inr)
qed

lemma receive_request:
  assumes wf: "daemon_wf s" and x: "request_fits (unat (com_buf_len_max s)) x" and env: "drc_complete env"
    and inp: "clean inp" "stream inp = request_frame x @ rest"
  obtains s' r where "receive env s inp = Some (True, s', r)" "clean r" "stream r = rest"
    "published s' = published s @ eq_effect x" "reg_writes s' = reg_writes s @ drc_effect env x"
proof -
  obtain h d where h: "request_frame x = frame h d" "length d = unat (h_data_len h)"
    "9 + length d \<le> unat (com_buf_len_max s)" "h_flag h = AACTD_COM_HEADER_FLAG" "h_command h = CMD_WRITE"
    "\<forall>e. x = Inl e \<longrightarrow> h_type h = EQ_SW" "\<forall>e. x = Inr e \<longrightarrow> h_type h = DRC_HW \<and> d = drc_hw_bytes e \<and> drc_hw_wf e"
    using request_frame_shape [OF x] by blast
  let ?c = "foldl (+) 0 (header_bytes h @ d) :: byte"
  obtain r r' where r: "receive env s inp = map_option (\<lambda>x. (True, snd x, r)) (write_com_to_local env
      (s\<lparr>remote_com_buf := frame h d @ r', remote_header := h\<rparr>)
      \<lparr>header = h, com_data = d @ ?c # r', checksum = ?c\<rparr>)" "clean r" "stream r = rest"
      "daemon_wf (s\<lparr>remote_com_buf := frame h d @ r', remote_header := h\<rparr>)"
    using receive_write_frame [OF wf h(2-5) inp(1), of rest env] inp(2) h(1) by auto
  let ?s = "s\<lparr>remote_com_buf := frame h d @ r', remote_header := h\<rparr>"
  let ?com = "\<lparr>header = h, com_data = d @ ?c # r', checksum = ?c\<rparr>"
  show ?thesis
  proof (cases x)
    case (Inl e)
    have "take (length d) (com_data ?com) = d" "9 + length d \<le> unat (com_buf_len_max ?s)"
      using h(3) by simp_all
    then obtain s1 where "eq_sw_write_com_to_local ?s ?com = Some (0, s1)" "published s1 = published s @ [frame h d]"
      "reg_writes s1 = reg_writes s"
      using eq_sw_write_frame [OF r(4) h(2), of ?com] by auto
    then show ?thesis
      using that [of s1 r] r h(1,6) Inl by (simp add: write_com_to_local_def)
  next
    case (Inr e)
    have t: "h_type h = DRC_HW" "h_type h \<noteq> EQ_SW" "d = drc_hw_bytes e" "drc_hw_wf e"
      using h(7) Inr by (simp_all add: EQ_SW_def DRC_HW_def)
    have "unat (reg_num e) \<le> unat (com_buf_len_max s) div 8"
      using h(3) t by (simp add: length_drc_hw_bytes)
    then have "drc_hw_buf_to_data (Some (d @ ?c # r')) 0 (unat (com_buf_len_max s) div 8) (local_data s) = Some (0, e)"
      using drc_hw_buf_to_data_bytes [OF t(4), of _ "[]" "?c # r'"] t(3) by simp
    moreover have "drc_hw_data_set env e = Some (0, reg_lines env e)"
      using env t(4) drc_write_regs_complete [OF env] by (simp add: drc_hw_data_set_def drc_complete_def drc_hw_wf_def reg_lines_def)
    ultimately obtain s1 where "drc_hw_write_com_to_local env ?s ?com = Some (0, s1)" "published s1 = published s"
      "reg_writes s1 = reg_writes s @ reg_lines env e"
      by (simp add: drc_hw_write_com_to_local_def sizeof_reg_arg_def)
    then show ?thesis
      using that [of s1 r] r t(1,2) Inr by (simp add: write_com_to_local_def)
  qed
qed

lemma receive_end: "clean inp \<Longrightarrow> stream inp = [] \<Longrightarrow> \<exists>r. receive env s inp = Some (False, s, r)"
  using readn_clean [of inp sizeof_header] by (auto simp: receive_def put_nil)

lemma session_requests:
  "daemon_wf s \<Longrightarrow> drc_complete env \<Longrightarrow> \<forall>x \<in> set xs. request_fits (unat (com_buf_len_max s)) x \<Longrightarrow>
   clean inp \<Longrightarrow> stream inp = concat (map request_frame xs) \<Longrightarrow>
   \<exists>s' r. session env s inp = Some (s', r) \<and>
     published s' = published s @ concat (map eq_effect xs) \<and>
     reg_writes s' = reg_writes s @ concat (map (drc_effect env) xs)"
proof (induction xs arbitrary: s inp)
  case Nil
  then obtain r where "receive env s inp = Some (False, s, r)"
    using receive_end [of inp env s] by auto
  then show ?case
    by (subst session.simps) simp
next
  case (Cons x xs)
  have "request_fits (unat (com_buf_len_max s)) x" "stream inp = request_frame x @ concat (map request_frame xs)"
    using Cons.prems by simp_all
  then obtain s1 r1 where s1: "receive env s inp = Some (True, s1, r1)" "clean r1"
    "stream r1 = concat (map request_frame xs)"
    "published s1 = published s @ eq_effect x" "reg_writes s1 = reg_writes s @ drc_effect env x"
    using receive_request [OF Cons.prems(1) _ Cons.prems(2,4)] by metis
  have sz: "same_sizes s s1"
    using receive_sizes [OF _ s1(1)] Cons.prems(1) by (simp add: daemon_wf_def)
  then have "daemon_wf s1" "com_buf_len_max s1 = com_buf_len_max s"
    using same_sizes_wf Cons.prems(1) by (auto simp: same_sizes_def)
  then obtain s' r where "session env s1 r1 = Some (s', r)"
    "published s' = published s1 @ concat (map eq_effect xs)"
    "reg_writes s' = reg_writes s1 @ concat (map (drc_effect env) xs)"
    using Cons.IH [of s1 r1] Cons.prems(2,3) s1(2,3) by auto
  then show ?case
    using s1 by (subst session.simps) simp
qed

text \<open>Several connections, one after the other.\<close>

definition carries :: "nat \<Rightarrow> event list \<Rightarrow> request list \<Rightarrow> bool" where
  "carries n inp xs \<longleftrightarrow> clean inp \<and> stream inp = concat (map request_frame xs) \<and> list_all (request_fits n) xs"

lemma serve_requests:
  "list_all2 (carries n) inps xss \<Longrightarrow> unat (com_buf_len_max s) = n \<Longrightarrow> daemon_wf s \<Longrightarrow> drc_complete env \<Longrightarrow>
   \<exists>s'. serve env s inps = Some s' \<and>
     published s' = published s @ concat (map eq_effect (concat xss)) \<and>
     reg_writes s' = reg_writes s @ concat (map (drc_effect env) (concat xss))"
proof (induction inps xss arbitrary: s rule: list_all2_induct)
  case (Cons inp inps xs xss)
  obtain s1 r where s1: "session env s inp = Some (s1, r)"
    "published s1 = published s @ concat (map eq_effect xs)"
    "reg_writes s1 = reg_writes s @ concat (map (drc_effect env) xs)"
    using session_requests [OF Cons.prems(2,3), of xs inp] Cons.hyps(1) Cons.prems(1)
    by (auto simp: carries_def list_all_iff)
  have "same_sizes s s1"
    using session_sizes [OF _ s1(1)] Cons.prems(2) by (simp add: daemon_wf_def)
  then have "daemon_wf s1" "com_buf_len_max s1 = com_buf_len_max s"
    using same_sizes_wf Cons.prems(2) by (auto simp: same_sizes_def)
  then show ?case
    using Cons.IH [of s1] Cons.prems(1,3) s1 by auto
qed simp

section \<open>A message with one byte changed\<close>

lemma sum_update:
  "i < length L \<Longrightarrow> foldl (+) 0 (L[i := y]) = foldl (+) 0 L \<longleftrightarrow> y = L ! i" for L :: "byte list"
  using sum_single_byte [of "take i L" y "drop (Suc i) L" "L ! i"]
  by (simp add: upd_conv_take_nth_drop id_take_nth_drop [symmetric] del: foldl_append)

text \<open>A change that leaves the flag and the length alone gives another header, data or checksum.\<close>

lemma frame_update:
  assumes i: "i < 9 + length d" "i \<notin> {0, 4, 5, 6, 7}" and y: "y \<noteq> frame h d ! i"
  obtains h' d' c where "(frame h d)[i := y] = header_bytes h' @ d' @ [c]" "length d' = length d"
    "h_flag h' = h_flag h" "h_data_len h' = h_data_len h" "c \<noteq> foldl (+) 0 (header_bytes h' @ d')"
proof (cases "i = 8 + length d")
  case True
  then show ?thesis
    using that [of h d y] y by (simp add: frame_def nth_append list_update_append del: foldl_append)
next
  case False
  let ?L = "header_bytes h @ d" and ?c = "foldl (+) 0 (header_bytes h @ d) :: byte"
  have i': "i < length ?L"
    using False i by simp
  have fr0: "frame h d = ?L @ [?c]"
    by (simp add: frame_def)
  have yi: "y \<noteq> ?L ! i" and fr: "(frame h d)[i := y] = ?L[i := y] @ [?c]"
    using y i' unfolding fr0 by (simp_all only: nth_append list_update_append if_True not_False_eq_True)
  have sum: "?c \<noteq> foldl (+) 0 (?L[i := y])"
    using sum_update [OF i', of y] yi by metis
  show ?thesis
  proof (cases "i < 8")
    case True
    then have "i = 1 \<or> i = 2 \<or> i = 3"
      using i by auto
    then obtain h' where "(header_bytes h)[i := y] = header_bytes h'" "h_flag h' = h_flag h" "h_data_len h' = h_data_len h"
      using that [of "h\<lparr>h_version := y\<rparr>"] that [of "h\<lparr>h_command := y\<rparr>"] that [of "h\<lparr>h_type := y\<rparr>"]
      by (elim disjE) (force simp: header_bytes_def numeral_2_eq_2 numeral_3_eq_3)+
    then show ?thesis
      using that [of h' d ?c] fr sum True by (simp add: list_update_append del: foldl_append)
  next
    case ge: False
    then show ?thesis
      using that [of h "d[i - 8 := y]" ?c] fr sum by (simp add: list_update_append del: foldl_append)
  qed
qed

section \<open>The text of a register write\<close>

definition unhex :: "byte \<Rightarrow> u32" where
  "unhex b = (if b < 58 then ucast (b - 48) else ucast (b - 87))"

lemma unhex_digit: "unhex (hex_digit (take_bit 4 w)) = take_bit 4 w"
proof -
  let ?d = "take_bit 4 w :: u32"
  have "unat ?d < 16"
    using take_bit_nat_less_exp [of 4 "unat w"] by (simp add: unsigned_take_bit_eq)
  then have "unat ?d \<in> set [0..<16]"
    by simp
  then have "\<exists>k \<in> set [0..<16]. ?d = of_nat k"
    by (intro bexI [of _ "unat ?d"]) simp_all
  then show ?thesis
    by (elim bexE) (auto simp: upt_rec hex_digit_def unhex_def)
qed

lemma hex8_inj: "hex8 v = hex8 w \<longleftrightarrow> v = w"
proof
  assume "hex8 v = hex8 w"
  then have "take_bit 4 (drop_bit (4 * i) v) = take_bit 4 (drop_bit (4 * i) w)" if "i \<in> set [7, 6, 5, 4, 3, 2, 1, 0]" for i :: nat
  proof -
    have "hex_digit (take_bit 4 (drop_bit (4 * i) v)) = hex_digit (take_bit 4 (drop_bit (4 * i) w))"
      using \<open>hex8 v = hex8 w\<close> that unfolding hex8_def map_eq_conv by blast
    from arg_cong [OF this, of unhex] show ?thesis
      by (simp only: unhex_digit)
  qed
  then have nib: "take_bit 4 (drop_bit (4 * i) v) = take_bit 4 (drop_bit (4 * i) w)" if "i < 8" for i :: nat
    using that by (auto simp: less_Suc_eq numeral_eq_Suc)
  show "v = w"
  proof (rule bit_word_eqI)
    fix n
    assume "n < LENGTH(32)"
    then have "n div 4 < 8" by simp
    from arg_cong [OF nib [OF this], of "\<lambda>x. bit x (n mod 4)"] show "bit v n = bit w n"
      by (simp add: bit_take_bit_iff bit_drop_bit_eq)
  qed
qed simp

lemma length_hex8 [simp]: "length (hex8 w) = 8"
  by (simp add: hex8_def)

lemma length_bytes_of [simp]: "length (bytes_of s) = length s"
  by (simp add: bytes_of_def)

lemma reg_text_full: "reg_text addr v = bytes_of ''0x'' @ hex8 addr @ bytes_of '' 0x'' @ hex8 v"
  by (simp add: reg_text_def)

section \<open>A length that wraps\<close>

lemma sizeof_com_wraps:
  assumes "0xFFFFFFF7 \<le> len" "len \<noteq> 0xFFFFFFFF"
  shows "unat (sizeof_com len) \<le> 7" "0xFFFFFFF8 \<le> unat (len + 1)"
proof -
  have "0xFFFFFFF7 \<le> unat len"
    using assms(1) by (simp add: word_le_nat_alt)
  moreover have "unat len \<noteq> 0xFFFFFFFF"
    using assms(2) by (auto simp: word_unat_eq_iff)
  moreover have "unat len < 2 ^ 32"
    by (rule order.strict_trans2 [OF unsigned_less]) simp
  ultimately have "\<exists>j. unat len = 0xFFFFFFF7 + j \<and> j \<le> 7"
    by (intro exI [of _ "unat len - 0xFFFFFFF7"]) auto
  then obtain j where k: "unat len = 0xFFFFFFF7 + j" "j \<le> 7"
    by blast
  then show "0xFFFFFFF8 \<le> unat (len + 1)"
    by (simp add: unat_word_ariths)
  have "unat (len + 9) = j"
    using k by (simp add: unat_word_ariths)
  moreover have "sizeof_com len = len + 9"
    by (simp add: sizeof_com_def algebra_simps)
  ultimately show "unat (sizeof_com len) \<le> 7"
    using k by simp
qed

end
