(* ===== verification/Aactd_Clients.thy ===== *)
theory Aactd_Clients
  imports Aactd_Daemon "HOL-Library.Sublist"
begin

text \<open>
  The threads of \<open>eq_sw.c\<close>: the server thread that accepts clients into 32 slots, one thread per
  client, and the daemon's thread that publishes messages, as a step relation. A step is what a thread
  does between two points at which another may run: the sections under \<open>mutex_client_connects\<close> are
  one step each, \<open>mutex_local_com\<close> is explicit because \<open>aactd_writen\<close> may block under it.
\<close>

section \<open>State\<close>

record client_connect =
  c_fd :: int
  is_used :: bool

text \<open>
  Where a client thread is: started; holding the mutex and writing; before the lock of the loop; in
  \<open>pthread_cond_wait\<close>; woken and about to take the mutex again; at \<open>close_connect_fd\<close>; behind the
  \<open>close\<close>; ended.
\<close>

datatype client_pc = Started | Writing | Looping | Waiting | Woken | Closing | Fd_closed | Exited

record client_thread =
  t_slot :: nat
  t_pc :: client_pc

text \<open>
  \<open>fd_conn\<close> gives the connection an open descriptor belongs to; connections are numbered in the order
  of \<open>accept\<close>. \<open>received\<close> is what each call of \<open>aactd_writen\<close> put on a connection.
\<close>

record eq_server =
  com_state :: aactd
  mutex_local_com :: "nat option"
  client_connects :: "client_connect list"
  client_threads :: "client_thread list"
  fd_conn :: "int \<Rightarrow> nat option"
  conns :: nat
  received :: "nat \<Rightarrow> byte list list"

definition CLIENT_NUM_MAX :: nat where "CLIENT_NUM_MAX = 32"

definition server_init :: "aactd \<Rightarrow> eq_server" where
  "server_init sh = \<lparr>com_state = sh, mutex_local_com = None,
     client_connects = replicate CLIENT_NUM_MAX \<lparr>c_fd = 0, is_used = False\<rparr>, client_threads = [],
     fd_conn = (\<lambda>_. None), conns = 0, received = (\<lambda>_. [])\<rparr>"

section \<open>Operations\<close>

text \<open>The search for a free slot.\<close>

fun first_unused :: "client_connect list \<Rightarrow> nat option" where
  "first_unused [] = None"
| "first_unused (c # cs) = (if \<not> is_used c then Some 0 else map_option Suc (first_unused cs))"

text \<open>
  \<open>accept\<close> returned \<open>fd\<close>; \<open>created\<close> is whether \<open>pthread_create\<close> succeeds, which the source does not
  look at.
\<close>

definition accept_connection :: "int \<Rightarrow> bool \<Rightarrow> eq_server \<Rightarrow> eq_server" where
  "accept_connection fd created s =
     (let c = conns s;
          s = s\<lparr>conns := Suc c, fd_conn := (fd_conn s)(fd \<mapsto> c)\<rparr>
      in case first_unused (client_connects s) of
           None \<Rightarrow> s\<lparr>fd_conn := (fd_conn s)(fd := None)\<rparr>
         | Some i \<Rightarrow> s\<lparr>client_connects := (client_connects s)[i := \<lparr>c_fd = fd, is_used = True\<rparr>],
             client_threads := client_threads s @ (if created then [\<lparr>t_slot = i, t_pc = Started\<rparr>] else [])\<rparr>)"

definition com_buf_actual :: "aactd \<Rightarrow> byte list" where
  "com_buf_actual sh = take (unat (sizeof_com (h_data_len (local_header sh)))) (local_com_buf sh)"

definition pc_at :: "eq_server \<Rightarrow> nat \<Rightarrow> client_pc \<Rightarrow> bool" where
  "pc_at s t p \<longleftrightarrow> t < length (client_threads s) \<and> t_pc (client_threads s ! t) = p"

definition set_pc :: "nat \<Rightarrow> client_pc \<Rightarrow> eq_server \<Rightarrow> eq_server" where
  "set_pc t p s = s\<lparr>client_threads := (client_threads s)[t := (client_threads s ! t)\<lparr>t_pc := p\<rparr>]\<rparr>"

definition thread_fd :: "eq_server \<Rightarrow> nat \<Rightarrow> int" where
  "thread_fd s t = c_fd (client_connects s ! t_slot (client_threads s ! t))"

text \<open>The first lock: the current parameters are written when there are any.\<close>

definition client_begin :: "nat \<Rightarrow> eq_server \<Rightarrow> eq_server" where
  "client_begin t s =
     (if h_data_len (local_header (com_state s)) \<noteq> 0
      then set_pc t Writing (s\<lparr>mutex_local_com := Some t\<rparr>)
      else set_pc t Looping s)"

text \<open>
  The write under the mutex and the unlock, the same for the first write and for the updates:
  \<open>rets\<close> are the results of \<open>write\<close>. On a descriptor that is not open nothing is written.
\<close>

definition client_write :: "nat \<Rightarrow> int list \<Rightarrow> eq_server \<Rightarrow> eq_server" where
  "client_write t rets s =
     (let msg = com_buf_actual (com_state s);
          s = s\<lparr>mutex_local_com := None\<rparr>
      in case fd_conn s (thread_fd s t) of
           None \<Rightarrow> set_pc t Closing s
         | Some c \<Rightarrow>
             let (write_bytes, out) = aactd_writen rets msg;
                 s = s\<lparr>received := (received s)(c := received s c @ [out])\<rparr>
             in if write_bytes < 0 then set_pc t Closing s
                else if write_bytes < int (length msg) then set_pc t Closing s
                else set_pc t Looping s)"

text \<open>\<open>eq_sw_write_com_to_local\<close> and its broadcast.\<close>

definition wake_all :: "eq_server \<Rightarrow> eq_server" where
  "wake_all s = s\<lparr>client_threads :=
     map (\<lambda>th. if t_pc th = Waiting then th\<lparr>t_pc := Woken\<rparr> else th) (client_threads s)\<rparr>"

definition client_close :: "nat \<Rightarrow> eq_server \<Rightarrow> eq_server" where
  "client_close t s = set_pc t Fd_closed (s\<lparr>fd_conn := (fd_conn s)(thread_fd s t := None)\<rparr>)"

definition client_exit :: "nat \<Rightarrow> eq_server \<Rightarrow> eq_server" where
  "client_exit t s =
     (let i = t_slot (client_threads s ! t)
      in set_pc t Exited
        (s\<lparr>client_connects := (client_connects s)[i := (client_connects s ! i)\<lparr>is_used := False\<rparr>]\<rparr>))"

section \<open>The step relation\<close>

datatype act =
    Accept int bool | Begin nat | Write nat "int list" | Wait nat | Spurious nat | Relock nat
  | Publish aactd_com | Close nat | Release nat

inductive cstep :: "act \<Rightarrow> eq_server \<Rightarrow> eq_server \<Rightarrow> bool" where
  cs_accept: "fd_conn s fd = None \<Longrightarrow> cstep (Accept fd created) s (accept_connection fd created s)"
| cs_begin: "pc_at s t Started \<Longrightarrow> mutex_local_com s = None \<Longrightarrow> cstep (Begin t) s (client_begin t s)"
| cs_write: "pc_at s t Writing \<Longrightarrow> cstep (Write t rets) s (client_write t rets s)"
| cs_wait: "pc_at s t Looping \<Longrightarrow> mutex_local_com s = None \<Longrightarrow> cstep (Wait t) s (set_pc t Waiting s)"
| cs_spurious: "pc_at s t Waiting \<Longrightarrow> cstep (Spurious t) s (set_pc t Woken s)"
| cs_relock: "pc_at s t Woken \<Longrightarrow> mutex_local_com s = None \<Longrightarrow>
    cstep (Relock t) s (set_pc t Writing (s\<lparr>mutex_local_com := Some t\<rparr>))"
| cs_publish: "mutex_local_com s = None \<Longrightarrow> eq_sw_write_com_to_local (com_state s) com = Some (ret, sh) \<Longrightarrow>
    cstep (Publish com) s (wake_all (s\<lparr>com_state := sh\<rparr>))"
| cs_close: "pc_at s t Closing \<Longrightarrow> cstep (Close t) s (client_close t s)"
| cs_release: "pc_at s t Fd_closed \<Longrightarrow> cstep (Release t) s (client_exit t s)"

inductive_cases cstep_E: "cstep a s s'"
inductive_simps cstep_publish_iff: "cstep (Publish com) s s'"
inductive_simps cstep_accept_iff: "cstep (Accept fd created) s s'"

inductive run :: "act list \<Rightarrow> eq_server \<Rightarrow> eq_server \<Rightarrow> bool" where
  run_nil: "run [] s s"
| run_snoc: "run as s s1 \<Longrightarrow> cstep a s1 s2 \<Longrightarrow> run (as @ [a]) s s2"

text \<open>An invariant of the steps a trace may take holds at its end.\<close>

lemma run_invariant:
  assumes "run as s s'" "P s" "\<And>a s s'. a \<in> set as \<Longrightarrow> P s \<Longrightarrow> cstep a s s' \<Longrightarrow> P s'"
  shows "P s'"
  using assms by (induction rule: run.induct) auto

section \<open>Lemmas: slots and descriptors\<close>

definition slot :: "eq_server \<Rightarrow> nat \<Rightarrow> nat" where
  "slot s t = t_slot (client_threads s ! t)"

text \<open>A thread keeps its slot until it ended, and its descriptor until it closed it.\<close>

definition live :: "eq_server \<Rightarrow> nat \<Rightarrow> bool" where
  "live s t \<longleftrightarrow> t < length (client_threads s) \<and> t_pc (client_threads s ! t) \<noteq> Exited"

definition has_fd :: "eq_server \<Rightarrow> nat \<Rightarrow> bool" where
  "has_fd s t \<longleftrightarrow> t < length (client_threads s) \<and> t_pc (client_threads s ! t) \<notin> {Fd_closed, Exited}"

definition slots_wf :: "eq_server \<Rightarrow> bool" where
  "slots_wf s \<longleftrightarrow>
     length (client_connects s) = CLIENT_NUM_MAX \<and>
     (\<forall>t < length (client_threads s). slot s t < CLIENT_NUM_MAX) \<and>
     (\<forall>t. live s t \<longrightarrow> is_used (client_connects s ! slot s t)) \<and>
     (\<forall>t u. live s t \<and> live s u \<and> slot s t = slot s u \<longrightarrow> t = u)"

definition fds_wf :: "eq_server \<Rightarrow> bool" where
  "fds_wf s \<longleftrightarrow>
     (\<forall>t. has_fd s t \<longrightarrow> fd_conn s (thread_fd s t) \<noteq> None) \<and>
     (\<forall>t u. has_fd s t \<and> has_fd s u \<and> thread_fd s t = thread_fd s u \<longrightarrow> t = u) \<and>
     (\<forall>f c. fd_conn s f = Some c \<longrightarrow> c < conns s) \<and>
     (\<forall>f g c. fd_conn s f = Some c \<and> fd_conn s g = Some c \<longrightarrow> f = g)"

lemma has_fd_live: "has_fd s t \<Longrightarrow> live s t"
  by (auto simp: has_fd_def live_def)

lemma set_pc_simps [simp]:
  "com_state (set_pc t p s) = com_state s" "mutex_local_com (set_pc t p s) = mutex_local_com s"
  "client_connects (set_pc t p s) = client_connects s" "fd_conn (set_pc t p s) = fd_conn s"
  "conns (set_pc t p s) = conns s" "received (set_pc t p s) = received s"
  "length (client_threads (set_pc t p s)) = length (client_threads s)"
  by (simp_all add: set_pc_def)

lemma slot_set_pc [simp]: "slot (set_pc t p s) u = slot s u"
  by (cases "t < length (client_threads s)") (auto simp: slot_def set_pc_def nth_list_update list_update_beyond)

lemma thread_fd_slot: "thread_fd s t = c_fd (client_connects s ! slot s t)"
  by (simp add: thread_fd_def slot_def)

lemma thread_fd_set_pc [simp]: "thread_fd (set_pc t p s) u = thread_fd s u"
  by (simp add: thread_fd_slot)

lemma t_pc_set_pc: "t < length (client_threads s) \<Longrightarrow>
    t_pc (client_threads (set_pc t p s) ! u) = (if u = t then p else t_pc (client_threads s ! u))"
  by (simp add: set_pc_def nth_list_update)

lemma pc_at_set_pc [simp]: "t < length (client_threads s) \<Longrightarrow>
    pc_at (set_pc t p s) u q \<longleftrightarrow> (if u = t then p = q else pc_at s u q)"
  by (auto simp: pc_at_def t_pc_set_pc)

lemma pc_at_less: "pc_at s t p \<Longrightarrow> t < length (client_threads s)"
  by (simp add: pc_at_def)

lemma live_set_pc: "pc_at s t q \<Longrightarrow> live (set_pc t p s) u \<longleftrightarrow> (if u = t then p \<noteq> Exited else live s u)"
  by (auto simp: live_def pc_at_def t_pc_set_pc)

lemma has_fd_set_pc: "pc_at s t q \<Longrightarrow>
    has_fd (set_pc t p s) u \<longleftrightarrow> (if u = t then p \<notin> {Fd_closed, Exited} else has_fd s u)"
  by (auto simp: has_fd_def pc_at_def t_pc_set_pc)

lemma first_unused_Some: "first_unused cs = Some i \<Longrightarrow> i < length cs \<and> \<not> is_used (cs ! i)"
  by (induction cs arbitrary: i) (auto split: if_splits)

lemma first_unused_None: "first_unused cs = None \<longleftrightarrow> (\<forall>c \<in> set cs. is_used c)"
  by (induction cs) auto

text \<open>Moving a thread between two points at which it has a descriptor.\<close>

lemma slots_wf_set_pc: "slots_wf s \<Longrightarrow> pc_at s t q \<Longrightarrow> q \<noteq> Exited \<Longrightarrow> slots_wf (set_pc t p s)"
proof -
  assume wf: "slots_wf s" and t: "pc_at s t q" "q \<noteq> Exited"
  then have l: "live s t"
    by (auto simp: pc_at_def live_def)
  have "live s u" if "live (set_pc t p s) u" for u
    using that l t(1) by (auto simp: live_set_pc split: if_splits)
  then show "slots_wf (set_pc t p s)"
    using wf unfolding slots_wf_def by simp
qed

lemma fds_wf_set_pc:
  assumes wf: "fds_wf s" and t: "pc_at s t q" "q \<notin> {Fd_closed, Exited}"
  shows "fds_wf (set_pc t p s)"
proof -
  have h: "has_fd s t"
    using t by (auto simp: pc_at_def has_fd_def)
  have "has_fd s u" if "has_fd (set_pc t p s) u" for u
    using that h t(1) by (auto simp: has_fd_set_pc split: if_splits)
  then show "fds_wf (set_pc t p s)"
    using wf unfolding fds_wf_def by simp
qed

text \<open>The invariants look only at the slots, the threads and the descriptors.\<close>

lemma slots_wf_cong:
  "client_connects s' = client_connects s \<Longrightarrow> client_threads s' = client_threads s \<Longrightarrow> slots_wf s' = slots_wf s"
  by (simp add: slots_wf_def slot_def live_def)

lemma fds_wf_cong:
  "client_connects s' = client_connects s \<Longrightarrow> client_threads s' = client_threads s \<Longrightarrow> fd_conn s' = fd_conn s \<Longrightarrow>
   conns s' = conns s \<Longrightarrow> fds_wf s' = fds_wf s"
  by (simp add: fds_wf_def has_fd_def thread_fd_def)

text \<open>\<open>accept\<close>: the slot that is taken was free, and the descriptor was not open.\<close>

lemma accept_connection_full:
  "first_unused (client_connects s) = None \<Longrightarrow>
   accept_connection fd created s = s\<lparr>conns := Suc (conns s), fd_conn := (fd_conn s)(fd := None)\<rparr>"
  by (simp add: accept_connection_def Let_def)

lemma accept_connection_slot:
  "first_unused (client_connects s) = Some i \<Longrightarrow>
   accept_connection fd created s = s\<lparr>conns := Suc (conns s), fd_conn := (fd_conn s)(fd \<mapsto> conns s),
     client_connects := (client_connects s)[i := \<lparr>c_fd = fd, is_used = True\<rparr>],
     client_threads := client_threads s @ (if created then [\<lparr>t_slot = i, t_pc = Started\<rparr>] else [])\<rparr>"
  by (simp add: accept_connection_def Let_def)

text \<open>The threads of the state with a new slot: the old ones, and the new one.\<close>

lemma accept_threads:
  assumes i: "first_unused (client_connects s) = Some i" and wf: "slots_wf s"
    and s': "s' = accept_connection fd created s" and t: "t < length (client_threads s')"
  obtains (old) "t < length (client_threads s)" "slot s' t = slot s t"
      "t_pc (client_threads s' ! t) = t_pc (client_threads s ! t)" "live s t \<Longrightarrow> slot s t \<noteq> i"
      "live s t \<Longrightarrow> thread_fd s' t = thread_fd s t"
  | (new) "t = length (client_threads s)" "slot s' t = i" "created" "thread_fd s' t = fd"
      "t_pc (client_threads s' ! t) = Started"
proof (cases "t < length (client_threads s)")
  case True
  have "client_threads s' ! t = client_threads s ! t"
    using True by (simp add: s' accept_connection_slot [OF i] nth_append)
  moreover have free: "live s t \<Longrightarrow> slot s t \<noteq> i"
    using wf first_unused_Some [OF i] by (auto simp: slots_wf_def)
  moreover have "live s t \<Longrightarrow> thread_fd s' t = thread_fd s t"
    using free by (simp add: thread_fd_slot slot_def s' accept_connection_slot [OF i] nth_append True)
  ultimately show ?thesis
    using old [OF True] by (simp add: slot_def)
next
  case False
  then have "t = length (client_threads s)" "created"
    using t by (auto simp: s' accept_connection_slot [OF i] split: if_splits)
  then show ?thesis
    using new first_unused_Some [OF i]
    by (simp add: slot_def thread_fd_slot s' accept_connection_slot [OF i])
qed

lemma slots_wf_accept: 
  assumes wf: "slots_wf s" shows "slots_wf (accept_connection fd created s)"
proof (cases "first_unused (client_connects s)")
  case None
  then show ?thesis
    using wf slots_wf_cong [of "accept_connection fd created s" s] by (simp add: accept_connection_full)
next
  case (Some i)
  let ?s = "accept_connection fd created s"
  have i: "i < CLIENT_NUM_MAX" "length (client_connects s) = CLIENT_NUM_MAX"
    using first_unused_Some [OF Some] wf by (simp_all add: slots_wf_def)
  have less: "slot ?s t < CLIENT_NUM_MAX" if "t < length (client_threads ?s)" for t
    by (cases rule: accept_threads [OF Some wf refl that]) (use wf i in \<open>auto simp: slots_wf_def\<close>)
  have used: "is_used (client_connects ?s ! slot ?s t)" if "live ?s t" for t
  proof -
    have t: "t < length (client_threads ?s)"
      using that by (simp add: live_def)
    show ?thesis
      by (cases rule: accept_threads [OF Some wf refl t])
        (use that wf i in \<open>auto simp: slots_wf_def live_def accept_connection_slot [OF Some] nth_list_update\<close>)
  qed
  have inj: "t = u" if "live ?s t" "live ?s u" "slot ?s t = slot ?s u" for t u
  proof -
    have t: "t < length (client_threads ?s)" and u: "u < length (client_threads ?s)"
      using that by (simp_all add: live_def)
    show ?thesis
    proof (cases rule: accept_threads [OF Some wf refl t])
      case 1
      then show ?thesis
        by (cases rule: accept_threads [OF Some wf refl u]) (use that 1 wf in \<open>auto simp: slots_wf_def live_def\<close>)
    next
      case 2
      then show ?thesis
        by (cases rule: accept_threads [OF Some wf refl u]) (use that 2 wf in \<open>auto simp: slots_wf_def live_def\<close>)
    qed
  qed
  show ?thesis
    unfolding slots_wf_def using less used inj i by (simp add: accept_connection_slot [OF Some])
qed

lemma fds_wf_accept:
  assumes wf: "slots_wf s" "fds_wf s" and fd: "fd_conn s fd = None"
  shows "fds_wf (accept_connection fd created s)"
proof (cases "first_unused (client_connects s)")
  case None
  moreover have "(fd_conn s)(fd := None) = fd_conn s"
    using fd by auto
  ultimately have "accept_connection fd created s = s\<lparr>conns := Suc (conns s)\<rparr>"
    by (simp add: accept_connection_full)
  then show ?thesis
    using wf(2) by (auto simp: fds_wf_def has_fd_def thread_fd_def less_Suc_eq)
next
  case (Some i)
  let ?s = "accept_connection fd created s"
  have conn: "fd_conn ?s = (fd_conn s)(fd \<mapsto> conns s)" "conns ?s = Suc (conns s)"
    by (simp_all add: accept_connection_slot [OF Some])
  have fd_of: "(t < length (client_threads s) \<and> has_fd s t \<and> thread_fd ?s t = thread_fd s t \<and> thread_fd s t \<noteq> fd) \<or>
      (t = length (client_threads s) \<and> thread_fd ?s t = fd)" if "has_fd ?s t" for t
  proof -
    have t: "t < length (client_threads ?s)"
      using that by (simp add: has_fd_def)
    show ?thesis
    proof (cases rule: accept_threads [OF Some wf(1) refl t])
      case 1
      then have h: "has_fd s t"
        using that by (simp add: has_fd_def)
      then have "thread_fd s t \<noteq> fd"
        using wf(2) fd by (auto simp: fds_wf_def)
      then show ?thesis
        using 1 h has_fd_live [OF h] by simp
    qed simp
  qed
  show ?thesis
    unfolding fds_wf_def
  proof (intro conjI allI impI)
    show "fd_conn ?s (thread_fd ?s t) \<noteq> None" if "has_fd ?s t" for t
      using fd_of [OF that] wf(2) by (auto simp: conn fds_wf_def)
    show "t = u" if "has_fd ?s t \<and> has_fd ?s u \<and> thread_fd ?s t = thread_fd ?s u" for t u
      using fd_of [of t] fd_of [of u] that wf(2) by (auto simp: fds_wf_def)
    show "c < conns ?s" if "fd_conn ?s f = Some c" for f c
      using that wf(2) by (auto simp: conn fds_wf_def less_Suc_eq split: if_splits)
    show "f = g" if "fd_conn ?s f = Some c \<and> fd_conn ?s g = Some c" for f g c
      using that wf(2) by (auto simp: conn fds_wf_def split: if_splits)
  qed
qed

text \<open>Waking the waiting threads.\<close>

lemma wake_all_simps [simp]:
  "com_state (wake_all s) = com_state s" "mutex_local_com (wake_all s) = mutex_local_com s"
  "client_connects (wake_all s) = client_connects s" "fd_conn (wake_all s) = fd_conn s"
  "conns (wake_all s) = conns s" "received (wake_all s) = received s"
  "length (client_threads (wake_all s)) = length (client_threads s)"
  by (simp_all add: wake_all_def)

lemma wake_all_thread:
  assumes "t < length (client_threads s)"
  shows "slot (wake_all s) t = slot s t"
    "t_pc (client_threads (wake_all s) ! t) =
      (if t_pc (client_threads s ! t) = Waiting then Woken else t_pc (client_threads s ! t))"
  using assms by (simp_all add: slot_def wake_all_def)

lemma live_wake_all [simp]: "live (wake_all s) t = live s t"
  by (cases "t < length (client_threads s)") (simp_all add: live_def wake_all_thread)

lemma has_fd_wake_all [simp]: "has_fd (wake_all s) t = has_fd s t"
  by (cases "t < length (client_threads s)") (simp_all add: has_fd_def wake_all_thread)

lemma thread_fd_wake_all: "has_fd s t \<Longrightarrow> thread_fd (wake_all s) t = thread_fd s t"
  by (simp add: thread_fd_slot wake_all_thread has_fd_def)

lemma pc_at_wake_all:
  "pc_at (wake_all s) t p \<longleftrightarrow> (if p = Woken then pc_at s t Waiting \<or> pc_at s t Woken else p \<noteq> Waiting \<and> pc_at s t p)"
  by (cases "t < length (client_threads s)") (auto simp: pc_at_def wake_all_thread)

lemma slot_wake_all_live: "live s t \<Longrightarrow> slot (wake_all s) t = slot s t"
  by (simp add: live_def wake_all_thread)

lemma slots_wf_wake_all: "slots_wf s \<Longrightarrow> slots_wf (wake_all s)"
  unfolding slots_wf_def by (auto simp: slot_wake_all_live wake_all_thread(1))

lemma fds_wf_wake_all: "fds_wf s \<Longrightarrow> fds_wf (wake_all s)"
  unfolding fds_wf_def by (auto simp: thread_fd_wake_all)

text \<open>The end of a client thread.\<close>

lemma slot_upd [simp]: "slot (s\<lparr>fd_conn := f\<rparr>) u = slot s u"
  by (simp add: slot_def)

lemma fds_wf_close:
  assumes wf: "fds_wf s" and t: "pc_at s t Closing"
  shows "fds_wf (client_close t s)"
proof -
  have h: "has_fd s t" and l: "t < length (client_threads s)"
    using t by (auto simp: has_fd_def pc_at_def)
  have other: "has_fd s u \<and> u \<noteq> t \<and> thread_fd s u \<noteq> thread_fd s t \<and> thread_fd (client_close t s) u = thread_fd s u"
    if "has_fd (client_close t s) u" for u
  proof -
    have u: "u \<noteq> t" "has_fd s u"
      using that l by (auto simp: client_close_def has_fd_def t_pc_set_pc split: if_splits)
    then have "thread_fd s u \<noteq> thread_fd s t"
      using wf h unfolding fds_wf_def by blast
    then show ?thesis
      using u by (simp add: client_close_def thread_fd_slot slot_upd)
  qed
  show ?thesis
    unfolding fds_wf_def
  proof (intro conjI allI impI)
    show "fd_conn (client_close t s) (thread_fd (client_close t s) u) \<noteq> None" if "has_fd (client_close t s) u" for u
      using other [OF that] wf by (simp add: client_close_def fds_wf_def)
    show "u = v" if "has_fd (client_close t s) u \<and> has_fd (client_close t s) v \<and>
        thread_fd (client_close t s) u = thread_fd (client_close t s) v" for u v
      using other [of u] other [of v] that wf by (auto simp: fds_wf_def)
    show "c < conns (client_close t s)" if "fd_conn (client_close t s) f = Some c" for f c
      using that wf by (auto simp: client_close_def fds_wf_def split: if_splits)
    show "f = g" if "fd_conn (client_close t s) f = Some c \<and> fd_conn (client_close t s) g = Some c" for f g c
      using that wf by (auto simp: client_close_def fds_wf_def split: if_splits)
  qed
qed

lemma exit_simps:
  assumes "pc_at s t Fd_closed"
  shows "live (client_exit t s) u \<longleftrightarrow> live s u \<and> u \<noteq> t" "has_fd (client_exit t s) u \<longleftrightarrow> has_fd s u"
    "slot (client_exit t s) u = slot s u" "fd_conn (client_exit t s) = fd_conn s"
    "conns (client_exit t s) = conns s" "length (client_threads (client_exit t s)) = length (client_threads s)"
    "length (client_connects (client_exit t s)) = length (client_connects s)"
    "client_connects (client_exit t s) =
      (client_connects s)[slot s t := (client_connects s ! slot s t)\<lparr>is_used := False\<rparr>]"
  using assms by (auto simp: client_exit_def Let_def live_def has_fd_def pc_at_def t_pc_set_pc) (simp_all add: slot_def)

lemma slots_wf_exit:
  assumes wf: "slots_wf s" and t: "pc_at s t Fd_closed"
  shows "slots_wf (client_exit t s)"
proof -
  have l: "live s t"
    using t by (auto simp: live_def pc_at_def)
  have "slot s u \<noteq> slot s t" if "live s u" "u \<noteq> t" for u
    using wf l that unfolding slots_wf_def by blast
  then have "slot s t \<noteq> slot s u" if "live s u" "u \<noteq> t" for u
    using that by metis
  then show ?thesis
    using wf unfolding slots_wf_def by (simp add: exit_simps [OF t])
qed

lemma fds_wf_exit:
  assumes wf: "fds_wf s" and t: "pc_at s t Fd_closed"
  shows "fds_wf (client_exit t s)"
proof -
  have "thread_fd (client_exit t s) u = thread_fd s u" for u
    by (cases "slot s t < length (client_connects s)")
      (auto simp: thread_fd_slot exit_simps [OF t] nth_list_update list_update_beyond)
  then show ?thesis
    using wf unfolding fds_wf_def by (simp add: exit_simps [OF t])
qed

text \<open>Writing leaves the slots and descriptors alone, and ends in one of two places.\<close>

definition wrote :: "eq_server \<Rightarrow> nat \<Rightarrow> byte list \<Rightarrow> eq_server" where
  "wrote s c out = s\<lparr>mutex_local_com := None, received := (received s)(c := received s c @ [out])\<rparr>"

lemma client_write_cases:
  obtains (closed) "fd_conn s (thread_fd s t) = None"
      "client_write t rets s = set_pc t Closing (s\<lparr>mutex_local_com := None\<rparr>)"
  | (failed) c n out where "fd_conn s (thread_fd s t) = Some c"
      "aactd_writen rets (com_buf_actual (com_state s)) = (n, out)" "n < int (length (com_buf_actual (com_state s)))"
      "client_write t rets s = set_pc t Closing (wrote s c out)"
  | (complete) c n out where "fd_conn s (thread_fd s t) = Some c"
      "aactd_writen rets (com_buf_actual (com_state s)) = (n, out)" "int (length (com_buf_actual (com_state s))) \<le> n"
      "client_write t rets s = set_pc t Looping (wrote s c out)"
proof (cases "fd_conn s (thread_fd s t)")
  case None
  then show ?thesis
    using closed by (simp add: client_write_def thread_fd_def)
next
  case (Some c)
  obtain n out where "aactd_writen rets (com_buf_actual (com_state s)) = (n, out)"
    by (cases "aactd_writen rets (com_buf_actual (com_state s))")
  then show ?thesis
    using Some failed [of c n out] complete [of c n out]
    by (cases "n < int (length (com_buf_actual (com_state s)))")
      (simp_all add: client_write_def thread_fd_def wrote_def Let_def)
qed

lemma slots_fds_write:
  assumes "slots_wf s" "fds_wf s" "pc_at s t Writing"
  shows "slots_wf (client_write t rets s) \<and> fds_wf (client_write t rets s)"
proof -
  have inner: "slots_wf s' \<and> fds_wf s' \<and> pc_at s' t Writing"
    if "client_connects s' = client_connects s" "client_threads s' = client_threads s" "fd_conn s' = fd_conn s"
      "conns s' = conns s" for s'
    using that assms slots_wf_cong [of s' s] fds_wf_cong [of s' s] by (simp add: pc_at_def)
  have outer: "slots_wf (set_pc t p s') \<and> fds_wf (set_pc t p s')"
    if "client_connects s' = client_connects s" "client_threads s' = client_threads s" "fd_conn s' = fd_conn s"
      "conns s' = conns s" for s' p
    using inner [OF that] slots_wf_set_pc [of s' t Writing p] fds_wf_set_pc [of s' t Writing p] by simp
  show ?thesis
    by (rule client_write_cases [of s t rets]) (simp_all add: outer wrote_def)
qed

text \<open>The invariant of slots and descriptors holds at every step.\<close>

lemma slots_fds_step: "cstep a s s' \<Longrightarrow> slots_wf s \<Longrightarrow> fds_wf s \<Longrightarrow> slots_wf s' \<and> fds_wf s'"
proof (induction rule: cstep.induct)
  case (cs_begin s t)
  let ?s = "s\<lparr>mutex_local_com := Some t\<rparr>"
  have "slots_wf ?s" "fds_wf ?s" "pc_at ?s t Started"
    using cs_begin slots_wf_cong [of ?s s] fds_wf_cong [of ?s s] by (simp_all add: pc_at_def)
  then show ?case
    using cs_begin slots_wf_set_pc fds_wf_set_pc [of _ t Started] by (simp add: client_begin_def)
next
  case (cs_relock s t)
  let ?s = "s\<lparr>mutex_local_com := Some t\<rparr>"
  have "slots_wf ?s" "fds_wf ?s" "pc_at ?s t Woken"
    using cs_relock slots_wf_cong [of ?s s] fds_wf_cong [of ?s s] by (simp_all add: pc_at_def)
  then show ?case
    using slots_wf_set_pc fds_wf_set_pc [of _ t Woken] by simp
next
  case (cs_publish s com ret sh)
  let ?s = "s\<lparr>com_state := sh\<rparr>"
  show ?case
    using cs_publish slots_wf_wake_all [of ?s] fds_wf_wake_all [of ?s] slots_wf_cong [of ?s s] fds_wf_cong [of ?s s]
    by simp
next
  case (cs_close s t)
  have "slots_wf (s\<lparr>fd_conn := f\<rparr>)" "pc_at (s\<lparr>fd_conn := f\<rparr>) t Closing" for f
    using cs_close slots_wf_cong [of "s\<lparr>fd_conn := f\<rparr>" s] by (simp_all add: pc_at_def)
  then have "slots_wf (client_close t s)"
    unfolding client_close_def by (rule slots_wf_set_pc) simp
  then show ?case
    using cs_close fds_wf_close by simp
qed (simp_all add: slots_wf_accept fds_wf_accept slots_fds_write slots_wf_set_pc fds_wf_set_pc
    slots_wf_exit fds_wf_exit)

end
