(* ===== verification/Aactd_Delivery.thy ===== *)
theory Aactd_Delivery
  imports Aactd_Clients
begin

text \<open>
  What the client threads of \<open>eq_sw.c\<close> deliver: mutual exclusion on the local message, and the order
  and completeness of what a client receives.
\<close>

section \<open>Mutual exclusion\<close>

text \<open>The mutex is held exactly by the thread that writes.\<close>

definition lock_wf :: "eq_server \<Rightarrow> bool" where
  "lock_wf s \<longleftrightarrow> (\<forall>t. pc_at s t Writing \<longleftrightarrow> mutex_local_com s = Some t)"

lemma pc_at_accept:
  "pc_at (accept_connection fd created s) t p \<longleftrightarrow> pc_at s t p \<or>
     (t = length (client_threads s) \<and> p = Started \<and> created \<and> first_unused (client_connects s) \<noteq> None)"
proof (cases "first_unused (client_connects s)")
  case None
  then show ?thesis
    by (simp add: accept_connection_full pc_at_def)
next
  case (Some i)
  then show ?thesis
    by (auto simp: accept_connection_slot pc_at_def nth_append)
qed

lemma accept_fields [simp]:
  "com_state (accept_connection fd created s) = com_state s"
  "mutex_local_com (accept_connection fd created s) = mutex_local_com s"
  "received (accept_connection fd created s) = received s"
  "conns (accept_connection fd created s) = Suc (conns s)"
  by (cases "first_unused (client_connects s)"; simp add: accept_connection_full accept_connection_slot)+

lemma pc_at_update [simp]:
  "pc_at (s\<lparr>mutex_local_com := m\<rparr>) t p = pc_at s t p" "pc_at (s\<lparr>com_state := sh\<rparr>) t p = pc_at s t p"
  "pc_at (s\<lparr>fd_conn := f\<rparr>) t p = pc_at s t p" "pc_at (s\<lparr>client_connects := cs\<rparr>) t p = pc_at s t p"
  "pc_at (wrote s c out) t p = pc_at s t p"
  by (simp_all add: pc_at_def wrote_def)

lemma set_pc_update [simp]:
  "client_threads (s\<lparr>mutex_local_com := m\<rparr>) = client_threads s"
  "client_threads (wrote s c out) = client_threads s" "mutex_local_com (wrote s c out) = None"
  "com_state (wrote s c out) = com_state s" "conns (wrote s c out) = conns s" "fd_conn (wrote s c out) = fd_conn s"
  "received (wrote s c out) = (received s)(c := received s c @ [out])"
  by (simp_all add: wrote_def)

lemma pc_at_unique: "pc_at s t p \<Longrightarrow> pc_at s t q \<longleftrightarrow> p = q"
  by (auto simp: pc_at_def)

lemma lock_step: "cstep a s s' \<Longrightarrow> lock_wf s \<Longrightarrow> lock_wf s'"
proof (induction rule: cstep.induct)
  case (cs_accept s fd created)
  then show ?case
    by (auto simp: lock_wf_def pc_at_accept)
next
  case (cs_begin s t)
  then show ?case
    using pc_at_less [OF cs_begin(1)] by (auto simp: lock_wf_def client_begin_def)
next
  case (cs_write s t rets)
  have "mutex_local_com s = Some t" "t < length (client_threads s)"
    using cs_write pc_at_less by (auto simp: lock_wf_def)
  then show ?case
    using cs_write by (cases rule: client_write_cases [of s t rets]) (auto simp: lock_wf_def)
next
  case (cs_publish s com ret sh)
  then show ?case
    by (auto simp: lock_wf_def pc_at_wake_all)
next
  case (cs_close s t)
  then have "mutex_local_com s \<noteq> Some t"
    using pc_at_unique [of s t Closing Writing] by (auto simp: lock_wf_def)
  then show ?case
    using cs_close pc_at_less [OF cs_close(1)] by (auto simp: lock_wf_def client_close_def)
next
  case (cs_release s t)
  then have "mutex_local_com s \<noteq> Some t"
    using pc_at_unique [of s t Fd_closed Writing] by (auto simp: lock_wf_def)
  then show ?case
    using cs_release pc_at_less [OF cs_release(1)] by (auto simp: lock_wf_def client_exit_def Let_def)
next
  case (cs_wait s t)
  then show ?case
    using pc_at_less [OF cs_wait(1)] by (auto simp: lock_wf_def)
next
  case (cs_spurious s t)
  then have "mutex_local_com s \<noteq> Some t"
    using pc_at_unique [of s t Waiting Writing] by (auto simp: lock_wf_def)
  then show ?case
    using cs_spurious pc_at_less [OF cs_spurious(1)] by (auto simp: lock_wf_def)
next
  case (cs_relock s t)
  then show ?case
    using pc_at_less [OF cs_relock(1)] by (auto simp: lock_wf_def)
qed

section \<open>What a client receives\<close>

text \<open>Whole messages, in the order of their publication, each any number of times or not at all.\<close>

definition sent_in_order :: "byte list list \<Rightarrow> byte list list \<Rightarrow> bool" where
  "sent_in_order pub rs \<longleftrightarrow> (\<exists>ks. sorted ks \<and> (\<forall>i \<in> set ks. i < length pub) \<and> rs = map ((!) pub) ks)"

text \<open>The same, and the last one cut off.\<close>

definition cut_off :: "byte list list \<Rightarrow> byte list list \<Rightarrow> bool" where
  "cut_off pub rs \<longleftrightarrow> (\<exists>ks i w. sorted (ks @ [i]) \<and> (\<forall>j \<in> set (ks @ [i]). j < length pub) \<and> prefix w (pub ! i) \<and>
     rs = map ((!) pub) ks @ [w])"

lemma sent_in_order_Nil [simp]: "sent_in_order pub []"
  by (auto simp: sent_in_order_def)

lemma sent_in_order_last: "sent_in_order pub rs \<Longrightarrow> pub \<noteq> [] \<Longrightarrow> sent_in_order pub (rs @ [last pub])"
proof -
  assume "sent_in_order pub rs" "pub \<noteq> []"
  then obtain ks where "sorted ks" "\<forall>i \<in> set ks. i < length pub" "rs = map ((!) pub) ks"
    by (auto simp: sent_in_order_def)
  then show ?thesis
    using \<open>pub \<noteq> []\<close> unfolding sent_in_order_def
    by (intro exI [of _ "ks @ [length pub - 1]"]) (force simp: sorted_append last_conv_nth)
qed

lemma cut_off_last: "sent_in_order pub rs \<Longrightarrow> pub \<noteq> [] \<Longrightarrow> prefix w (last pub) \<Longrightarrow> cut_off pub (rs @ [w])"
proof -
  assume "sent_in_order pub rs" "pub \<noteq> []" "prefix w (last pub)"
  then obtain ks where "sorted ks" "\<forall>i \<in> set ks. i < length pub" "rs = map ((!) pub) ks"
    by (auto simp: sent_in_order_def)
  then show ?thesis
    using \<open>pub \<noteq> []\<close> \<open>prefix w (last pub)\<close> unfolding cut_off_def
    by (intro exI [of _ ks] exI [of _ "length pub - 1"] exI [of _ w]) (force simp: sorted_append last_conv_nth)
qed

lemma map_nth_append: "\<forall>i \<in> set ks. i < length pub \<Longrightarrow> map ((!) (pub @ xs)) ks = map ((!) pub) ks"
  by (simp add: nth_append)

lemma sent_in_order_more: "sent_in_order pub rs \<Longrightarrow> sent_in_order (pub @ xs) rs"
  unfolding sent_in_order_def by (metis map_nth_append length_append trans_less_add1)

lemma cut_off_more: "cut_off pub rs \<Longrightarrow> cut_off (pub @ xs) rs"
proof -
  assume "cut_off pub rs"
  then obtain ks i w where w: "sorted (ks @ [i])" "\<forall>j \<in> set (ks @ [i]). j < length pub" "prefix w (pub ! i)"
    "rs = map ((!) pub) ks @ [w]"
    unfolding cut_off_def by blast
  then show ?thesis
    unfolding cut_off_def
    by (intro exI [of _ ks] exI [of _ i] exI [of _ w]) (auto simp: nth_append)
qed

lemma writen_prefix: "aactd_writen rets bs = (n, out) \<Longrightarrow> prefix out bs \<and> (int (length bs) \<le> n \<longrightarrow> out = bs)"
proof (induction rets bs arbitrary: n out rule: aactd_writen.induct)
  case (2 ret rets bs)
  show ?case
  proof (cases "bs = [] \<or> ret \<le> 0")
    case True
    then show ?thesis
      using 2(2) by (auto split: if_splits)
  next
    case False
    define k where "k = min (nat ret) (length bs)"
    obtain m o' where m: "aactd_writen rets (drop k bs) = (m, o')"
      by (cases "aactd_writen rets (drop k bs)")
    have IH: "prefix o' (drop k bs)" "int (length (drop k bs)) \<le> m \<longrightarrow> o' = drop k bs"
      using 2(1) [OF _ _ _ k_def m] False by auto
    have res: "n = (if m < 0 then -1 else int k + m)" "out = take k bs @ o'"
      using 2(2) False m by (auto simp: Let_def k_def)
    have "prefix (take k bs @ o') (take k bs @ drop k bs)"
      using IH(1) by (simp only: same_prefix_prefix)
    moreover have "k \<le> length bs"
      by (simp add: k_def)
    ultimately show ?thesis
      using IH(2) res False by (auto split: if_splits)
  qed
qed simp

text \<open>The buffer holds the last message published.\<close>

definition com_wf :: "aactd \<Rightarrow> bool" where
  "com_wf sh \<longleftrightarrow>
     (h_data_len (local_header sh) \<noteq> 0 \<longrightarrow> published sh \<noteq> []) \<and>
     (published sh \<noteq> [] \<longrightarrow> com_buf_actual sh = last (published sh))"

lemma eq_sw_write_publishes:
  "eq_sw_write_com_to_local sh com = Some (ret, sh') \<Longrightarrow>
   published sh' = published sh @ [com_buf_actual sh'] \<and> ret = 0"
  by (auto simp: eq_sw_write_com_to_local_def com_buf_actual_def Let_def Option.bind_eq_Some_conv)

section \<open>The invariant of delivery\<close>

text \<open>A thread that may still write on its connection.\<close>

definition sending :: "eq_server \<Rightarrow> nat \<Rightarrow> bool" where
  "sending s t \<longleftrightarrow> has_fd s t \<and> \<not> pc_at s t Closing"

definition delivery :: "eq_server \<Rightarrow> bool" where
  "delivery s \<longleftrightarrow>
     com_wf (com_state s) \<and>
     (\<forall>t. pc_at s t Writing \<or> pc_at s t Woken \<longrightarrow> published (com_state s) \<noteq> []) \<and>
     (\<forall>c. sent_in_order (published (com_state s)) (received s c) \<or> cut_off (published (com_state s)) (received s c)) \<and>
     (\<forall>t c. sending s t \<and> fd_conn s (thread_fd s t) = Some c \<longrightarrow>
        sent_in_order (published (com_state s)) (received s c)) \<and>
     (\<forall>c. conns s \<le> c \<longrightarrow> received s c = [])"

lemma sending_set_pc:
  "pc_at s t q \<Longrightarrow> sending (set_pc t p s) u \<longleftrightarrow>
     (if u = t then p \<notin> {Closing, Fd_closed, Exited} else sending s u)"
  using pc_at_less [of s t q] by (auto simp: sending_def has_fd_set_pc)

lemma sendingI: "pc_at s t p \<Longrightarrow> p \<notin> {Closing, Fd_closed, Exited} \<Longrightarrow> sending s t"
  by (auto simp: sending_def has_fd_def pc_at_def)

lemma sending_update [simp]:
  "sending (s\<lparr>mutex_local_com := m\<rparr>) t = sending s t" "sending (s\<lparr>com_state := sh\<rparr>) t = sending s t"
  "sending (wrote s c out) t = sending s t"
  by (simp_all add: sending_def has_fd_def)

lemma thread_fd_update [simp]:
  "thread_fd (s\<lparr>mutex_local_com := m\<rparr>) t = thread_fd s t" "thread_fd (s\<lparr>com_state := sh\<rparr>) t = thread_fd s t"
  "thread_fd (wrote s c out) t = thread_fd s t"
  by (simp_all add: thread_fd_def wrote_def)

text \<open>Moving a thread to a point at which it does not write.\<close>

lemma delivery_set_pc:
  assumes "delivery s" "pc_at s t q" "q \<notin> {Closing, Fd_closed, Exited}"
    "p \<in> {Writing, Woken} \<Longrightarrow> published (com_state s) \<noteq> []"
  shows "delivery (set_pc t p s)"
proof -
  have "sending s u" if "sending (set_pc t p s) u" for u
    using that assms(2,3) sendingI by (auto simp: sending_set_pc split: if_splits)
  moreover have "pc_at (set_pc t p s) u Writing \<or> pc_at (set_pc t p s) u Woken \<Longrightarrow> published (com_state s) \<noteq> []" for u
    using assms pc_at_less [OF assms(2)] by (auto simp: delivery_def split: if_splits)
  ultimately show ?thesis
    using assms(1) unfolding delivery_def by (simp, blast)
qed

lemma delivery_mutex: "delivery s \<Longrightarrow> delivery (s\<lparr>mutex_local_com := m\<rparr>)"
  by (simp add: delivery_def)

lemma thread_fd_accept:
  assumes "slots_wf s" "live s t"
  shows "thread_fd (accept_connection fd created s) t = thread_fd s t"
proof (cases "first_unused (client_connects s)")
  case None
  then show ?thesis
    by (simp add: accept_connection_full thread_fd_def)
next
  case (Some i)
  then have "slot s t \<noteq> i"
    using assms first_unused_Some [OF Some] by (auto simp: slots_wf_def)
  then show ?thesis
    using assms(2) by (simp add: thread_fd_slot slot_def accept_connection_slot [OF Some] live_def nth_append)
qed

lemma fd_conn_accept:
  "fd_conn s fd = None \<Longrightarrow> fd_conn (accept_connection fd created s) f =
     (if f = fd \<and> first_unused (client_connects s) \<noteq> None then Some (conns s) else fd_conn s f)"
  by (cases "first_unused (client_connects s)") (auto simp: accept_connection_full accept_connection_slot)

lemma sending_accept:
  "sending (accept_connection fd created s) t \<Longrightarrow> sending s t \<or>
     t = length (client_threads s) \<and> first_unused (client_connects s) \<noteq> None"
proof (cases "first_unused (client_connects s)")
  case None
  then show "sending (accept_connection fd created s) t \<Longrightarrow> ?thesis"
    by (simp add: accept_connection_full sending_def has_fd_def pc_at_def)
next
  case (Some i)
  then show "sending (accept_connection fd created s) t \<Longrightarrow> ?thesis"
    by (auto simp: accept_connection_slot sending_def has_fd_def pc_at_def nth_append split: if_splits)
qed

lemma delivery_accept:
  assumes d: "delivery s" and wf: "slots_wf s" "fds_wf s" and fd: "fd_conn s fd = None"
  shows "delivery (accept_connection fd created s)"
proof -
  let ?s = "accept_connection fd created s" and ?pub = "published (com_state s)"
  have "sent_in_order ?pub (received s c)" if t: "sending ?s t" "fd_conn ?s (thread_fd ?s t) = Some c" for t c
  proof (cases "sending s t")
    case True
    then have h: "has_fd s t"
      by (simp add: sending_def)
    then have "thread_fd ?s t = thread_fd s t" "thread_fd s t \<noteq> fd"
      using thread_fd_accept [OF wf(1) has_fd_live [OF h]] wf(2) fd by (auto simp: fds_wf_def)
    then have "fd_conn s (thread_fd s t) = Some c"
      using t(2) fd by (simp add: fd_conn_accept)
    then show ?thesis
      using True d unfolding delivery_def by blast
  next
    case False
    then obtain i where i: "t = length (client_threads s)" "first_unused (client_connects s) = Some i"
      using sending_accept [OF t(1)] by auto
    have "created"
      using t(1) i by (auto simp: sending_def has_fd_def accept_connection_slot split: if_splits)
    then have "thread_fd ?s t = fd"
      using first_unused_Some [OF i(2)] i by (simp add: thread_fd_def accept_connection_slot)
    then have "c = conns s"
      using t(2) fd i(2) by (simp add: fd_conn_accept)
    then show ?thesis
      using d by (simp add: delivery_def)
  qed
  then show ?thesis
    using d unfolding delivery_def by (auto simp: pc_at_accept)
qed

text \<open>A write: on the thread's own connection, of the last message.\<close>

lemma delivery_write:
  assumes d: "delivery s" and wf: "fds_wf s" and t: "pc_at s t Writing"
  shows "delivery (client_write t rets s)"
proof -
  let ?pub = "published (com_state s)" and ?msg = "com_buf_actual (com_state s)"
  have pub: "?pub \<noteq> []" "?msg = last ?pub"
    using d t unfolding delivery_def com_wf_def by auto
  have ht: "has_fd s t" "sending s t"
    using t sendingI [OF t] by (auto simp: sending_def)
  have only: "u = t" if "has_fd s u" "fd_conn s (thread_fd s u) = fd_conn s (thread_fd s t)" for u
    using wf ht(1) that unfolding fds_wf_def by (metis option.exhaust)
  have other: "sent_in_order ?pub (received s e)"
    if "sending s u" "fd_conn s (thread_fd s u) = Some e" for u e
    using d that unfolding delivery_def by blast
  have wrote: "delivery (set_pc t p (wrote s c out))"
    if c: "fd_conn s (thread_fd s t) = Some c" and p: "p = Looping \<and> out = ?msg \<or> p = Closing \<and> prefix out ?msg" for p c out
  proof -
    let ?s = "set_pc t p (wrote s c out)"
    have own: "sent_in_order ?pub (received s c)"
      using other [OF ht(2) c] .
    have cc: "c < conns s"
      using wf c unfolding fds_wf_def by blast
    have ok: "sent_in_order ?pub (received ?s e) \<or> cut_off ?pub (received ?s e)" for e
      using d own p pub sent_in_order_last [OF own pub(1)] cut_off_last [OF own pub(1), of out]
      by (auto simp: delivery_def)
    have snd: "sent_in_order ?pub (received ?s e)"
      if u: "sending ?s u" "fd_conn ?s (thread_fd ?s u) = Some e" for u e
    proof -
      have fdu: "fd_conn s (thread_fd s u) = Some e"
        using u(2) by simp
      have su: "u = t \<and> p = Looping \<or> u \<noteq> t \<and> sending s u"
        using u(1) t p by (auto simp: sending_set_pc [of _ t Writing] split: if_splits)
      then show ?thesis
      proof
        assume "u = t \<and> p = Looping"
        then show ?thesis
          using fdu c p pub sent_in_order_last [OF own pub(1)] by auto
      next
        assume v: "u \<noteq> t \<and> sending s u"
        then have "e \<noteq> c"
          using only [of u] fdu c by (auto simp: sending_def)
        then show ?thesis
          using other [of u e] v fdu by simp
      qed
    qed
    have pub': "published (com_state ?s) = ?pub" "com_wf (com_state ?s)" "\<forall>e. conns ?s \<le> e \<longrightarrow> received ?s e = []"
      using d cc by (auto simp: delivery_def)
    show ?thesis
      unfolding delivery_def pub'(1) using ok snd pub(1) pub'(2,3) by blast
  qed
  show ?thesis
  proof (rule client_write_cases [of s t rets])
    assume "client_write t rets s = set_pc t Closing (s\<lparr>mutex_local_com := None\<rparr>)"
    then show ?thesis
      using delivery_set_pc [of "s\<lparr>mutex_local_com := None\<rparr>" t Writing Closing] delivery_mutex [OF d] t by simp
  next
    fix c n out
    assume "fd_conn s (thread_fd s t) = Some c" "aactd_writen rets ?msg = (n, out)"
      "client_write t rets s = set_pc t Closing (wrote s c out)"
    then show ?thesis
      using wrote [of c Closing out] writen_prefix by auto
  next
    fix c n out
    assume "fd_conn s (thread_fd s t) = Some c" "aactd_writen rets ?msg = (n, out)" "int (length ?msg) \<le> n"
      "client_write t rets s = set_pc t Looping (wrote s c out)"
    then show ?thesis
      using wrote [of c Looping out] writen_prefix by auto
  qed
qed

text \<open>A new message: what was received so far stays in order.\<close>

lemma delivery_publish:
  assumes d: "delivery s" and w: "eq_sw_write_com_to_local (com_state s) com = Some (ret, sh)"
  shows "delivery (wake_all (s\<lparr>com_state := sh\<rparr>))"
proof -
  let ?s = "wake_all (s\<lparr>com_state := sh\<rparr>)"
  have pub: "published sh = published (com_state s) @ [com_buf_actual sh]"
    using eq_sw_write_publishes [OF w] by simp
  have snd: "sending s t \<and> thread_fd ?s t = thread_fd s t" if "sending ?s t" for t
  proof -
    have "has_fd (s\<lparr>com_state := sh\<rparr>) t" "\<not> pc_at s t Closing"
      using that by (auto simp: sending_def pc_at_wake_all)
    moreover from this(1) have "has_fd s t"
      by (simp add: has_fd_def)
    ultimately show ?thesis
      using thread_fd_wake_all [of "s\<lparr>com_state := sh\<rparr>" t] by (simp add: sending_def)
  qed
  have "sent_in_order (published sh) (received s c)" if "sending ?s t" "fd_conn s (thread_fd ?s t) = Some c" for t c
    using d snd [OF that(1)] that(2) sent_in_order_more unfolding delivery_def pub by metis
  moreover have "sent_in_order (published sh) (received s c) \<or> cut_off (published sh) (received s c)" for c
    using d sent_in_order_more cut_off_more unfolding delivery_def pub by metis
  moreover have "com_wf sh"
    by (simp add: com_wf_def pub)
  ultimately show ?thesis
    using d unfolding delivery_def by (simp add: pub, blast)
qed

text \<open>The end of a thread takes a descriptor away.\<close>

lemma delivery_fewer:
  assumes "delivery s" "com_state s' = com_state s" "received s' = received s" "conns s' = conns s"
    "\<And>t. pc_at s' t Writing \<or> pc_at s' t Woken \<Longrightarrow> pc_at s t Writing \<or> pc_at s t Woken"
    "\<And>t c. sending s' t \<Longrightarrow> fd_conn s' (thread_fd s' t) = Some c \<Longrightarrow> sending s t \<and> fd_conn s (thread_fd s t) = Some c"
  shows "delivery s'"
  using assms unfolding delivery_def by (simp, metis)

lemma delivery_close: "delivery s \<Longrightarrow> pc_at s t Closing \<Longrightarrow> delivery (client_close t s)"
proof (rule delivery_fewer [of s])
  assume t: "pc_at s t Closing"
  note l = pc_at_less [OF t]
  show "pc_at (client_close t s) u Writing \<or> pc_at (client_close t s) u Woken \<Longrightarrow> pc_at s u Writing \<or> pc_at s u Woken" for u
    using l by (auto simp: client_close_def split: if_splits)
  show "sending s u \<and> fd_conn s (thread_fd s u) = Some c"
    if "sending (client_close t s) u" "fd_conn (client_close t s) (thread_fd (client_close t s) u) = Some c" for u c
  proof -
    have "u \<noteq> t" "sending s u"
      using that(1) t l by (auto simp: client_close_def sending_def has_fd_def t_pc_set_pc split: if_splits)
    moreover have "thread_fd (client_close t s) u = thread_fd s u"
      by (simp add: client_close_def thread_fd_slot)
    ultimately show ?thesis
      using that(2) by (simp add: client_close_def split: if_splits)
  qed
qed (simp_all add: client_close_def)

lemma delivery_exit: "delivery s \<Longrightarrow> pc_at s t Fd_closed \<Longrightarrow> delivery (client_exit t s)"
proof (rule delivery_fewer [of s])
  assume t: "pc_at s t Fd_closed"
  note l = pc_at_less [OF t]
  show "pc_at (client_exit t s) u Writing \<or> pc_at (client_exit t s) u Woken \<Longrightarrow> pc_at s u Writing \<or> pc_at s u Woken" for u
    using l by (auto simp: client_exit_def Let_def split: if_splits)
  have "thread_fd (client_exit t s) u = thread_fd s u" for u
    by (cases "slot s t < length (client_connects s)")
      (auto simp: thread_fd_slot exit_simps [OF t] nth_list_update list_update_beyond)
  moreover have has_fd_exit: "\<not> has_fd s t"
    using t by (simp add: has_fd_def pc_at_def)
  ultimately show "sending s u \<and> fd_conn s (thread_fd s u) = Some c"
    if "sending (client_exit t s) u" "fd_conn (client_exit t s) (thread_fd (client_exit t s) u) = Some c" for u c
    using that t l has_fd_exit by (auto simp: sending_def exit_simps [OF t]) (auto simp: client_exit_def Let_def split: if_splits)
qed (simp_all add: client_exit_def Let_def)

lemma delivery_step:
  "cstep a s s' \<Longrightarrow> slots_wf s \<Longrightarrow> fds_wf s \<Longrightarrow> delivery s \<Longrightarrow> (\<forall>t. a \<noteq> Spurious t) \<Longrightarrow> delivery s'"
proof (induction rule: cstep.induct)
  case (cs_begin s t)
  then show ?case
    using delivery_set_pc [of s t Started Looping]
      delivery_set_pc [of "s\<lparr>mutex_local_com := Some t\<rparr>" t Started Writing] delivery_mutex [of s "Some t"]
    by (auto simp: client_begin_def delivery_def com_wf_def)
next
  case (cs_relock s t)
  then show ?case
    using delivery_set_pc [of "s\<lparr>mutex_local_com := Some t\<rparr>" t Woken Writing] delivery_mutex [of s "Some t"] by (auto simp: delivery_def)
next
  case (cs_wait s t)
  then show ?case
    using delivery_set_pc [of s t Looping Waiting] by simp
qed (simp_all add: delivery_accept delivery_write delivery_publish delivery_close delivery_exit)

section \<open>The start\<close>

definition server_ready :: "aactd \<Rightarrow> bool" where
  "server_ready sh \<longleftrightarrow> h_data_len (local_header sh) = 0 \<and> published sh = []"

lemma init_slots_fds: "slots_wf (server_init sh)" "fds_wf (server_init sh)" "lock_wf (server_init sh)"
  by (simp_all add: server_init_def slots_wf_def fds_wf_def lock_wf_def live_def has_fd_def pc_at_def)

lemma init_delivery: "server_ready sh \<Longrightarrow> delivery (server_init sh)"
  by (simp add: server_init_def server_ready_def delivery_def com_wf_def sending_def has_fd_def pc_at_def)

lemma run_slots_fds_lock:
  assumes "run as (server_init sh) s"
  shows "slots_wf s \<and> fds_wf s \<and> lock_wf s"
  using assms by (rule run_invariant) (use init_slots_fds slots_fds_step lock_step in blast)+

lemma run_delivery:
  assumes "run as (server_init sh) s" "server_ready sh" "\<forall>t. Spurious t \<notin> set as"
  shows "delivery s"
proof -
  have "slots_wf s \<and> fds_wf s \<and> delivery s"
    using assms(1)
  proof (rule run_invariant)
    show "slots_wf (server_init sh) \<and> fds_wf (server_init sh) \<and> delivery (server_init sh)"
      using init_slots_fds init_delivery assms(2) by blast
    show "slots_wf y \<and> fds_wf y \<and> delivery y"
      if "a \<in> set as" "slots_wf x \<and> fds_wf x \<and> delivery x" "cstep a x y" for a x y
      using that slots_fds_step [OF that(3)] delivery_step [OF that(3)] assms(3) by blast
  qed
  then show ?thesis by simp
qed

section \<open>A slot without a thread\<close>

definition orphan :: "eq_server \<Rightarrow> nat \<Rightarrow> bool" where
  "orphan s i \<longleftrightarrow> i < length (client_connects s) \<and> is_used (client_connects s ! i) \<and>
     (\<forall>t < length (client_threads s). slot s t = i \<longrightarrow> t_pc (client_threads s ! t) = Exited)"

lemma orphan_set_pc:
  assumes "orphan s i" "pc_at s t q" "q \<noteq> Exited"
  shows "orphan (set_pc t p s) i"
proof -
  have "slot s t \<noteq> i"
    using assms by (auto simp: orphan_def pc_at_def)
  then show ?thesis
    using assms pc_at_less [OF assms(2)] by (auto simp: orphan_def t_pc_set_pc)
qed

lemma orphan_cong:
  "client_connects s' = client_connects s \<Longrightarrow> client_threads s' = client_threads s \<Longrightarrow> orphan s' i = orphan s i"
  by (simp add: orphan_def slot_def)

lemma orphan_step: "cstep a s s' \<Longrightarrow> orphan s i \<Longrightarrow> orphan s' i"
proof (induction rule: cstep.induct)
  case (cs_accept s fd created)
  show ?case
  proof (cases "first_unused (client_connects s)")
    case None
    then show ?thesis
      using cs_accept by (simp add: accept_connection_full orphan_def slot_def)
  next
    case (Some j)
    then have "j \<noteq> i"
      using cs_accept first_unused_Some [OF Some] by (auto simp: orphan_def)
    then show ?thesis
      using cs_accept by (auto simp: accept_connection_slot [OF Some] orphan_def slot_def nth_append)
  qed
next
  case (cs_begin s t)
  then show ?case
    using orphan_set_pc [of "s\<lparr>mutex_local_com := Some t\<rparr>" i t Started]
      orphan_cong [of "s\<lparr>mutex_local_com := Some t\<rparr>" s i]
    by (simp add: client_begin_def orphan_set_pc)
next
  case (cs_write s t rets)
  have "orphan (wrote s c out) i" "orphan (s\<lparr>mutex_local_com := None\<rparr>) i" for c out
    using cs_write by (simp_all add: orphan_def slot_def wrote_def)
  then show ?case
    using cs_write by (cases rule: client_write_cases [of s t rets])
      (simp_all add: orphan_set_pc [of _ i t Writing])
next
  case (cs_relock s t)
  then show ?case
    using orphan_set_pc [of "s\<lparr>mutex_local_com := Some t\<rparr>" i t Woken]
      orphan_cong [of "s\<lparr>mutex_local_com := Some t\<rparr>" s i] by simp
next
  case (cs_publish s com ret sh)
  then show ?case
    by (auto simp: orphan_def slot_def wake_all_def)
next
  case (cs_close s t)
  then show ?case
    using orphan_cong [of "s\<lparr>fd_conn := (fd_conn s)(thread_fd s t := None)\<rparr>" s i]
    by (simp add: client_close_def orphan_set_pc [of _ i t Closing])
next
  case (cs_release s t)
  have ne: "slot s t \<noteq> i"
    using cs_release by (auto simp: orphan_def pc_at_def)
  then have "orphan (s\<lparr>client_connects := (client_connects s)[slot s t := (client_connects s ! slot s t)\<lparr>is_used := False\<rparr>]\<rparr>) i"
    using cs_release by (auto simp: orphan_def slot_def)
  then show ?case
    using cs_release by (simp add: client_exit_def Let_def slot_def orphan_set_pc [of _ i t Fd_closed])
qed (simp_all add: orphan_set_pc)

section \<open>A thread that waits\<close>

definition waits_on :: "nat \<Rightarrow> nat \<Rightarrow> byte list list \<Rightarrow> eq_server \<Rightarrow> bool" where
  "waits_on t c rs s \<longleftrightarrow> pc_at s t Waiting \<and> fd_conn s (thread_fd s t) = Some c \<and> received s c = rs"

lemma waits_has_fd: "waits_on t c rs s \<Longrightarrow> has_fd s t"
  by (auto simp: waits_on_def pc_at_def has_fd_def)

text \<open>Steps of other threads.\<close>

lemma waits_set_pc: "waits_on t c rs s \<Longrightarrow> pc_at s u q \<Longrightarrow> q \<noteq> Waiting \<Longrightarrow> waits_on t c rs (set_pc u p s)"
  using pc_at_less [of s u q] by (auto simp: waits_on_def pc_at_unique)

lemma waits_update:
  "waits_on t c rs s \<Longrightarrow> waits_on t c rs (s\<lparr>mutex_local_com := m\<rparr>)"
  "waits_on t c rs s \<Longrightarrow> d \<noteq> c \<Longrightarrow> waits_on t c rs (wrote s d out)"
  by (auto simp: waits_on_def)

lemma other_conn:
  assumes "fds_wf s" "waits_on t c rs s" "pc_at s u q" "q \<notin> {Waiting, Fd_closed, Exited}"
  shows "thread_fd s u \<noteq> thread_fd s t" "fd_conn s (thread_fd s u) \<noteq> Some c"
proof -
  have "has_fd s u" "has_fd s t" "u \<noteq> t"
    using assms waits_has_fd by (auto simp: has_fd_def pc_at_def waits_on_def)
  then show fd: "thread_fd s u \<noteq> thread_fd s t"
    using assms(1) unfolding fds_wf_def by blast
  show "fd_conn s (thread_fd s u) \<noteq> Some c"
  proof
    assume "fd_conn s (thread_fd s u) = Some c"
    then have "thread_fd s u = thread_fd s t"
      using assms(1,2) unfolding fds_wf_def waits_on_def by blast
    then show False
      using fd by simp
  qed
qed

lemma waits_step:
  "cstep a s s' \<Longrightarrow> slots_wf s \<Longrightarrow> fds_wf s \<Longrightarrow> waits_on t c rs s \<Longrightarrow> a \<noteq> Spurious t \<Longrightarrow>
   (\<forall>com. a \<noteq> Publish com) \<Longrightarrow> waits_on t c rs s'"
proof (induction rule: cstep.induct)
  case (cs_accept s fd created)
  have "live s t" "thread_fd s t \<noteq> fd"
    using waits_has_fd [OF cs_accept(4)] has_fd_live cs_accept(1,4) by (auto simp: waits_on_def)
  then show ?case
    using cs_accept thread_fd_accept [of s t fd created]
    by (auto simp: waits_on_def pc_at_accept fd_conn_accept)
next
  case (cs_begin s u)
  then show ?case
    using waits_set_pc [of t c rs "s\<lparr>mutex_local_com := Some u\<rparr>" u Started Writing] waits_update(1) [of t c rs s "Some u"] waits_set_pc [of t c rs s u Started Looping]
    by (simp add: client_begin_def)
next
  case (cs_write s u rets)
  note o = other_conn [OF cs_write(3,4,1)]
  have w: "waits_on t c rs (set_pc u p (s\<lparr>mutex_local_com := None\<rparr>))" for p
    using waits_set_pc [of t c rs "s\<lparr>mutex_local_com := None\<rparr>" u Writing p] waits_update(1) [of t c rs s None] cs_write by simp
  have "waits_on t c rs (set_pc u p (wrote s d out))" if "fd_conn s (thread_fd s u) = Some d" for p d out
    using waits_set_pc [of t c rs "wrote s d out" u Writing p] waits_update(2) [of t c rs s d out] cs_write o(2) that by auto
  then show ?case
    using w by (cases rule: client_write_cases [of s u rets]) simp_all
next
  case (cs_wait s u)
  then show ?case
    using waits_set_pc [of t c rs s u Looping Waiting] by simp
next
  case (cs_spurious s u)
  then show ?case
    using pc_at_less [OF cs_spurious(1)] by (auto simp: waits_on_def)
next
  case (cs_relock s u)
  then show ?case
    using waits_set_pc [of t c rs "s\<lparr>mutex_local_com := Some u\<rparr>" u Woken Writing] waits_update(1) [of t c rs s "Some u"] by simp
next
  case (cs_close s u)
  have "thread_fd s u \<noteq> thread_fd s t"
    using other_conn [OF cs_close(3,4,1)] by simp
  then have "waits_on t c rs (s\<lparr>fd_conn := (fd_conn s)(thread_fd s u := None)\<rparr>)"
    using cs_close(4) by (auto simp: waits_on_def thread_fd_def)
  then show ?case
    using waits_set_pc [of t c rs _ u Closing Fd_closed] cs_close(1) by (simp add: client_close_def)
next
  case (cs_release s u)
  have "thread_fd (client_exit u s) t = thread_fd s t"
    by (cases "slot s u < length (client_connects s)")
      (auto simp: thread_fd_slot exit_simps [OF cs_release(1)] nth_list_update list_update_beyond)
  then show ?case
    using cs_release pc_at_less [OF cs_release(1)]
    by (auto simp: waits_on_def client_exit_def Let_def pc_at_unique)
qed simp

text \<open>While a thread writes, the others cannot publish, begin, wait or write.\<close>

lemma blocked_step:
  "cstep a s s' \<Longrightarrow> lock_wf s \<Longrightarrow> pc_at s t Writing \<Longrightarrow>
   (\<exists>rets. a = Write t rets) \<or> com_state s' = com_state s \<and> received s' = received s \<and> pc_at s' t Writing"
proof (induction rule: cstep.induct)
  case (cs_accept s fd created)
  then show ?case
    by (simp add: pc_at_accept)
next
  case (cs_write s u rets)
  then show ?case
    by (auto simp: lock_wf_def)
next
  case (cs_spurious s u)
  then show ?case
    using pc_at_less [OF cs_spurious(1)] pc_at_unique [of s t Writing Waiting] by auto
next
  case (cs_close s u)
  then show ?case
    using pc_at_less [OF cs_close(1)] pc_at_unique [of s t Writing Closing] by (auto simp: client_close_def)
next
  case (cs_release s u)
  then show ?case
    using pc_at_less [OF cs_release(1)] pc_at_unique [of s t Writing Fd_closed]
    by (auto simp: client_exit_def Let_def)
qed (auto simp: lock_wf_def)

section \<open>A client that misses a message\<close>

lemma run_single: "cstep a s s' \<Longrightarrow> run [a] s s'"
  using run_snoc [OF run_nil] by fastforce

lemma run_then: "run as s s1 \<Longrightarrow> cstep a s1 s2 \<Longrightarrow> as' = as @ [a] \<Longrightarrow> run as' s s2"
  by (simp add: run_snoc)

text \<open>A first client, after a first message.\<close>

lemma first_client:
  assumes "eq_sw_write_com_to_local sh com = Some (ret, sh1)" "h_data_len (local_header sh1) \<noteq> 0"
  obtains s where "run [Publish com, Accept fd True, Begin 0] (server_init sh) s" "pc_at s 0 Writing"
    "com_state s = sh1" "fd_conn s (thread_fd s 0) = Some 0" "received s 0 = []" "length (client_threads s) = 1"
proof -
  let ?s1 = "wake_all ((server_init sh)\<lparr>com_state := sh1\<rparr>)"
  let ?s2 = "accept_connection fd True ?s1"
  have "cstep (Publish com) (server_init sh) ?s1"
    using assms(1) by (intro cs_publish) (simp_all add: server_init_def)
  then have r1: "run [Publish com] (server_init sh) ?s1"
    by (rule run_single)
  have "fd_conn ?s1 fd = None"
    by (simp add: server_init_def)
  then have r2: "run [Publish com, Accept fd True] (server_init sh) ?s2"
    using run_then [OF r1 cs_accept] by simp
  have free: "first_unused (client_connects ?s1) = Some 0"
    by (simp add: server_init_def CLIENT_NUM_MAX_def numeral_eq_Suc)
  have p: "pc_at ?s2 0 Started" "mutex_local_com ?s2 = None" "com_state ?s2 = sh1" "length (client_threads ?s2) = 1"
    using free by (simp_all add: pc_at_accept) (simp_all add: server_init_def accept_connection_slot)
  have f: "fd_conn ?s2 (thread_fd ?s2 0) = Some 0"
    using free by (simp add: accept_connection_slot thread_fd_def)
      (simp add: server_init_def CLIENT_NUM_MAX_def wake_all_def)
  have "cstep (Begin 0) ?s2 (client_begin 0 ?s2)"
    using p by (intro cs_begin)
  then have "run [Publish com, Accept fd True, Begin 0] (server_init sh) (client_begin 0 ?s2)"
    using run_then [OF r2] by simp
  moreover have "client_begin 0 ?s2 = set_pc 0 Writing (?s2\<lparr>mutex_local_com := Some 0\<rparr>)"
    using p(3) assms(2) by (simp add: client_begin_def)
  ultimately show ?thesis
    using that [of "client_begin 0 ?s2"] p f by (simp add: server_init_def)
qed

text \<open>It is served the message, and a second one is published before it waits.\<close>

lemma missed_update:
  assumes "eq_sw_write_com_to_local sh com = Some (ret, sh1)" "h_data_len (local_header sh1) \<noteq> 0"
    and "eq_sw_write_com_to_local sh1 com' = Some (ret', sh2)"
  obtains s where "run [Publish com, Accept fd True, Begin 0, Write 0 [], Publish com', Wait 0] (server_init sh) s"
    "com_state s = sh2" "waits_on 0 0 [com_buf_actual sh1] s"
proof -
  obtain s where s: "run [Publish com, Accept fd True, Begin 0] (server_init sh) s" "pc_at s 0 Writing"
    "com_state s = sh1" "fd_conn s (thread_fd s 0) = Some 0" "received s 0 = []" "length (client_threads s) = 1"
    using first_client [OF assms(1,2)] .
  let ?s1 = "client_write 0 [] s"
  let ?s2 = "wake_all (?s1\<lparr>com_state := sh2\<rparr>)"
  let ?s3 = "set_pc 0 Waiting ?s2"
  have w: "?s1 = set_pc 0 Looping (wrote s 0 (com_buf_actual sh1))"
    using s(3,4) by (simp add: client_write_def wrote_def Let_def thread_fd_def)
  have p1: "pc_at ?s1 0 Looping" "mutex_local_com ?s1 = None" "com_state ?s1 = sh1"
      "fd_conn ?s1 (thread_fd ?s1 0) = Some 0" "received ?s1 0 = [com_buf_actual sh1]" "has_fd ?s1 0"
    using s w by (simp_all add: has_fd_def pc_at_def t_pc_set_pc)
  have r1: "run [Publish com, Accept fd True, Begin 0, Write 0 []] (server_init sh) ?s1"
    using run_then [OF s(1) cs_write [OF s(2)]] by simp
  have "cstep (Publish com') ?s1 ?s2"
    using p1 assms(3) by (intro cs_publish) simp_all
  then have r2: "run [Publish com, Accept fd True, Begin 0, Write 0 [], Publish com'] (server_init sh) ?s2"
    using run_then [OF r1] by simp
  have p2: "pc_at ?s2 0 Looping" "mutex_local_com ?s2 = None" "fd_conn ?s2 (thread_fd ?s2 0) = Some 0"
      "received ?s2 0 = [com_buf_actual sh1]" "com_state ?s2 = sh2"
    using p1 thread_fd_wake_all [of "?s1\<lparr>com_state := sh2\<rparr>" 0] by (simp_all add: pc_at_wake_all has_fd_def)
  have "run [Publish com, Accept fd True, Begin 0, Write 0 [], Publish com', Wait 0] (server_init sh) ?s3"
    using run_then [OF r2 cs_wait [OF p2(1,2)]] by simp
  then show ?thesis
    using that [of ?s3] p2 pc_at_less [OF p2(1)] by (simp add: waits_on_def)
qed

text \<open>Later runs without a broadcast change nothing for a waiting thread.\<close>

lemma waits_run:
  assumes "run as s s'" "slots_wf s" "fds_wf s" "waits_on t c rs s"
    and "\<forall>a \<in> set as. a \<noteq> Spurious t \<and> (\<forall>com. a \<noteq> Publish com)"
  shows "waits_on t c rs s'"
proof -
  have "slots_wf s' \<and> fds_wf s' \<and> waits_on t c rs s'"
    using assms(1)
  proof (rule run_invariant)
    show "slots_wf y \<and> fds_wf y \<and> waits_on t c rs y"
      if "a \<in> set as" "slots_wf x \<and> fds_wf x \<and> waits_on t c rs x" "cstep a x y" for a x y
    proof -
      have "slots_wf y \<and> fds_wf y" "waits_on t c rs y"
        using that(1,2) assms(5) slots_fds_step [OF that(3)] by (simp_all add: waits_step [OF that(3)])
      then show ?thesis by simp
    qed
  qed (use assms in simp)
  then show ?thesis by simp
qed

lemma orphan_run: "run as s s' \<Longrightarrow> orphan s i \<Longrightarrow> orphan s' i"
  by (induction rule: run.induct) (auto intro: orphan_step)

lemma orphan_accept:
  assumes "slots_wf s" "first_unused (client_connects s) = Some i"
  shows "orphan (accept_connection fd False s) i"
  using assms first_unused_Some [OF assms(2)]
  by (auto simp: accept_connection_slot [OF assms(2)] orphan_def slot_def slots_wf_def live_def)

end
