(* ===== verification/Aactd_Properties.thy ===== *)
theory Aactd_Properties
  imports Aactd_Session Aactd_Delivery
begin

text \<open>
  What the audio control daemon promises, as properties of the operations modelled in the theories
  below, each with an instance on a concrete daemon.
\<close>

section \<open>A concrete daemon\<close>

definition demo_daemon :: aactd where
  "demo_daemon = \<lparr>com_buf_len_max = 96, remote_com_buf = replicate 96 0,
     remote_header = \<lparr>h_flag = 0, h_version = 0, h_command = 0, h_type = 0, h_data_len = 0\<rparr>,
     local_header = \<lparr>h_flag = 0, h_version = 0, h_command = 0, h_type = 0, h_data_len = 0\<rparr>,
     local_com_buf = replicate 96 0, local_checksum = 0,
     local_data = \<lparr>reg_num = 0, reg_args = []\<rparr>, published = [], reg_writes = []\<rparr>"

definition demo_drc :: drc_env where
  "demo_drc = \<lparr>DRC_HW_REG_BASE_ADDR = 0x5096000, drc_open = True, drc_write = (\<lambda>i n. int n)\<rparr>"

lemma demo_daemon_wf: "daemon_wf demo_daemon" "com_buf_len_max demo_daemon = 96"
  by (simp_all add: daemon_wf_def demo_daemon_def)

lemma demo_daemon_empty: "published demo_daemon = []" "reg_writes demo_daemon = []"
    "length (reg_lines demo_drc test_drc_hw_data) = 7"
  by (simp_all add: demo_daemon_def reg_lines_def test_drc_hw_data_def)

lemma demo_drc_complete: "drc_complete demo_drc"
  by (simp add: drc_complete_def demo_drc_def)

lemma test_requests_fit:
  "request_fits 96 (Inl test_eq_sw_data)" "request_fits 96 (Inr test_drc_hw_data)"
  by (simp_all add: request_fits_def test_eq_sw_data_def test_drc_hw_data_def eq_sw_wf_def drc_hw_wf_def)

text \<open>A stream cut into pieces of one byte.\<close>

definition bytewise :: "byte list \<Rightarrow> event list" where
  "bytewise bs = map (\<lambda>b. Piece [b]) bs"

lemma bytewise_ok: "clean (bytewise bs)" "stream (bytewise bs) = bs"
  by (induction bs) (simp_all add: bytewise_def)

section \<open>Messages\<close>

text \<open>
  C13: equalizer parameters stored into a buffer by \<open>eq_sw_data_to_buf\<close> are read back by
  \<open>eq_sw_buf_to_data\<close> from the same place, whatever the buffer held before, and nothing outside the
  bytes of the parameters changes.
\<close>

lemma eq_data_roundtrip:
  assumes "eq_sw_wf d" "p + 2 + 14 * unat (filter_num d) \<le> length b" "unat (filter_num d) \<le> cap"
  shows "\<exists>b'. eq_sw_data_to_buf d (Some b) p = Some (0, Some b') \<and>
    eq_sw_buf_to_data (Some b') p cap d0 = Some (0, d) \<and>
    take p b' = take p b \<and> drop (p + 2 + 14 * unat (filter_num d)) b' = drop (p + 2 + 14 * unat (filter_num d)) b"
proof -
  have l: "length (eq_sw_bytes d) = 2 + 14 * unat (filter_num d)"
    using length_eq_sw_bytes assms(1) .
  let ?b = "take p b @ eq_sw_bytes d @ drop (p + length (eq_sw_bytes d)) b"
  have p: "length (take p b) = p"
    using assms(2) by simp
  have "eq_sw_data_to_buf d (Some b) p = Some (0, Some ?b)"
    using assms l by (simp add: eq_sw_data_to_buf_put put_def)
  moreover have "eq_sw_buf_to_data (Some ?b) p cap d0 = Some (0, d)"
    using eq_sw_buf_to_data_bytes [OF assms(1,3), of "take p b"] p by simp
  ultimately show ?thesis
    using p l by (intro exI [of _ ?b]) (simp add: add.assoc)
qed

lemma eq_data_roundtrip_witness:
  "\<exists>b'. eq_sw_data_to_buf test_eq_sw_data (Some (replicate 40 7)) 8 = Some (0, Some b') \<and>
    eq_sw_buf_to_data (Some b') 8 2 test_eq_sw_data = Some (0, test_eq_sw_data) \<and>
    take 8 b' = replicate 8 7 \<and> drop 38 b' = replicate 2 7"
  using eq_data_roundtrip [of test_eq_sw_data 8 "replicate 40 7" 2 test_eq_sw_data]
  by (simp add: test_eq_sw_data_def eq_sw_wf_def)

text \<open>
  The text \<open>drc_hw_data_set\<close> writes for a register always has 21 characters, so that it fits its
  buffer of 22 with the NUL, and determines the address and the value.
\<close>

lemma reg_text_injective:
  "length (reg_text addr v) = 21 \<and> (reg_text addr v = reg_text addr' v' \<longleftrightarrow> addr = addr' \<and> v = v')"
  by (auto simp: reg_text_full hex8_inj)

section \<open>Connections\<close>

definition setup_ok :: "main_env \<Rightarrow> bool" where
  "setup_ok e \<longleftrightarrow> eq_malloc (local_init e) \<and> thread_created (local_init e) \<and> drc_malloc (local_init e) \<and>
     remote_malloc e \<and> 0 \<le> socket_ret e \<and> 0 \<le> bind_ret e \<and> 0 \<le> listen_ret e \<and>
     (\<forall>n. length (fresh_bytes (local_init e) n) = n \<and> length (remote_bytes e n) = n)"

lemma daemon_main_started:
  assumes "setup_ok e" "main_options os COM_BUF_LEN_MAX_DEFAULT = Inr len" "9 \<le> unat len" "unat len < 2 ^ 31"
  obtains s' where "daemon_main e env os s inps = map_option Inr (serve env s' inps)" "daemon_wf s'"
    "com_buf_len_max s' = len" "published s' = published s" "reg_writes s' = reg_writes s"
  using that assms
  by (force simp: daemon_main_def local_process_init_def eq_sw_local_init_def drc_hw_local_init_def setup_ok_def
      daemon_wf_def Let_def)

text \<open>
  C14: once started, with any buffer length from 9 up to 2 GiB, the daemon carries out every request:
  requests the client builds for any mix of equalizer and DRC parameters that fit the buffer, on any
  number of connections and cut into pieces in any way, are all carried out in order. Each equalizer
  request is published as the client built it, and each register of each DRC request is written.
\<close>

lemma requests_carried_out:
  assumes "setup_ok e" "main_options os COM_BUF_LEN_MAX_DEFAULT = Inr len" "9 \<le> unat len" "unat len < 2 ^ 31"
    and "drc_complete env" "length buf = unat len"
    and "list_all2 (\<lambda>inp xs. clean inp \<and> list_all (request_fits (unat len)) xs \<and>
      stream inp = concat (map (\<lambda>x. the (client_request x buf)) xs)) inps xss"
  shows "\<exists>s'. daemon_main e env os s inps = Some (Inr s') \<and>
    published s' = published s @ [the (client_request (Inl d) buf). Inl d \<leftarrow> concat xss] \<and>
    reg_writes s' = reg_writes s @ concat [reg_lines env d. Inr d \<leftarrow> concat xss]"
proof -
  have b: "length buf < 2 ^ 31"
    using assms(4,6) by simp
  have f: "the (client_request x buf) = request_frame x" if "request_fits (unat len) x" for x
    using client_request_frame [of buf x] assms(6) b that by simp
  have "list_all2 (carries (unat len)) inps xss"
    using assms(7)
  proof (rule list_all2_mono)
    fix inp xs
    assume x: "clean inp \<and> list_all (request_fits (unat len)) xs \<and>
      stream inp = concat (map (\<lambda>x. the (client_request x buf)) xs)"
    then have eq: "map (\<lambda>x. the (client_request x buf)) xs = map request_frame xs"
      by (simp add: f list_all_iff)
    show "carries (unat len) inp xs"
      using x unfolding eq by (simp add: carries_def)
  qed
  moreover obtain s1 where "daemon_main e env os s inps = map_option Inr (serve env s1 inps)" "daemon_wf s1"
    "com_buf_len_max s1 = len" "published s1 = published s" "reg_writes s1 = reg_writes s"
    using daemon_main_started [OF assms(1-4)] by metis
  ultimately obtain s' where s': "daemon_main e env os s inps = Some (Inr s')"
    "published s' = published s @ concat (map eq_effect (concat xss))"
    "reg_writes s' = reg_writes s @ concat (map (drc_effect env) (concat xss))"
    using serve_requests [of "unat len" inps xss s1 env] assms(5) by auto
  have all: "list_all (request_fits (unat len)) (concat xss)"
    using assms(7) by (induction rule: list_all2_induct) auto
  have p: "[the (client_request (Inl d) buf). Inl d \<leftarrow> ys] = concat (map eq_effect ys)"
      and r: "concat [reg_lines env d. Inr d \<leftarrow> ys] = concat (map (drc_effect env) ys)"
    if "list_all (request_fits (unat len)) ys" for ys
    using that f by (induction ys) (auto split: sum.split)
  show ?thesis
    using s' p [OF all] r [OF all] by simp
qed

definition demo_main :: main_env where
  "demo_main = \<lparr>local_init = \<lparr>eq_malloc = True, drc_malloc = True, thread_created = True, server_ends = False,
     fresh_bytes = (\<lambda>n. replicate n 0)\<rparr>, remote_malloc = True, remote_bytes = (\<lambda>n. replicate n 0),
     socket_ret = 3, bind_ret = 0, listen_ret = 0\<rparr>"

definition test_stream :: "byte list" where
  "test_stream = concat (map (\<lambda>x. the (client_request x (replicate 96 0))) [Inl test_eq_sw_data, Inr test_drc_hw_data])"

lemma requests_carried_out_witness:
  "\<exists>s'. daemon_main demo_main demo_drc [Opt_buffer_length 96] demo_daemon [bytewise test_stream, []] = Some (Inr s') \<and>
    length (published s') = 1 \<and> length (reg_writes s') = 7"
proof -
  have "setup_ok demo_main"
    by (simp add: setup_ok_def demo_main_def)
  then show ?thesis
    using requests_carried_out [of demo_main "[Opt_buffer_length 96]" 96 demo_drc "replicate 96 0"
        "[bytewise test_stream, []]" "[[Inl test_eq_sw_data, Inr test_drc_hw_data], []]" demo_daemon]
      demo_drc_complete test_requests_fit
    by (auto simp: bytewise_ok test_stream_def demo_daemon_empty)
qed

text \<open>
  C15: what the daemon does with a connection depends only on the bytes that arrive and not on how
  the network cuts them into pieces.
\<close>

lemma session_fragmentation:
  assumes "clean inp" "clean inp'" "stream inp = stream inp'"
  shows "map_option fst (session env s inp) = map_option fst (session env s inp')"
  using session_same [OF assms] .

lemma session_fragmentation_witness:
  "map_option fst (session demo_drc demo_daemon [Piece (replicate 20 170)]) =
   map_option fst (session demo_drc demo_daemon (bytewise (replicate 20 170)))"
  using session_fragmentation [of "[Piece (replicate 20 170)]" "bytewise (replicate 20 170)"]
  by (simp add: bytewise_ok)

text \<open>
  C16: a message in which one byte of the version, the command, the type, the data or the checksum
  was changed is dropped: nothing is published, no register is written, the local parameters stay,
  and the daemon goes on with the message behind it.
\<close>

lemma changed_byte_dropped:
  assumes "daemon_wf s" "length d = unat (h_data_len h)" "9 + length d \<le> unat (com_buf_len_max s)"
    and "h_flag h = AACTD_COM_HEADER_FLAG" "i < 9 + length d" "i \<notin> {0, 4, 5, 6, 7}" "y \<noteq> frame h d ! i"
    and "clean inp" "stream inp = (frame h d)[i := y] @ rest"
  shows "\<exists>s' r. receive env s inp = Some (True, s', r) \<and> clean r \<and> stream r = rest \<and>
    published s' = published s \<and> reg_writes s' = reg_writes s \<and> local_com_buf s' = local_com_buf s \<and>
    local_header s' = local_header s \<and> local_data s' = local_data s"
proof -
  obtain h' d' c where f: "(frame h d)[i := y] = header_bytes h' @ d' @ [c]" "length d' = length d"
    "h_flag h' = h_flag h" "h_data_len h' = h_data_len h" "c \<noteq> foldl (+) 0 (header_bytes h' @ d')"
    using frame_update [OF assms(5-7)] .
  let ?s = "s\<lparr>remote_com_buf := header_bytes h' @ d' @ c # drop (9 + length d') (remote_com_buf s), remote_header := h'\<rparr>"
  have d': "length d' = unat (h_data_len h')" "9 + length d' \<le> unat (com_buf_len_max s)"
    using assms(2,3) f by simp_all
  have "daemon_wf ?s"
    using assms(1) d' by (simp add: daemon_wf_def)
  then have "handle_com env ?s = Some ?s"
    using handle_frame [of ?s d' h' c "drop (9 + length d') (remote_com_buf s)" env] d' f(5) by simp
  then show ?thesis
    using receive_frame [OF assms(1) d', of inp c rest env] assms(4,8,9) f(1,3) by auto
qed

lemma changed_byte_dropped_witness:
  "\<exists>s' r. receive demo_drc demo_daemon (bytewise ((frame (client_header EQ_SW 2) [1, 0])[8 := 0])) = Some (True, s', r) \<and>
    clean r \<and> stream r = [] \<and> published s' = [] \<and> reg_writes s' = [] \<and> local_com_buf s' = replicate 96 0"
proof -
  have h: "h_flag (client_header EQ_SW 2) = AACTD_COM_HEADER_FLAG" "h_data_len (client_header EQ_SW 2) = 2"
    by (simp_all add: client_header_def)
  have "frame (client_header EQ_SW 2) [1, 0] ! 8 = 1"
    by (simp add: frame_def nth_append)
  then show ?thesis
    using changed_byte_dropped [of demo_daemon "[1, 0]" "client_header EQ_SW 2" 8 0
        "bytewise ((frame (client_header EQ_SW 2) [1, 0])[8 := 0])" "[]" demo_drc]
      demo_daemon_wf h by (auto simp: bytewise_ok demo_daemon_def)
qed








text \<open>
  When any step of the setup behind the start of the equalizer's server thread fails (the DRC
  buffer, the receive buffer, the socket, its address or listening, for instance because the port
  is in use), the daemon neither serves nor returns: the cleanup waits for the server thread, whose
  loop has no exit.
\<close>

lemma setup_failure_hangs:
  assumes "main_options os COM_BUF_LEN_MAX_DEFAULT = Inr len"
    and "eq_malloc (local_init e)" "thread_created (local_init e)" "\<not> server_ends (local_init e)"
    and "\<not> drc_malloc (local_init e) \<or> \<not> remote_malloc e \<or> socket_ret e < 0 \<or> bind_ret e < 0 \<or> listen_ret e < 0"
  shows "daemon_main e env os s inps = None"
  using assms
  by (auto simp: daemon_main_def local_process_init_def eq_sw_local_init_def drc_hw_local_init_def
      local_process_release_def eq_sw_local_release_def Let_def)

lemma setup_failure_hangs_witness:
  "daemon_main (demo_main\<lparr>bind_ret := -1\<rparr>) demo_drc [] demo_daemon [] = None"
  by (rule setup_failure_hangs) (simp_all add: demo_main_def)

section \<open>The clients of the equalizer\<close>

text \<open>
  C20: at any time at most 32 client threads live, no two of them share a slot of \<open>client_connects\<close>
  or a descriptor, each one's descriptor is open until it closes it, and at most one of them writes,
  the holder of \<open>mutex_local_com\<close>.
\<close>

lemma clients_separate:
  assumes "run as (server_init sh) s"
  shows "card {t. live s t} \<le> CLIENT_NUM_MAX \<and> inj_on (slot s) {t. live s t} \<and>
    inj_on (thread_fd s) {t. has_fd s t} \<and> (\<forall>t \<in> {t. has_fd s t}. fd_conn s (thread_fd s t) \<noteq> None) \<and>
    {t. pc_at s t Writing} = set_option (mutex_local_com s)"
proof -
  have wf: "slots_wf s" "fds_wf s" "lock_wf s"
    using run_slots_fds_lock [OF assms] by simp_all
  have inj: "inj_on (slot s) {t. live s t}"
    using wf(1) unfolding slots_wf_def by (intro inj_onI) blast
  have "slot s ` {t. live s t} \<subseteq> {..<CLIENT_NUM_MAX}"
    using wf(1) by (auto simp: slots_wf_def live_def)
  then have "card (slot s ` {t. live s t}) \<le> CLIENT_NUM_MAX"
    using card_mono [of "{..<CLIENT_NUM_MAX}"] by fastforce
  moreover have "{t. pc_at s t Writing} = set_option (mutex_local_com s)"
    using wf(3) by (auto simp: lock_wf_def)
  moreover have "inj_on (thread_fd s) {t. has_fd s t}"
    using wf(2) unfolding fds_wf_def by (intro inj_onI) blast
  ultimately show ?thesis
    using inj wf(2) by (simp add: card_image fds_wf_def)
qed

definition one_client :: eq_server where
  "one_client = accept_connection 5 True (server_init demo_daemon)"

lemma one_client_run: "run [Accept 5 True] (server_init demo_daemon) one_client"
proof -
  have "cstep (Accept 5 True) (server_init demo_daemon) one_client"
    unfolding one_client_def by (rule cs_accept) (simp add: server_init_def)
  then show ?thesis
    using run_snoc [OF run_nil] by fastforce
qed

lemma clients_separate_witness:
  "card {t. live one_client t} \<le> 32 \<and> {t. pc_at one_client t Writing} = {}"
  using clients_separate [OF one_client_run]
  by (simp add: CLIENT_NUM_MAX_def one_client_def server_init_def)

text \<open>
  C21: as long as no thread is woken without a broadcast, what a client receives are whole messages
  in the order of their publication; only the last write on a connection that is being closed may
  be cut off, and even then it is the beginning of a published message.
\<close>

lemma clients_receive_in_order:
  assumes "run as (server_init sh) s" "server_ready sh" "\<forall>t. Spurious t \<notin> set as"
  shows "(\<forall>c. sent_in_order (published (com_state s)) (received s c) \<or>
      cut_off (published (com_state s)) (received s c)) \<and>
    (\<forall>t c. sending s t \<and> fd_conn s (thread_fd s t) = Some c \<longrightarrow>
      sent_in_order (published (com_state s)) (received s c))"
  using run_delivery [OF assms] unfolding delivery_def by blast

lemma clients_receive_in_order_witness:
  "sent_in_order (published (com_state one_client)) (received one_client 0) \<or>
   cut_off (published (com_state one_client)) (received one_client 0)"
  using clients_receive_in_order [OF one_client_run]
  by (simp add: server_ready_def demo_daemon_def)

text \<open>
  While the write to one client blocks, no message can be published and no other client served:
  the only steps that need no cooperation of that client are new connections, closing ones and
  wake-ups.
\<close>

lemma blocked_client_stalls:
  assumes "run as (server_init sh) s" "pc_at s t Writing" "cstep a s s'"
  shows "(\<exists>rets. a = Write t rets) \<or>
    com_state s' = com_state s \<and> received s' = received s \<and> pc_at s' t Writing"
  using blocked_step [OF assms(3) _ assms(2)] run_slots_fds_lock [OF assms(1)] by blast

definition demo_com :: "byte \<Rightarrow> aactd_com" where
  "demo_com b = \<lparr>header = client_header EQ_SW 2, com_data = [b, 0], checksum = 0\<rparr>"

lemma demo_publish:
  assumes "daemon_wf s" "com_buf_len_max s = 96"
  shows "\<exists>sh. eq_sw_write_com_to_local s (demo_com b) = Some (0, sh) \<and> daemon_wf sh \<and> com_buf_len_max sh = 96 \<and>
    h_data_len (local_header sh) = 2 \<and> com_buf_actual sh = frame (client_header EQ_SW 2) [b, 0]"
proof -
  let ?h = "client_header EQ_SW 2" and ?d = "[b, 0]"
  have h: "h_data_len ?h = 2" "length (frame ?h ?d) = 11"
    by (simp_all add: client_header_def)
  have u: "unat (sizeof_com 2) = 11"
    by (simp add: sizeof_com_def)
  obtain c where "eq_sw_write_com_to_local s (demo_com b) = Some (0, s\<lparr>local_header := ?h,
      local_com_buf := frame ?h ?d @ drop 11 (local_com_buf s), local_checksum := c,
      published := published s @ [frame ?h ?d]\<rparr>)"
    using eq_sw_write_frame [OF assms(1), of ?d ?h "demo_com b"] assms(2) h by (auto simp: demo_com_def)
  then show ?thesis
    using assms h u by (auto simp: daemon_wf_def com_buf_actual_def)
qed

lemma blocked_client_stalls_witness:
  "\<exists>s. pc_at s 0 Writing \<and> pc_at (accept_connection 6 True s) 0 Writing \<and>
    received (accept_connection 6 True s) = received s"
proof -
  obtain sh where sh: "eq_sw_write_com_to_local demo_daemon (demo_com 1) = Some (0, sh)" "h_data_len (local_header sh) \<noteq> 0"
    using demo_publish [OF demo_daemon_wf, of 1] by auto
  obtain s where s: "run [Publish (demo_com 1), Accept 5 True, Begin 0] (server_init demo_daemon) s" "pc_at s 0 Writing"
    "fd_conn s (thread_fd s 0) = Some 0"
    using first_client [OF sh, of 5] by metis
  show ?thesis
  proof (cases "fd_conn s 6")
    case None
    then have "cstep (Accept 6 True) s (accept_connection 6 True s)"
      by (rule cs_accept)
    then show ?thesis
      using blocked_client_stalls [OF s(1,2)] s(2) by blast
  next
    case (Some c)
    then show ?thesis
      using s(2) by (intro exI [of _ s]) (simp add: pc_at_accept)
  qed
qed

text \<open>
  A message that is published after a client was served the one before and before it waits is
  never sent to it: it then waits with an outdated message, and nothing but a further publication or
  a wake-up without cause changes that.
\<close>

lemma update_missed:
  assumes "eq_sw_write_com_to_local sh com = Some (ret, sh1)" "h_data_len (local_header sh1) \<noteq> 0"
    and "eq_sw_write_com_to_local sh1 com' = Some (ret', sh2)"
  shows "\<exists>as s. run as (server_init sh) s \<and> (\<forall>t. Spurious t \<notin> set as) \<and> com_state s = sh2 \<and>
    pc_at s 0 Waiting \<and> received s 0 = [com_buf_actual sh1] \<and>
    (\<forall>bs s'. run bs s s' \<and> (\<forall>a \<in> set bs. a \<noteq> Spurious 0 \<and> (\<forall>com. a \<noteq> Publish com)) \<longrightarrow>
      pc_at s' 0 Waiting \<and> received s' 0 = [com_buf_actual sh1])"
proof -
  let ?as = "[Publish com, Accept 5 True, Begin 0, Write 0 [], Publish com', Wait 0]"
  obtain s where s: "run ?as (server_init sh) s" "com_state s = sh2" "waits_on 0 0 [com_buf_actual sh1] s"
    using missed_update [OF assms] .
  have wf: "slots_wf s" "fds_wf s"
    using run_slots_fds_lock [OF s(1)] by simp_all
  have "pc_at s' 0 Waiting \<and> received s' 0 = [com_buf_actual sh1]"
    if "run bs s s'" "\<forall>a \<in> set bs. a \<noteq> Spurious 0 \<and> (\<forall>com. a \<noteq> Publish com)" for bs s'
    using waits_run [OF that(1) wf s(3) that(2)] by (simp add: waits_on_def)
  then show ?thesis
    using s by (intro exI [of _ ?as] exI [of _ s]) (auto simp: waits_on_def)
qed

lemma update_missed_witness:
  "\<exists>as s. run as (server_init demo_daemon) s \<and> pc_at s 0 Waiting \<and>
    received s 0 = [frame (client_header EQ_SW 2) [1, 0]] \<and>
    com_buf_actual (com_state s) = frame (client_header EQ_SW 2) [0, 0]"
proof -
  obtain sh1 where 1: "eq_sw_write_com_to_local demo_daemon (demo_com 1) = Some (0, sh1)" "daemon_wf sh1"
    "com_buf_len_max sh1 = 96" "h_data_len (local_header sh1) = 2" "com_buf_actual sh1 = frame (client_header EQ_SW 2) [1, 0]"
    using demo_publish [OF demo_daemon_wf, of 1] by blast
  obtain sh2 where 2: "eq_sw_write_com_to_local sh1 (demo_com 0) = Some (0, sh2)"
    "com_buf_actual sh2 = frame (client_header EQ_SW 2) [0, 0]"
    using demo_publish [OF 1(2,3), of 0] by blast
  have "h_data_len (local_header sh1) \<noteq> 0"
    using 1(4) by simp
  from update_missed [OF 1(1) this 2(1)] show ?thesis
    using 1(5) 2(2) by auto
qed

text \<open>
  When \<open>pthread_create\<close> fails for an accepted connection, its slot stays in use for ever, without
  a thread that could free it, so that each such failure lowers the number of clients for good.
\<close>

lemma failed_thread_leaks_slot:
  assumes "run as (server_init sh) s" "fd_conn s fd = None" "first_unused (client_connects s) = Some i"
    and "run bs (accept_connection fd False s) s'"
  shows "is_used (client_connects s' ! i) \<and> (\<forall>t. live s' t \<longrightarrow> slot s' t \<noteq> i)"
proof -
  have "orphan (accept_connection fd False s) i"
    using orphan_accept assms(3) run_slots_fds_lock [OF assms(1)] by blast
  then have "orphan s' i"
    using orphan_run [OF assms(4)] by simp
  then show ?thesis
    by (auto simp: orphan_def live_def)
qed

lemma failed_thread_leaks_slot_witness:
  "is_used (client_connects (accept_connection 5 False (server_init demo_daemon)) ! 0)"
  using failed_thread_leaks_slot [OF run_nil, of demo_daemon 5 0 "[]", OF _ _ run_nil]
  by (simp add: server_init_def CLIENT_NUM_MAX_def numeral_eq_Suc)

end
