(* ===== verification/Np_Scene.thy ===== *)
theory Np_Scene
  imports C_Prelude
begin

text \<open>
  The scene manager of \<open>nativepower\<close>: the configuration access of \<open>np_uci_config.c\<close>, the controls of
  \<open>np_scene_utils.c\<close> and the interface of \<open>scene_manager.c\<close>. The UCI library
  is a parameter, allocations in \<open>np_uci_open\<close> succeed. The kernel's files are a parameter for reading;
  what is written to them is recorded. \<open>None\<close> is an access outside a buffer.
\<close>

section \<open>Library functions\<close>

definition strcpy :: "byte list \<Rightarrow> cstr \<Rightarrow> byte list option" where
  "strcpy dst s = put dst 0 (s @ [0])"

text \<open>What \<open>strtok\<close> returns call by call: the positions of the tokens in the string and their text.\<close>

function tokens :: "(byte \<Rightarrow> bool) \<Rightarrow> nat \<Rightarrow> cstr \<Rightarrow> (nat \<times> cstr) list" where
  "tokens delim pos s =
     (let t = dropWhile delim s;
          p = pos + length (takeWhile delim s);
          tok = takeWhile (\<lambda>c. \<not> delim c) t
      in if t = [] then [] else (p, tok) # tokens delim (p + length tok) (dropWhile (\<lambda>c. \<not> delim c) t))"
  by pat_completeness auto
termination
proof (relation "measure (\<lambda>(delim, pos, s). length s)", goal_cases)
  case (2 delim pos s t p tok)
  then have "\<not> delim (hd t)" "t \<noteq> []"
    using hd_dropWhile [of delim s] by auto
  then obtain c r where t: "t = c # r" "\<not> delim c"
    by (cases t) auto
  have "length (dropWhile (\<lambda>c. \<not> delim c) t) \<le> length r"
    using t length_dropWhile_le [of "\<lambda>c. \<not> delim c" r] by simp
  moreover have "length t \<le> length s"
    using 2 length_dropWhile_le [of delim s] by simp
  ultimately show ?case
    using t by simp
qed simp

declare tokens.simps [simp del]

section \<open>np\_uci\_config.c\<close>

record ('u, 'p, 's) uci_lib =
  uci_load :: "'u \<Rightarrow> cstr \<Rightarrow> 'p option"
  uci_lookup_section :: "'p \<Rightarrow> cstr \<Rightarrow> 's option"
  uci_lookup_option_string :: "'s \<Rightarrow> cstr \<Rightarrow> cstr option"
  uci_set :: "'p \<Rightarrow> cstr \<Rightarrow> cstr \<Rightarrow> cstr \<Rightarrow> int \<times> 'p"
  uci_commit :: "'u \<Rightarrow> 'p \<Rightarrow> int \<times> 'u"

definition NATIVE_POWER_CONFIG_PATH :: cstr where
  "NATIVE_POWER_CONFIG_PATH = bytes_of ''/etc/config/nativepower''"

definition np_uci_open :: "('u, 'p, 's) uci_lib \<Rightarrow> 'u \<Rightarrow> cstr \<Rightarrow> 'p option" where
  "np_uci_open lib u file = uci_load lib u file"

definition np_uci_read_config ::
    "('u, 'p, 's) uci_lib \<Rightarrow> 'p \<Rightarrow> cstr \<Rightarrow> cstr \<Rightarrow> byte list \<Rightarrow> nat \<Rightarrow> (int \<times> byte list) option" where
  "np_uci_read_config lib p conf_section conf_name conf_buf len =
     (case uci_lookup_section lib p conf_section of
        None \<Rightarrow> Some (-1, conf_buf)
      | Some section \<Rightarrow>
          (case uci_lookup_option_string lib section conf_name of
             None \<Rightarrow> Some (0, conf_buf)
           | Some v \<Rightarrow> if length v < len then map_option (\<lambda>b. (0, b)) (put conf_buf 0 v) else Some (0, conf_buf)))"

definition np_uci_write_config ::
    "('u, 'p, 's) uci_lib \<Rightarrow> 'u \<Rightarrow> 'p \<Rightarrow> cstr \<Rightarrow> cstr \<Rightarrow> cstr \<Rightarrow> int \<times> 'u" where
  "np_uci_write_config lib u p conf_section conf_name conf_buff =
     (let (ret, p) = uci_set lib p conf_section conf_name conf_buff
      in if ret = 0 then uci_commit lib u p else (ret, u))"

section \<open>np\_scene\_utils.c: configuration\<close>

definition np_get_property ::
    "('u, 'p, 's) uci_lib \<Rightarrow> 'u \<Rightarrow> cstr \<Rightarrow> cstr \<Rightarrow> byte list \<Rightarrow> nat \<Rightarrow> (int \<times> byte list) option" where
  "np_get_property lib u conf_section conf_name property len =
     (case np_uci_open lib u NATIVE_POWER_CONFIG_PATH of
        None \<Rightarrow> Some (-1, property)
      | Some p \<Rightarrow> map_option (\<lambda>(_, b). (0, b)) (np_uci_read_config lib p conf_section conf_name property len))"

definition np_set_property ::
    "('u, 'p, 's) uci_lib \<Rightarrow> 'u \<Rightarrow> cstr \<Rightarrow> cstr \<Rightarrow> cstr \<Rightarrow> int \<times> 'u" where
  "np_set_property lib u conf_section conf_name property =
     (case np_uci_open lib u NATIVE_POWER_CONFIG_PATH of
        None \<Rightarrow> (-1, u)
      | Some p \<Rightarrow> (0, snd (np_uci_write_config lib u p conf_section conf_name property)))"

text \<open>\<open>CPU_SCENE\<close>, \<open>GPU_SCENE\<close> and \<open>DRAM_SCENE\<close> in one record: the character arrays of the source.\<close>

record NP_SCENE =
  bootlock :: "byte list"
  cpu_freq :: "byte list"
  cpu_freq_max :: "byte list"
  cpu_freq_min :: "byte list"
  roomage :: "byte list"
  cpu_gov :: "byte list"
  cpu_hot :: "byte list"
  cpu_online :: "byte list"
  gpu_freq :: "byte list"
  dram_adaptive :: "byte list"
  dram_freq :: "byte list"
  dram_freq_max :: "byte list"
  dram_freq_min :: "byte list"

text \<open>The scene after \<open>memset(&scene, 0, sizeof(NP_SCENE))\<close>.\<close>

definition zero_scene :: NP_SCENE where
  "zero_scene = \<lparr>bootlock = replicate 4 0, cpu_freq = replicate 16 0, cpu_freq_max = replicate 16 0,
     cpu_freq_min = replicate 16 0, roomage = replicate 64 0, cpu_gov = replicate 16 0, cpu_hot = replicate 16 0,
     cpu_online = replicate 16 0, gpu_freq = replicate 16 0, dram_adaptive = replicate 4 0,
     dram_freq = replicate 16 0, dram_freq_max = replicate 16 0, dram_freq_min = replicate 16 0\<rparr>"

text \<open>The sum of the results of the reads; the size of a field is the length of its buffer.\<close>

definition np_get_scene_config ::
    "('u, 'p, 's) uci_lib \<Rightarrow> 'u \<Rightarrow> NP_SCENE \<Rightarrow> cstr \<Rightarrow> (int \<times> NP_SCENE) option" where
  "np_get_scene_config lib u scene scene_name =
     (case np_uci_open lib u NATIVE_POWER_CONFIG_PATH of
        None \<Rightarrow> Some (-1, scene)
      | Some p \<Rightarrow> do {
          let get = (\<lambda>name b. np_uci_read_config lib p scene_name (bytes_of name) b (length b));
          (r1, b1) \<leftarrow> get ''bootlock'' (bootlock scene);
          (r2, b2) \<leftarrow> get ''roomage'' (roomage scene);
          (r3, b3) \<leftarrow> get ''cpu_freq'' (cpu_freq scene);
          (r4, b4) \<leftarrow> get ''cpu_freq_max'' (cpu_freq_max scene);
          (r5, b5) \<leftarrow> get ''cpu_freq_min'' (cpu_freq_min scene);
          (r6, b6) \<leftarrow> get ''cpu_gov'' (cpu_gov scene);
          (r7, b7) \<leftarrow> get ''cpu_hot'' (cpu_hot scene);
          (r8, b8) \<leftarrow> get ''cpu_online'' (cpu_online scene);
          (r9, b9) \<leftarrow> get ''gpu_freq'' (gpu_freq scene);
          (r10, b10) \<leftarrow> get ''dram_adaptive'' (dram_adaptive scene);
          (r11, b11) \<leftarrow> get ''dram_freq'' (dram_freq scene);
          (r12, b12) \<leftarrow> get ''dram_freq_max'' (dram_freq_max scene);
          (r13, b13) \<leftarrow> get ''dram_freq_min'' (dram_freq_min scene);
          Some (r1 + r2 + r3 + r4 + r5 + r6 + r7 + r8 + r9 + r10 + r11 + r12 + r13,
            \<lparr>bootlock = b1, cpu_freq = b3, cpu_freq_max = b4, cpu_freq_min = b5, roomage = b2, cpu_gov = b6,
             cpu_hot = b7, cpu_online = b8, gpu_freq = b9, dram_adaptive = b10, dram_freq = b11,
             dram_freq_max = b12, dram_freq_min = b13\<rparr>)
        })"

section \<open>np\_scene\_utils.c: controls\<close>

text \<open>The board's paths (\<open>SceneConfig.h\<close>) and the kernel's files.\<close>

record np_board =
  CPU_NUM_MAX :: nat
  CPU0LOCK :: cstr
  ROOMAGE :: cstr
  CPUFREQ_AVAIL :: cstr
  CPUFREQ :: cstr
  CPUFREQ_MAX :: cstr
  CPUFREQ_MIN :: cstr
  CPUONLINE :: cstr
  CPUHOT :: cstr
  CPU0GOV :: cstr
  DRAMFREQ_AVAIL :: cstr
  DRAMFREQ :: cstr
  DRAMFREQ_MAX :: cstr
  DRAMFREQ_MIN :: cstr
  DRAMMODE :: cstr

record np_files =
  file_read :: "cstr \<Rightarrow> byte list option"
  file_write :: "cstr \<Rightarrow> bool"

type_synonym writes = "(cstr \<times> cstr) list"

definition getConfig :: "np_files \<Rightarrow> cstr \<Rightarrow> byte list \<Rightarrow> nat \<Rightarrow> (int \<times> byte list) option" where
  "getConfig fs path v n =
     (case file_read fs path of
        None \<Rightarrow> Some (-1, v)
      | Some c \<Rightarrow> map_option (\<lambda>b. (0, b)) (put v 0 (take n c)))"

definition setConfig :: "np_files \<Rightarrow> writes \<Rightarrow> cstr \<Rightarrow> cstr \<Rightarrow> int \<times> writes" where
  "setConfig fs w path v = (if \<not> file_write fs path then (-1, w) else (0, w @ [(path, v)]))"

text \<open>
  The search for the largest frequency: \<open>len\<close> is the length of the whole string. The text of the token
  before the first one that has at most two characters left up to the end of the string.
\<close>

fun last_freq :: "nat \<Rightarrow> cstr \<Rightarrow> (nat \<times> cstr) list \<Rightarrow> cstr" where
  "last_freq len token [] = token"
| "last_freq len token ((p, t) # ts) = (if 2 < len - p then last_freq len t ts else token)"

text \<open>
  \<open>GetActualFreq\<close> on the buffer \<open>actualfreq\<close> of its callers; the inner \<open>None\<close> is its result \<open>NULL\<close>.
\<close>

definition GetActualFreq :: "np_files \<Rightarrow> byte list \<Rightarrow> cstr \<Rightarrow> byte list option option" where
  "GetActualFreq fs freq avail_freq_path = do {
     f \<leftarrow> c_str freq;
     if f \<noteq> bytes_of ''max'' \<and> f \<noteq> bytes_of ''min'' then Some (Some freq)
     else do {
       (ret, v) \<leftarrow> getConfig fs avail_freq_path (replicate 256 0) 256;
       if ret \<noteq> 0 then Some None
       else do {
         s \<leftarrow> c_str v;
         case tokens (\<lambda>c. c = 32) 0 s of
           [] \<Rightarrow> Some None
         | (p, t) # ts \<Rightarrow> map_option Some
             (strcpy freq (if f = bytes_of ''min'' then t else last_freq (length s) t ts))
       }
     }
   }"

definition SetCpuFreq :: "np_board \<Rightarrow> np_files \<Rightarrow> writes \<Rightarrow> byte list \<Rightarrow> (int \<times> writes) option" where
  "SetCpuFreq bd fs w freq = do {
     f \<leftarrow> c_str freq;
     actualfreq \<leftarrow> strcpy (replicate 32 0) f;
     r \<leftarrow> GetActualFreq fs actualfreq (CPUFREQ_AVAIL bd);
     case r of
       None \<Rightarrow> Some (-1, w)
     | Some actualfreq \<Rightarrow> do {
         v \<leftarrow> c_str actualfreq;
         let (_, w) = setConfig fs w (CPUFREQ_MAX bd) v;
         let (_, w) = setConfig fs w (CPUFREQ_MIN bd) v;
         Some (0, w)
       }
   }"

text \<open>The frequencies of the memory are in Hz on some kernels: seven digits or more become kHz.\<close>

definition SetDramFreq :: "np_board \<Rightarrow> np_files \<Rightarrow> writes \<Rightarrow> byte list \<Rightarrow> (int \<times> writes) option" where
  "SetDramFreq bd fs w freq = do {
     f \<leftarrow> c_str freq;
     actualfreq \<leftarrow> strcpy (replicate 32 0) f;
     r \<leftarrow> GetActualFreq fs actualfreq (DRAMFREQ_AVAIL bd);
     case r of
       None \<Rightarrow> Some (-1, w)
     | Some actualfreq \<Rightarrow> do {
         v \<leftarrow> c_str actualfreq;
         let v = (if 0 < (word_of_int (atol v) :: u32) div 1000000 then dec_of_int (sgn (atol v) * (\<bar>atol v\<bar> div 1000)) else v);
         let (_, w) = setConfig fs w (DRAMFREQ_MAX bd) v;
         let (_, w) = setConfig fs w (DRAMFREQ_MIN bd) v;
         Some (0, w)
       }
   }"

definition SetBootLock :: "np_board \<Rightarrow> np_files \<Rightarrow> writes \<Rightarrow> cstr \<Rightarrow> int \<times> writes" where
  "SetBootLock bd fs w v = setConfig fs w (CPU0LOCK bd) v"

definition SetRoomage :: "np_board \<Rightarrow> np_files \<Rightarrow> writes \<Rightarrow> cstr \<Rightarrow> int \<times> writes" where
  "SetRoomage bd fs w v = setConfig fs w (ROOMAGE bd) v"

definition SetCpuFreqMax :: "np_board \<Rightarrow> np_files \<Rightarrow> writes \<Rightarrow> cstr \<Rightarrow> int \<times> writes" where
  "SetCpuFreqMax bd fs w v = setConfig fs w (CPUFREQ_MAX bd) v"

definition SetCpuFreqMin :: "np_board \<Rightarrow> np_files \<Rightarrow> writes \<Rightarrow> cstr \<Rightarrow> int \<times> writes" where
  "SetCpuFreqMin bd fs w v = setConfig fs w (CPUFREQ_MIN bd) v"

definition SetCpuGov :: "np_board \<Rightarrow> np_files \<Rightarrow> writes \<Rightarrow> cstr \<Rightarrow> int \<times> writes" where
  "SetCpuGov bd fs w v = setConfig fs w (CPU0GOV bd) v"

definition SetCpuHot :: "np_board \<Rightarrow> np_files \<Rightarrow> writes \<Rightarrow> cstr \<Rightarrow> int \<times> writes" where
  "SetCpuHot bd fs w v = setConfig fs w (CPUHOT bd) v"

definition SetDramFreqAdaptive :: "np_board \<Rightarrow> np_files \<Rightarrow> writes \<Rightarrow> cstr \<Rightarrow> int \<times> writes" where
  "SetDramFreqAdaptive bd fs w v = setConfig fs w (DRAMMODE bd) v"

definition SetDramFreqMax :: "np_board \<Rightarrow> np_files \<Rightarrow> writes \<Rightarrow> cstr \<Rightarrow> int \<times> writes" where
  "SetDramFreqMax bd fs w v = setConfig fs w (DRAMFREQ_MAX bd) v"

definition SetDramFreqMin :: "np_board \<Rightarrow> np_files \<Rightarrow> writes \<Rightarrow> cstr \<Rightarrow> int \<times> writes" where
  "SetDramFreqMin bd fs w v = setConfig fs w (DRAMFREQ_MIN bd) v"

definition SetGpuFreq :: "writes \<Rightarrow> cstr \<Rightarrow> int \<times> writes" where
  "SetGpuFreq w v = (-1, w)"

text \<open>\<open>online[i] = 1\<close> for \<open>i\<close> from \<open>start\<close> to \<open>stop\<close>.\<close>

definition set_range :: "bool list \<Rightarrow> int \<Rightarrow> int \<Rightarrow> bool list option" where
  "set_range online start stop =
     (if int (length online) \<le> stop then None
      else Some (map (\<lambda>i. online ! i \<or> start \<le> int i \<and> int i \<le> stop) [0..<length online]))"

text \<open>
  The loop over the tokens: \<open>Inl\<close> is the early return. \<open>buf\<close> is the argument, of which 16 bytes are
  looked at; the character behind a token is read at the second character of the token's place, as
  if every number had one digit. A \<open>char\<close> of the end of a range is taken as unsigned, as on ARM.
\<close>

fun online_tokens :: "byte list \<Rightarrow> (nat \<times> cstr) list \<Rightarrow> bool list \<Rightarrow> (int + bool list) option" where
  "online_tokens buf [] online = Some (Inr online)"
| "online_tokens buf ((p, token) # ts) online =
     (let num = atol token
      in if num < 0 \<or> int (length online) - 1 < num then Some (Inl (-1))
         else do {
           online \<leftarrow> set_range online num num;
           c \<leftarrow> rd buf (p + 1);
           if c = 45 then
             if p + 2 < 16 then do {
               e \<leftarrow> rd buf (p + 2);
               let stop = int (unat e) - 48;
               if stop < num then Some (Inl (-1))
               else do {
                 online \<leftarrow> set_range online num stop;
                 online_tokens buf ts online
               }
             }
             else Some (Inl (-1))
           else online_tokens buf ts online
         })"

definition cpu_path :: "nat \<Rightarrow> cstr" where
  "cpu_path num = bytes_of ''/sys/devices/system/cpu/cpu'' @ dec_of_nat num @ bytes_of ''/online''"

fun write_online :: "np_files \<Rightarrow> writes \<Rightarrow> nat \<Rightarrow> bool list \<Rightarrow> writes" where
  "write_online fs w num [] = w"
| "write_online fs w num (b # bs) =
     write_online fs (snd (setConfig fs w (cpu_path num) (bytes_of (if b then ''1'' else ''0'')))) (Suc num) bs"

definition SetCpuOnline :: "np_board \<Rightarrow> np_files \<Rightarrow> writes \<Rightarrow> byte list \<Rightarrow> (int \<times> writes) option" where
  "SetCpuOnline bd fs w buf = do {
     s \<leftarrow> c_str buf;
     r \<leftarrow>
       (if s = bytes_of ''all'' then Some (Inr (replicate (CPU_NUM_MAX bd) True))
        else do {
          tmp \<leftarrow> slice buf 0 16;
          t \<leftarrow> c_str tmp;
          online_tokens buf (tokens (\<lambda>c. c = 45 \<or> c = 44) 0 t) (replicate (CPU_NUM_MAX bd) False)
        });
     case r of
       Inl ret \<Rightarrow> Some (ret, w)
     | Inr online \<Rightarrow> Some (0, write_online fs w 1 (tl online))
   }"

text \<open>
  \<open>np_set_scene\<close>: a control for every field that is not empty, in this order; the results are not
  looked at. \<open>when_set\<close> is the test of the length.
\<close>

definition when_set ::
    "(writes \<Rightarrow> byte list \<Rightarrow> cstr \<Rightarrow> (int \<times> writes) option) \<Rightarrow> byte list \<Rightarrow> writes \<Rightarrow> writes option" where
  "when_set f b w = do {
     s \<leftarrow> c_str b;
     if s \<noteq> [] then map_option snd (f w b s) else Some w
   }"

definition np_set_scene :: "np_board \<Rightarrow> np_files \<Rightarrow> writes \<Rightarrow> NP_SCENE \<Rightarrow> (int \<times> writes) option" where
  "np_set_scene bd fs w scene = do {
     w \<leftarrow> when_set (\<lambda>w b s. Some (SetBootLock bd fs w s)) (bootlock scene) w;
     w \<leftarrow> when_set (\<lambda>w b s. Some (SetRoomage bd fs w s)) (roomage scene) w;
     w \<leftarrow> when_set (\<lambda>w b s. SetCpuFreq bd fs w b) (cpu_freq scene) w;
     w \<leftarrow> when_set (\<lambda>w b s. Some (SetCpuFreqMax bd fs w s)) (cpu_freq_max scene) w;
     w \<leftarrow> when_set (\<lambda>w b s. Some (SetCpuFreqMin bd fs w s)) (cpu_freq_min scene) w;
     w \<leftarrow> when_set (\<lambda>w b s. Some (SetCpuGov bd fs w s)) (cpu_gov scene) w;
     w \<leftarrow> when_set (\<lambda>w b s. Some (SetCpuHot bd fs w s)) (cpu_hot scene) w;
     w \<leftarrow> when_set (\<lambda>w b s. SetCpuOnline bd fs w b) (cpu_online scene) w;
     w \<leftarrow> when_set (\<lambda>w b s. Some (SetGpuFreq w s)) (gpu_freq scene) w;
     w \<leftarrow> when_set (\<lambda>w b s. Some (SetDramFreqAdaptive bd fs w s)) (dram_adaptive scene) w;
     w \<leftarrow> when_set (\<lambda>w b s. SetDramFreq bd fs w b) (dram_freq scene) w;
     w \<leftarrow> when_set (\<lambda>w b s. Some (SetDramFreqMax bd fs w s)) (dram_freq_max scene) w;
     w \<leftarrow> when_set (\<lambda>w b s. Some (SetDramFreqMin bd fs w s)) (dram_freq_min scene) w;
     Some (0, w)
   }"

section \<open>scene\_manager.c\<close>

definition PROP_SECTION :: cstr where "PROP_SECTION = bytes_of ''properties''"
definition PROP_OPTION_CUR_SCENE :: cstr where "PROP_OPTION_CUR_SCENE = bytes_of ''current_scene''"

definition np_scene_get :: "('u, 'p, 's) uci_lib \<Rightarrow> 'u \<Rightarrow> byte list \<Rightarrow> nat \<Rightarrow> (int \<times> byte list) option" where
  "np_scene_get lib u scene_name len =
     map_option (\<lambda>(_, b). (0, b)) (np_get_property lib u PROP_SECTION PROP_OPTION_CUR_SCENE scene_name len)"

definition np_scene_change ::
    "('u, 'p, 's) uci_lib \<Rightarrow> np_board \<Rightarrow> np_files \<Rightarrow> 'u \<Rightarrow> writes \<Rightarrow> cstr \<Rightarrow> (int \<times> 'u \<times> writes) option" where
  "np_scene_change lib bd fs u w scene_name = do {
     (ret, scene) \<leftarrow> np_get_scene_config lib u zero_scene scene_name;
     if ret < 0 then Some (-1, u, w)
     else do {
       let (_, u) = np_set_property lib u PROP_SECTION PROP_OPTION_CUR_SCENE scene_name;
       (_, w) \<leftarrow> np_set_scene bd fs w scene;
       Some (0, u, w)
     }
   }"

definition np_scene_property_get ::
    "('u, 'p, 's) uci_lib \<Rightarrow> 'u \<Rightarrow> cstr \<Rightarrow> byte list \<Rightarrow> nat \<Rightarrow> (int \<times> byte list) option" where
  "np_scene_property_get lib u conf_name conf_buf len = np_get_property lib u PROP_SECTION conf_name conf_buf len"

definition np_scene_property_set :: "('u, 'p, 's) uci_lib \<Rightarrow> 'u \<Rightarrow> cstr \<Rightarrow> cstr \<Rightarrow> int \<times> 'u" where
  "np_scene_property_set lib u conf_name conf_buf = np_set_property lib u PROP_SECTION conf_name conf_buf"

text \<open>The readings and settings of single values; the tables of operations have no empty entries.\<close>

definition np_cpu_freq_get :: "np_board \<Rightarrow> np_files \<Rightarrow> byte list \<Rightarrow> nat \<Rightarrow> (int \<times> byte list) option" where
  "np_cpu_freq_get bd fs freq len = getConfig fs (CPUFREQ bd) freq len"

definition np_cpu_freq_set :: "np_board \<Rightarrow> np_files \<Rightarrow> writes \<Rightarrow> byte list \<Rightarrow> (int \<times> writes) option" where
  "np_cpu_freq_set bd fs w freq = SetCpuFreq bd fs w freq"

definition np_cpu_gov_get :: "np_board \<Rightarrow> np_files \<Rightarrow> byte list \<Rightarrow> nat \<Rightarrow> (int \<times> byte list) option" where
  "np_cpu_gov_get bd fs gov len = getConfig fs (CPU0GOV bd) gov len"

definition np_cpu_online_get :: "np_board \<Rightarrow> np_files \<Rightarrow> byte list \<Rightarrow> nat \<Rightarrow> (int \<times> byte list) option" where
  "np_cpu_online_get bd fs online len = getConfig fs (CPUONLINE bd) online len"

definition np_dram_freq_get :: "np_board \<Rightarrow> np_files \<Rightarrow> byte list \<Rightarrow> nat \<Rightarrow> (int \<times> byte list) option" where
  "np_dram_freq_get bd fs freq len = getConfig fs (DRAMFREQ bd) freq len"

definition np_dram_freq_set :: "np_board \<Rightarrow> np_files \<Rightarrow> writes \<Rightarrow> byte list \<Rightarrow> (int \<times> writes) option" where
  "np_dram_freq_set bd fs w freq = SetDramFreq bd fs w freq"

definition np_gpu_freq_get :: "byte list \<Rightarrow> int \<times> byte list" where
  "np_gpu_freq_get freq = (-1, freq)"

definition np_gpu_freq_set :: "writes \<Rightarrow> cstr \<Rightarrow> int \<times> writes" where
  "np_gpu_freq_set w freq = SetGpuFreq w freq"

end
