(* ===== verification/Step_Bounds.thy ===== *)
theory Step_Bounds
  imports C_Prelude
begin

text \<open>
  Sequences of labelled steps, and the argument that ends them: steps that keep an invariant and lower a
  rank. The threads of the suspend library and those of \<open>parallel_insmod\<close> use it.
\<close>

section \<open>Sequences of steps\<close>

inductive steps :: "('a \<Rightarrow> 's \<Rightarrow> 's \<Rightarrow> bool) \<Rightarrow> 'a list \<Rightarrow> 's \<Rightarrow> 's \<Rightarrow> bool" for step where
  steps_nil: "steps step [] s s"
| steps_snoc: "steps step as s s1 \<Longrightarrow> step a s1 s2 \<Longrightarrow> steps step (as @ [a]) s s2"

lemma steps_then: "steps step as s s1 \<Longrightarrow> step a s1 s2 \<Longrightarrow> as' = as @ [a] \<Longrightarrow> steps step as' s s2"
  by (simp add: steps_snoc)

lemma steps_cons: "steps step as s1 s2 \<Longrightarrow> step a s s1 \<Longrightarrow> steps step (a # as) s s2"
proof (induction rule: steps.induct)
  case (steps_nil s1)
  then show ?case
    using steps.steps_snoc [OF steps.steps_nil, of step a s s1] by simp
next
  case (steps_snoc as s1 s2 b s3)
  then show ?case
    using steps.steps_snoc [of step "a # as" s s2 b s3] by simp
qed

text \<open>
  What a component needs of another one's threads: that the steps that are counted keep an invariant
  and lower a rank. Then they come to rest.
\<close>

locale bounded_steps =
  fixes step :: "'a \<Rightarrow> 's \<Rightarrow> 's \<Rightarrow> bool" and counted :: "'a \<Rightarrow> bool" and inv :: "'s \<Rightarrow> bool" and rank :: "'s \<Rightarrow> nat"
  assumes keeps: "step a s s' \<Longrightarrow> counted a \<Longrightarrow> inv s \<Longrightarrow> inv s'"
    and lowers: "step a s s' \<Longrightarrow> counted a \<Longrightarrow> inv s \<Longrightarrow> rank s' < rank s"
begin

lemma bounded:
  assumes "steps step as s s'" "inv s" "list_all counted as"
  shows "length as + rank s' \<le> rank s \<and> inv s'"
  using assms
proof (induction rule: steps.induct)
  case (steps_snoc as s s1 a s2)
  then show ?case
    using keeps [of a s1 s2] lowers [of a s1 s2] by auto
qed simp

lemma comes_to_rest:
  "inv s \<Longrightarrow> \<exists>as s'. steps step as s s' \<and> list_all counted as \<and> inv s' \<and> (\<forall>a s''. step a s' s'' \<longrightarrow> \<not> counted a)"
proof (induction "rank s" arbitrary: s rule: less_induct)
  case less
  show ?case
  proof (cases "\<exists>a s1. step a s s1 \<and> counted a")
    case True
    then obtain a s1 where a: "step a s s1" "counted a"
      by blast
    then obtain as s' where "steps step as s1 s'" "list_all counted as" "inv s'" "\<forall>a s''. step a s' s'' \<longrightarrow> \<not> counted a"
      using less(1) [of s1] lowers [of a s s1] keeps [of a s s1] less(2) by blast
    then show ?thesis
      using a steps_cons [of step as s1 s' a s] by (intro exI [of _ "a # as"] exI [of _ s']) simp
  next
    case False
    then show ?thesis
      using less(2) steps_nil [of step s] by (intro exI [of _ "[]"] exI [of _ s]) auto
  qed
qed

end

text \<open>Invariants by rule induction on the sequence.\<close>

lemma steps_invariant:
  assumes "steps step as s s'" "P s" "\<And>a s s'. step a s s' \<Longrightarrow> P s \<Longrightarrow> P s'"
  shows "P s'"
  using assms by (induction rule: steps.induct) auto

end
