(* ===== verification/Np_Suspend.thy ===== *)
theory Np_Suspend
  imports Step_Bounds
begin

text \<open>
  The suspend library of \<open>nativepower\<close>: the choice of a backend in \<open>autosuspend.c\<close>, one round of the
  thread of \<open>autosuspend_wakeup_count.c\<close>, and the threads of \<open>autosuspend_tinasuspend.c\<close> (the backend
  of the builds with \<open>USE_TINA_SUSPEND\<close>) as a step relation.
\<close>

section \<open>Choice of the backend\<close>

text \<open>
  The results of the system calls: whether \<open>/sys/power/state\<close> and \<open>/sys/power/wakeup_count\<close> open, the
  first write succeeds, the semaphore and the threads are created; and whether the build has
  \<open>USE_TINA_SUSPEND\<close>.
\<close>

record suspend_env =
  use_tina_suspend :: bool
  state_opens :: bool
  on_written :: bool
  tina_thread :: bool
  count_opens :: bool
  sem_created :: bool
  count_thread :: bool

datatype autosuspend_ops = Tinasuspend_ops | Earlysuspend_ops | Wakeup_count_ops

definition autosuspend_tinasuspend_init :: "suspend_env \<Rightarrow> autosuspend_ops option" where
  "autosuspend_tinasuspend_init e =
     (if \<not> state_opens e then None
      else if \<not> on_written e then None
      else if \<not> tina_thread e then None
      else Some Tinasuspend_ops)"

text \<open>Whether the thread that follows the frame buffer starts has no influence on the result.\<close>

definition autosuspend_earlysuspend_init :: "suspend_env \<Rightarrow> autosuspend_ops option" where
  "autosuspend_earlysuspend_init e =
     (if \<not> state_opens e then None
      else if \<not> on_written e then None
      else Some Earlysuspend_ops)"

definition autosuspend_wakeup_count_init :: "suspend_env \<Rightarrow> autosuspend_ops option" where
  "autosuspend_wakeup_count_init e =
     (if \<not> state_opens e then None
      else if \<not> count_opens e then None
      else if \<not> sem_created e then None
      else if \<not> count_thread e then None
      else Some Wakeup_count_ops)"

record autosuspend =
  ops :: "autosuspend_ops option"
  autosuspend_enabled :: bool
  autosuspend_inited :: bool
  wakeup_func :: bool

definition autosuspend_init :: "suspend_env \<Rightarrow> autosuspend \<Rightarrow> int \<times> autosuspend" where
  "autosuspend_init e s =
     (if autosuspend_inited s then (0, s)
      else
        let s = s\<lparr>ops := (if use_tina_suspend e then autosuspend_tinasuspend_init e else autosuspend_earlysuspend_init e)\<rparr>
        in if ops s \<noteq> None then (0, s\<lparr>autosuspend_inited := True\<rparr>)
           else
             let s = s\<lparr>ops := autosuspend_wakeup_count_init e\<rparr>
             in if ops s \<noteq> None then (0, s\<lparr>autosuspend_inited := True\<rparr>) else (-1, s))"

text \<open>\<open>enable\<close> and \<open>disable\<close> are the results of the backend's operations.\<close>

definition autosuspend_enable :: "suspend_env \<Rightarrow> (autosuspend_ops \<Rightarrow> int) \<Rightarrow> autosuspend \<Rightarrow> int \<times> autosuspend" where
  "autosuspend_enable e enable s =
     (let (ret, s) = autosuspend_init e s
      in if ret \<noteq> 0 then (ret, s)
         else if autosuspend_enabled s then (0, s)
         else
           let ret = enable (the (ops s))
           in if ret \<noteq> 0 then (ret, s) else (0, s\<lparr>autosuspend_enabled := True\<rparr>))"

definition autosuspend_disable :: "suspend_env \<Rightarrow> (autosuspend_ops \<Rightarrow> int) \<Rightarrow> autosuspend \<Rightarrow> int \<times> autosuspend" where
  "autosuspend_disable e disable s =
     (let (ret, s) = autosuspend_init e s
      in if ret \<noteq> 0 then (ret, s)
         else if \<not> autosuspend_enabled s then (0, s)
         else
           let ret = disable (the (ops s))
           in if ret \<noteq> 0 then (ret, s) else (0, s\<lparr>autosuspend_enabled := False\<rparr>))"

definition set_wakeup_callback :: "autosuspend \<Rightarrow> autosuspend" where
  "set_wakeup_callback s = (if wakeup_func s then s else s\<lparr>wakeup_func := True\<rparr>)"

section \<open>autosuspend\_wakeup\_count.c\<close>

text \<open>
  The semaphore, what was written to \<open>/sys/power/wakeup_count\<close> and how often \<open>mem\<close> was, and what the
  callback was called with. \<open>read\<close> returns the count, empty at the end of the file, or \<open>None\<close> on error.
\<close>

record wakeup_count_state =
  suspend_lockout :: nat
  counts_written :: "cstr list"
  mem_written :: nat
  wakeups :: "bool list"

record wakeup_results =
  count_read :: "cstr option"
  count_accepted :: bool
  mem_accepted :: bool

text \<open>
  One round of \<open>suspend_thread_func\<close> with a wake-up callback or none. The semaphore is only waited for
  when it is positive: while it is not, the thread blocks, and the round has no result.
\<close>

definition suspend_thread_func :: "bool \<Rightarrow> wakeup_results \<Rightarrow> wakeup_count_state \<Rightarrow> wakeup_count_state option" where
  "suspend_thread_func func r s =
     (case count_read r of
        None \<Rightarrow> Some s
      | Some wakeup_count \<Rightarrow>
          if wakeup_count = [] then Some s
          else if suspend_lockout s = 0 then None
          else
            let s = s\<lparr>suspend_lockout := suspend_lockout s - 1\<rparr>;
                s = s\<lparr>counts_written := counts_written s @ [take 20 wakeup_count]\<rparr>;
                s = (if \<not> count_accepted r then s
                     else
                       let s = s\<lparr>mem_written := Suc (mem_written s)\<rparr>
                       in if func then s\<lparr>wakeups := wakeups s @ [mem_accepted r]\<rparr> else s)
            in Some (s\<lparr>suspend_lockout := Suc (suspend_lockout s)\<rparr>))"

definition autosuspend_wakeup_count_enable :: "wakeup_count_state \<Rightarrow> int \<times> wakeup_count_state" where
  "autosuspend_wakeup_count_enable s = (0, s\<lparr>suspend_lockout := Suc (suspend_lockout s)\<rparr>)"

definition autosuspend_wakeup_count_disable :: "wakeup_count_state \<Rightarrow> (int \<times> wakeup_count_state) option" where
  "autosuspend_wakeup_count_disable s =
     (if suspend_lockout s = 0 then None else Some (0, s\<lparr>suspend_lockout := suspend_lockout s - 1\<rparr>))"

text \<open>
  The semaphore is free again after a round; a round puts the system to sleep only with the
  semaphore free and the count accepted, and calls the callback just then.
\<close>

lemma suspend_round:
  assumes "suspend_thread_func func r s = Some s'"
  shows "suspend_lockout s' = suspend_lockout s"
    "mem_written s' = (if (\<exists>c. count_read r = Some c \<and> c \<noteq> []) \<and> count_accepted r then Suc (mem_written s) else mem_written s)"
    "func \<Longrightarrow> length (wakeups s') - length (wakeups s) = mem_written s' - mem_written s"
  using assms by (auto simp: suspend_thread_func_def Let_def split: option.splits if_splits)

text \<open>While it is disabled, no round gets past the semaphore.\<close>

lemma suspend_locked_out:
  "suspend_lockout s = 0 \<Longrightarrow> suspend_thread_func func r s \<in> {None, Some s}"
  by (auto simp: suspend_thread_func_def split: option.splits)

section \<open>autosuspend\_tinasuspend.c\<close>

datatype tina_state = EARLYSUSPEND_ON | EARLYSUSPEND_MEM

text \<open>
  Where the suspend thread is: before the lock of its loop; in \<open>pthread_cond_wait\<close>; woken; before the
  write of \<open>mem\<close>; behind the sleep of two seconds; before the write of \<open>on\<close>; before the callback.
\<close>

datatype tina_pc = T_lock | T_waiting | T_woken | T_mem | T_slept | T_on | T_callback

text \<open>
  Where a call of \<open>tinasuspend_set_state(1)\<close> and \<open>tinasuspend_wait_resume()\<close> in \<open>goToSleep\<close> is: before the
  first; between the two; waiting; woken; returned. \<open>autosuspend_tinasuspend_enable\<close> and \<open>_disable\<close> write
  \<open>on\<close> and wait in the same way, starting behind the first.
\<close>

datatype caller_pc = C_set | C_wait | C_blocked | C_woken | C_done

record tina =
  tinasuspend_state :: tina_state
  tina_pc :: tina_pc
  callers :: "caller_pc list"
  power_state :: "cstr list"
  has_wakeup_func :: bool
  success :: "bool option"
  called_back :: "bool option list"

definition pwr_state_mem :: cstr where "pwr_state_mem = bytes_of ''mem''"
definition pwr_state_on :: cstr where "pwr_state_on = bytes_of ''on''"

text \<open>
  After initialisation, which wrote \<open>on\<close>, with or without a wake-up callback. \<open>success\<close> is the thread's
  local variable, \<open>None\<close> while it has no value, and \<open>called_back\<close> what the callback was called with.
\<close>

definition tina_init :: "bool \<Rightarrow> tina" where
  "tina_init func = \<lparr>tinasuspend_state = EARLYSUSPEND_ON, tina_pc = T_lock, callers = [],
     power_state = [pwr_state_on], has_wakeup_func = func, success = None, called_back = []\<rparr>"

text \<open>The condition of the two waiting loops, checked under the mutex.\<close>

definition thread_check :: "tina \<Rightarrow> tina" where
  "thread_check s = s\<lparr>tina_pc := (if tinasuspend_state s = EARLYSUSPEND_ON then T_waiting else T_mem)\<rparr>"

definition caller_check :: "nat \<Rightarrow> tina \<Rightarrow> tina" where
  "caller_check i s =
     s\<lparr>callers := (callers s)[i := (if tinasuspend_state s = EARLYSUSPEND_MEM then C_blocked else C_done)]\<rparr>"

definition caller_at :: "tina \<Rightarrow> nat \<Rightarrow> caller_pc \<Rightarrow> bool" where
  "caller_at s i p \<longleftrightarrow> i < length (callers s) \<and> callers s ! i = p"

text \<open>
  \<open>pthread_cond_signal\<close> on the condition the suspend thread and the callers share: one of the waiting
  threads, whichever the system chooses, is woken; without one, nothing happens.
\<close>

inductive signal :: "tina \<Rightarrow> tina \<Rightarrow> bool" where
  sig_thread: "tina_pc s = T_waiting \<Longrightarrow> signal s (s\<lparr>tina_pc := T_woken\<rparr>)"
| sig_caller: "caller_at s i C_blocked \<Longrightarrow> signal s (s\<lparr>callers := (callers s)[i := C_woken]\<rparr>)"
| sig_none: "tina_pc s \<noteq> T_waiting \<Longrightarrow> C_blocked \<notin> set (callers s) \<Longrightarrow> signal s s"

datatype tina_act =
    Thread_check | Thread_mem bool | Thread_resume | Thread_on | Thread_callback
  | Call | Enable | Set_state nat | Wait_resume nat | Spurious_thread | Spurious_caller nat

inductive tstep :: "tina_act \<Rightarrow> tina \<Rightarrow> tina \<Rightarrow> bool" where
  ts_check: "tina_pc s = T_lock \<or> tina_pc s = T_woken \<Longrightarrow> tstep Thread_check s (thread_check s)"
| ts_mem: "tina_pc s = T_mem \<Longrightarrow>
    tstep (Thread_mem written) s (s\<lparr>tina_pc := T_slept, power_state := power_state s @ [pwr_state_mem],
      success := (if written then success s else Some False)\<rparr>)"
| ts_resume: "tina_pc s = T_slept \<Longrightarrow> signal (s\<lparr>tinasuspend_state := EARLYSUSPEND_ON, tina_pc := T_on\<rparr>) s' \<Longrightarrow>
    tstep Thread_resume s s'"
| ts_on: "tina_pc s = T_on \<Longrightarrow>
    tstep Thread_on s (s\<lparr>tina_pc := T_callback, power_state := power_state s @ [pwr_state_on]\<rparr>)"
| ts_callback: "tina_pc s = T_callback \<Longrightarrow>
    tstep Thread_callback s (s\<lparr>tina_pc := T_lock,
      called_back := called_back s @ (if has_wakeup_func s then [success s] else [])\<rparr>)"
| ts_call: "tstep Call s (s\<lparr>callers := callers s @ [C_set]\<rparr>)"
| ts_enable: "tstep Enable s (s\<lparr>callers := callers s @ [C_wait], power_state := power_state s @ [pwr_state_on]\<rparr>)"
| ts_set: "caller_at s i C_set \<Longrightarrow>
    signal (s\<lparr>tinasuspend_state := EARLYSUSPEND_MEM, callers := (callers s)[i := C_wait]\<rparr>) s' \<Longrightarrow>
    tstep (Set_state i) s s'"
| ts_wait: "caller_at s i C_wait \<or> caller_at s i C_woken \<Longrightarrow> tstep (Wait_resume i) s (caller_check i s)"
| ts_spurious_thread: "tina_pc s = T_waiting \<Longrightarrow> tstep Spurious_thread s (s\<lparr>tina_pc := T_woken\<rparr>)"
| ts_spurious_caller: "caller_at s i C_blocked \<Longrightarrow>
    tstep (Spurious_caller i) s (s\<lparr>callers := (callers s)[i := C_woken]\<rparr>)"

inductive_cases signal_E: "signal s s'"

text \<open>Steps that need no new call and no wake-up without cause.\<close>

fun proper :: "tina_act \<Rightarrow> bool" where
  "proper Call = False"
| "proper Enable = False"
| "proper Spurious_thread = False"
| "proper (Spurious_caller i) = False"
| "proper _ = True"

abbreviation trun :: "tina_act list \<Rightarrow> tina \<Rightarrow> tina \<Rightarrow> bool" where
  "trun \<equiv> steps tstep"

text \<open>Nothing but a new call or a wake-up without cause can happen any more, and a call has not returned.\<close>

definition stuck :: "tina \<Rightarrow> bool" where
  "stuck s \<longleftrightarrow> (\<forall>a s'. tstep a s s' \<longrightarrow> \<not> proper a) \<and> (\<exists>p \<in> set (callers s). p \<noteq> C_done)"

lemma stuck_iff:
  "stuck s \<longleftrightarrow> tina_pc s = T_waiting \<and> set (callers s) \<subseteq> {C_blocked, C_done} \<and> C_blocked \<in> set (callers s)"
proof
  assume st: "stuck s"
  have no: "\<not> tstep a s s'" if "proper a" for a s'
    using st that by (auto simp: stuck_def)
  have sig: "\<exists>s'. signal x s'" for x
    by (metis sig_thread sig_caller sig_none caller_at_def in_set_conv_nth)
  have "tina_pc s \<noteq> T_slept"
    using no [of Thread_resume] sig [of "s\<lparr>tinasuspend_state := EARLYSUSPEND_ON, tina_pc := T_on\<rparr>"] ts_resume by fastforce
  then have pc: "tina_pc s = T_waiting"
    using no [of Thread_check] no [of "Thread_mem True"] no [of Thread_on] no [of Thread_callback]
      ts_check [of s] ts_mem [of s True] ts_on [of s] ts_callback [of s]
    by (cases "tina_pc s") auto
  moreover have "p \<in> {C_blocked, C_done}" if p: "p \<in> set (callers s)" for p
  proof -
    obtain i where i: "caller_at s i p"
      using p unfolding in_set_conv_nth caller_at_def by blast
    have "p \<noteq> C_set"
      using i no [of "Set_state i"] sig [of "s\<lparr>tinasuspend_state := EARLYSUSPEND_MEM, callers := (callers s)[i := C_wait]\<rparr>"]
        ts_set by fastforce
    then show ?thesis
      using i no [of "Wait_resume i"] ts_wait [of s i] by (cases p) auto
  qed
  ultimately show "tina_pc s = T_waiting \<and> set (callers s) \<subseteq> {C_blocked, C_done} \<and> C_blocked \<in> set (callers s)"
    using st by (auto simp: stuck_def)
next
  assume s: "tina_pc s = T_waiting \<and> set (callers s) \<subseteq> {C_blocked, C_done} \<and> C_blocked \<in> set (callers s)"
  have none: "\<not> caller_at s i p" if "p \<notin> {C_blocked, C_done}" for i p
  proof
    assume "caller_at s i p"
    then have "p \<in> set (callers s)"
      by (auto simp: caller_at_def)
    then show False
      using s that by auto
  qed
  have "\<not> proper a" if t: "tstep a s s'" for a s'
    using t by (cases rule: tstep.cases) (use s none in auto)
  then show "stuck s"
    using s by (auto simp: stuck_def)
qed

section \<open>One call at a time\<close>

text \<open>Runs in which a call starts only when the ones before it have returned.\<close>

inductive solo_run :: "tina_act list \<Rightarrow> tina \<Rightarrow> tina \<Rightarrow> bool" where
  solo_nil: "solo_run [] s s"
| solo_snoc: "solo_run as s s1 \<Longrightarrow> tstep a s1 s2 \<Longrightarrow> (a = Call \<or> a = Enable \<longrightarrow> set (callers s1) \<subseteq> {C_done}) \<Longrightarrow>
    solo_run (as @ [a]) s s2"

text \<open>
  The invariant: all calls but the last have returned; the thread is on its way to sleep only in state
  \<open>MEM\<close>, does not wait in that state, and nobody waits in state \<open>ON\<close> to be told that it is over.
\<close>

definition solo :: "tina \<Rightarrow> bool" where
  "solo s \<longleftrightarrow>
     (\<forall>i < length (callers s) - 1. callers s ! i = C_done) \<and>
     (tina_pc s \<in> {T_mem, T_slept} \<longrightarrow> tinasuspend_state s = EARLYSUSPEND_MEM) \<and>
     (tinasuspend_state s = EARLYSUSPEND_MEM \<longrightarrow> tina_pc s \<noteq> T_waiting) \<and>
     (C_blocked \<in> set (callers s) \<longrightarrow> tinasuspend_state s = EARLYSUSPEND_MEM)"

lemma solo_last: "solo s \<Longrightarrow> caller_at s i p \<Longrightarrow> p \<noteq> C_done \<Longrightarrow> Suc i = length (callers s)"
  by (cases "i < length (callers s) - 1") (auto simp: solo_def caller_at_def)

text \<open>The list of callers with its last element replaced.\<close>

lemma solo_callers:
  assumes "solo s" "caller_at s i p" "p \<noteq> C_done"
  obtains cs where "callers s = cs @ [p]" "i = length cs" "set cs \<subseteq> {C_done}"
proof -
  have i: "Suc i = length (callers s)"
    using solo_last [OF assms] .
  then have "callers s = take i (callers s) @ [callers s ! i]"
    by (metis take_Suc_conv_app_nth lessI take_all order_refl)
  moreover have "callers s ! i = p"
    using assms(2) by (simp add: caller_at_def)
  moreover have "set (take i (callers s)) \<subseteq> {C_done}"
    using assms(1) i by (auto simp: solo_def in_set_conv_nth)
  moreover have "length (take i (callers s)) = i"
    using i by simp
  ultimately show ?thesis
    using that [of "take i (callers s)"] by simp
qed

lemma soloI:
  assumes "set cs \<subseteq> {C_done}" "callers s = cs @ [p] \<or> callers s = cs"
    "tina_pc s \<in> {T_mem, T_slept} \<Longrightarrow> tinasuspend_state s = EARLYSUSPEND_MEM"
    "tinasuspend_state s = EARLYSUSPEND_MEM \<Longrightarrow> tina_pc s \<noteq> T_waiting"
    "C_blocked \<in> set (callers s) \<Longrightarrow> tinasuspend_state s = EARLYSUSPEND_MEM"
  shows "solo s"
  using assms by (auto simp: solo_def nth_append subset_iff)

lemma solo_split:
  assumes "solo s"
  obtains cs p where "set cs \<subseteq> {C_done}" "callers s = cs @ [p] \<or> callers s = cs"
proof (cases "callers s" rule: rev_cases)
  case Nil
  then show ?thesis
    using that [of "[]"] by simp
next
  case (snoc cs p)
  have "set cs \<subseteq> {C_done}"
    using assms snoc by (auto simp: solo_def in_set_conv_nth nth_append)
  then show ?thesis
    using that snoc by blast
qed

lemma solo_step:
  "tstep a s s' \<Longrightarrow> solo s \<Longrightarrow> (a = Call \<or> a = Enable \<longrightarrow> set (callers s) \<subseteq> {C_done}) \<Longrightarrow> solo s'"
proof (induction rule: tstep.induct)
  case (ts_check s)
  then show ?case
    by (cases "tinasuspend_state s") (auto simp: thread_check_def solo_def)
next
  case (ts_mem s written)
  then show ?case
    by (auto simp: solo_def)
next
  case (ts_resume s s')
  let ?s = "s\<lparr>tinasuspend_state := EARLYSUSPEND_ON, tina_pc := T_on\<rparr>"
  from ts_resume(2) show ?case
  proof (cases rule: signal.cases)
    case (sig_caller i)
    then have "caller_at s i C_blocked"
      by (simp add: caller_at_def)
    then obtain cs where "callers s = cs @ [C_blocked]" "i = length cs" "set cs \<subseteq> {C_done}"
      using solo_callers [OF ts_resume(3)] by blast
    then show ?thesis
      using sig_caller(1) by (intro soloI [of cs _ C_woken]) auto
  next
    case sig_none
    then show ?thesis
      using ts_resume(3) by (auto simp: solo_def)
  qed simp
next
  case (ts_on s)
  then show ?case
    by (auto simp: solo_def)
next
  case (ts_callback s)
  then show ?case
    by (auto simp: solo_def)
next
  case (ts_call s)
  then show ?case
    by (intro soloI [of "callers s" _ C_set]) (auto simp: solo_def)
next
  case (ts_enable s)
  then show ?case
    by (intro soloI [of "callers s" _ C_wait]) (auto simp: solo_def)
next
  case (ts_set s i s')
  obtain cs where cs: "callers s = cs @ [C_set]" "i = length cs" "set cs \<subseteq> {C_done}"
    using solo_callers [OF ts_set(3,1)] by blast
  from ts_set(2) show ?case
  proof (cases rule: signal.cases)
    case sig_thread
    then show ?thesis
      using cs by (intro soloI [of cs _ C_wait]) auto
  next
    case (sig_caller j)
    then have "C_blocked \<in> set (cs @ [C_wait])"
      using cs nth_mem [of j "cs @ [C_wait]"] by (auto simp: caller_at_def)
    then show ?thesis
      using cs by auto
  next
    case sig_none
    then show ?thesis
      using cs by (intro soloI [of cs _ C_wait]) auto
  qed
next
  case (ts_wait s i)
  then obtain p where p: "caller_at s i p" "p \<noteq> C_done" "p \<noteq> C_blocked"
    by auto
  obtain cs where "callers s = cs @ [p]" "i = length cs" "set cs \<subseteq> {C_done}"
    using solo_callers [OF ts_wait(2) p(1,2)] by blast
  then show ?case
    using ts_wait(2) by (intro soloI [of cs _ "if tinasuspend_state s = EARLYSUSPEND_MEM then C_blocked else C_done"])
      (auto simp: caller_check_def solo_def split: if_splits)
next
  case (ts_spurious_thread s)
  then show ?case
    by (auto simp: solo_def)
next
  case (ts_spurious_caller s i)
  obtain cs where "callers s = cs @ [C_blocked]" "i = length cs" "set cs \<subseteq> {C_done}"
    using solo_callers [OF ts_spurious_caller(2,1)] by blast
  then show ?case
    using ts_spurious_caller(2) by (intro soloI [of cs _ C_woken]) (auto simp: solo_def)
qed

lemma solo_run_solo: "solo_run as s s' \<Longrightarrow> solo s \<Longrightarrow> solo s'"
  by (induction rule: solo_run.induct) (auto intro: solo_step)

lemma solo_init: "solo (tina_init func)"
  by (simp add: solo_def tina_init_def)

lemma solo_not_stuck: "solo s \<Longrightarrow> \<not> stuck s"
  by (auto simp: stuck_iff solo_def)

text \<open>
  How many steps are left until the call returns and the thread waits again: an upper bound that every
  proper step lowers.
\<close>

fun caller_rank :: "caller_pc \<Rightarrow> nat" where
  "caller_rank C_set = 20"
| "caller_rank C_wait = 3"
| "caller_rank C_woken = 2"
| "caller_rank C_blocked = 1"
| "caller_rank C_done = 0"

fun thread_rank :: "tina_state \<Rightarrow> tina_pc \<Rightarrow> nat" where
  "thread_rank st T_on = (if st = EARLYSUSPEND_MEM then 12 else 4)"
| "thread_rank st T_callback = (if st = EARLYSUSPEND_MEM then 11 else 3)"
| "thread_rank st T_lock = (if st = EARLYSUSPEND_MEM then 10 else 2)"
| "thread_rank st T_woken = (if st = EARLYSUSPEND_MEM then 10 else 2)"
| "thread_rank st T_mem = 9"
| "thread_rank st T_slept = 8"
| "thread_rank st T_waiting = 0"

definition rank :: "tina \<Rightarrow> nat" where
  "rank s = sum_list (map caller_rank (callers s)) + thread_rank (tinasuspend_state s) (tina_pc s)"

lemma rank_done: "set cs \<subseteq> {C_done} \<Longrightarrow> sum_list (map caller_rank cs) = 0"
  by (induction cs) auto

lemma rank_step: "tstep a s s' \<Longrightarrow> proper a \<Longrightarrow> solo s \<Longrightarrow> rank s' < rank s"
proof (induction rule: tstep.induct)
  case (ts_check s)
  then show ?case
    by (cases "tinasuspend_state s") (auto simp: rank_def thread_check_def)
next
  case (ts_resume s s')
  from ts_resume(2) show ?case
  proof (cases rule: signal.cases)
    case (sig_caller i)
    then have "caller_at s i C_blocked"
      by (simp add: caller_at_def)
    then obtain cs where "callers s = cs @ [C_blocked]" "i = length cs" "set cs \<subseteq> {C_done}"
      using solo_callers [OF ts_resume(4)] by blast
    then show ?thesis
      using sig_caller(1) ts_resume(1) by (simp add: rank_def)
  qed (use ts_resume(1) in \<open>simp_all add: rank_def\<close>)
next
  case (ts_set s i s')
  obtain cs where cs: "callers s = cs @ [C_set]" "i = length cs" "set cs \<subseteq> {C_done}"
    using solo_callers [OF ts_set(4,1)] by blast
  have "thread_rank EARLYSUSPEND_MEM pc \<le> 12" for pc
    by (cases pc) simp_all
  then have le: "thread_rank EARLYSUSPEND_MEM pc < 17 + m" for pc m
    by (rule le_less_trans) simp
  from ts_set(2) show ?case
  proof (cases rule: signal.cases)
    case sig_thread
    then show ?thesis
      using cs by (simp add: rank_def rank_done)
  next
    case (sig_caller j)
    then have "C_blocked \<in> set (cs @ [C_wait])"
      using cs nth_mem [of j "cs @ [C_wait]"] by (auto simp: caller_at_def)
    then show ?thesis
      using cs by auto
  next
    case sig_none
    then show ?thesis
      using cs le [of "tina_pc s"] by (simp add: rank_def rank_done)
  qed
next
  case (ts_wait s i)
  then obtain p where p: "caller_at s i p" "p = C_wait \<or> p = C_woken"
    by auto
  obtain cs where "callers s = cs @ [p]" "i = length cs" "set cs \<subseteq> {C_done}"
    using solo_callers [OF ts_wait(3) p(1)] p(2) by blast
  then show ?case
    using p(2) by (auto simp: caller_check_def rank_def rank_done)
qed (auto simp: rank_def)

lemma proper_keeps_solo: "tstep a s s' \<Longrightarrow> proper a \<Longrightarrow> solo s \<Longrightarrow> solo s'"
  using solo_step [of a s s'] by (cases a) simp_all

interpretation suspend: bounded_steps tstep proper solo rank
  by unfold_locales (simp_all add: proper_keeps_solo rank_step)

lemma rank_bound: "solo s \<Longrightarrow> rank s \<le> 32"
proof -
  assume "solo s"
  then obtain cs p where cs: "set cs \<subseteq> {C_done}" "callers s = cs @ [p] \<or> callers s = cs"
    using solo_split by metis
  have "caller_rank p \<le> 20" "thread_rank (tinasuspend_state s) (tina_pc s) \<le> 12"
    by (cases p; simp) (cases "tina_pc s"; simp)
  then show ?thesis
    using cs by (auto simp: rank_def rank_done)
qed

end
