(* ===== verification/Np_Power.thy ===== *)
theory Np_Power
  imports Np_Scene Np_Suspend
begin

text \<open>
  The daemon of \<open>nativepower\<close>: the wake locks of \<open>power.c\<close>, the decisions of \<open>power_manager.c\<close>, the power
  key of \<open>np_input.c\<close>, the loop of \<open>main.c\<close>, the requests of \<open>dbus_server.c\<close>, and the client library
  (\<open>dbus_client.c\<close>, \<open>power_manager_client.c\<close>) that sends them. The kernel's wake locks, the UCI library and
  libdbus are parameters. \<open>None\<close> is undefined behaviour.
\<close>

section \<open>State\<close>

text \<open>
  The files \<open>/sys/power/wake_lock\<close> and \<open>/sys/power/wake_unlock\<close>: whether they open, whether a write of a
  name is taken whole and the locks after it, and what is read.
\<close>

record 'k wake_dev =
  lock_opens :: bool
  unlock_opens :: bool
  lock_write :: "'k \<Rightarrow> cstr \<Rightarrow> bool \<times> 'k"
  unlock_write :: "'k \<Rightarrow> cstr \<Rightarrow> bool \<times> 'k"
  lock_read :: "'k \<Rightarrow> byte list option"

text \<open>
  What the daemon runs on. \<open>tina_build\<close> is \<open>USE_TINA_SUSPEND\<close>, \<open>forks\<close> that new processes can be created,
  and \<open>stack\<close> what is in the part of the buffer for wake locks that is not cleared (1024 bytes).
\<close>

record ('u, 'p, 's, 'k) np_env =
  uci_of :: "('u, 'p, 's) uci_lib"
  board_of :: np_board
  files_of :: np_files
  wake_of :: "'k wake_dev"
  tina_build :: bool
  forks :: bool
  stack :: "byte list"

datatype np_effect = Suspend | Poweroff | Reboot

text \<open>The static variables of the daemon, its environment's state, and what it did to the system.\<close>

record ('u, 'k) npd =
  mLastUserActivityTime :: int
  mKeepAwakeTime :: int
  has_sleep :: bool
  uci_state :: 'u
  wake_state :: 'k
  controls :: writes
  effects :: "np_effect list"

section \<open>power.c\<close>

definition acquire_wake_lock :: "'k wake_dev \<Rightarrow> 'k \<Rightarrow> cstr \<Rightarrow> int \<times> 'k" where
  "acquire_wake_lock dev k i =
     (if \<not> lock_opens dev then (-1, k) else let (_, k) = lock_write dev k i in (0, k))"

definition release_wake_lock :: "'k wake_dev \<Rightarrow> 'k \<Rightarrow> cstr \<Rightarrow> int \<times> 'k" where
  "release_wake_lock dev k i =
     (if \<not> unlock_opens dev then (-1, k)
      else let (whole, k) = unlock_write dev k i in (if whole then 0 else -1, k))"

fun count_locks :: "(nat \<times> cstr) list \<Rightarrow> nat" where
  "count_locks [] = 0"
| "count_locks ((_, t) # ts) = (if is_space (hd t) then 0 else Suc (count_locks ts))"

definition get_wake_lock_count :: "'k wake_dev \<Rightarrow> byte list \<Rightarrow> 'k \<Rightarrow> int option" where
  "get_wake_lock_count dev stk k =
     (if \<not> lock_opens dev then Some (-1)
      else
        case lock_read dev k of
          None \<Rightarrow> Some (-1)
        | Some c \<Rightarrow> do {
            buf \<leftarrow> put (replicate 1024 0 @ stk) 0 (take 2048 c);
            s \<leftarrow> c_str buf;
            Some (int (count_locks (tokens (\<lambda>c. c = 32) 0 s)))
          })"

section \<open>power\_manager.c\<close>

definition NATIVE_POWER_DISPLAY_LOCK :: cstr where
  "NATIVE_POWER_DISPLAY_LOCK = bytes_of ''NativePower.Display.lock''"

definition AWAKE_TIMEOUT_LIMIT :: int where "AWAKE_TIMEOUT_LIMIT = 10"

definition releaseWakeLock :: "('u, 'p, 's, 'k) np_env \<Rightarrow> ('u, 'k) npd \<Rightarrow> cstr \<Rightarrow> int \<times> ('u, 'k) npd" where
  "releaseWakeLock e s i =
     (let (ret, k) = release_wake_lock (wake_of e) (wake_state s) i in (ret, s\<lparr>wake_state := k\<rparr>))"

definition acquireWakeLock :: "('u, 'p, 's, 'k) np_env \<Rightarrow> ('u, 'k) npd \<Rightarrow> cstr \<Rightarrow> int \<times> ('u, 'k) npd" where
  "acquireWakeLock e s i =
     (let (ret, k) = acquire_wake_lock (wake_of e) (wake_state s) i in (ret, s\<lparr>wake_state := k\<rparr>))"

definition set_sleep_state :: "nat \<Rightarrow> ('u, 'k) npd \<Rightarrow> int \<times> ('u, 'k) npd" where
  "set_sleep_state st s = (if st \<noteq> 0 \<and> st \<noteq> 1 then (-1, s) else (0, s\<lparr>has_sleep := (st = 1)\<rparr>))"

text \<open>
  \<open>Suspend\<close> stands for \<open>tinasuspend_set_state(1)\<close> and the wait for its end. In builds without it the
  release of the lock is all.
\<close>

definition goToSleep :: "('u, 'p, 's, 'k) np_env \<Rightarrow> ('u, 'k) npd \<Rightarrow> (int \<times> ('u, 'k) npd) option" where
  "goToSleep e s = do {
     n \<leftarrow> get_wake_lock_count (wake_of e) (stack e) (wake_state s);
     if n \<le> 1 then do {
       let (_, s) = set_sleep_state 1 s;
       let (_, s) = releaseWakeLock e s NATIVE_POWER_DISPLAY_LOCK;
       let s = (if tina_build e then s\<lparr>effects := effects s @ [Suspend]\<rparr> else s);
       Some (0, s)
     }
     else Some (-1, s)
   }"

text \<open>The program the new process executes is there.\<close>

definition shutdown :: "('u, 'p, 's, 'k) np_env \<Rightarrow> ('u, 'k) npd \<Rightarrow> int \<times> ('u, 'k) npd" where
  "shutdown e s = (0, if forks e then s\<lparr>effects := effects s @ [Poweroff]\<rparr> else s)"

definition reboot :: "('u, 'p, 's, 'k) np_env \<Rightarrow> ('u, 'k) npd \<Rightarrow> int \<times> ('u, 'k) npd" where
  "reboot e s = (0, if forks e then s\<lparr>effects := effects s @ [Reboot]\<rparr> else s)"

definition userActivity :: "int \<Rightarrow> ('u, 'k) npd \<Rightarrow> int \<times> ('u, 'k) npd" where
  "userActivity timenow s = (0, s\<lparr>mLastUserActivityTime := timenow\<rparr>)"

text \<open>\<open>atoll\<close>, with a result of 64 bits. A \<open>time_t\<close> is as wide.\<close>

definition atoll :: "byte list \<Rightarrow> int" where
  "atoll cs =
     (let t = dropWhile is_space cs;
          v = (case t of
                 [] \<Rightarrow> 0
               | c # r \<Rightarrow> (if c = 45 then - int (digits_val r)
                          else if c = 43 then int (digits_val r)
                          else int (digits_val t)))
      in max (- (2 ^ 63)) (min (2 ^ 63 - 1) v))"

definition awake_timeout_option :: cstr where "awake_timeout_option = bytes_of ''awake_timeout''"

definition isActivityTimeValid ::
    "('u, 'p, 's, 'k) np_env \<Rightarrow> int \<Rightarrow> ('u, 'k) npd \<Rightarrow> (bool \<times> ('u, 'k) npd) option" where
  "isActivityTimeValid e timenow s = do {
     (_, cAwakeTimeout) \<leftarrow> np_scene_property_get (uci_of e) (uci_state s) awake_timeout_option (replicate 32 0) 32;
     t \<leftarrow> c_str cAwakeTimeout;
     let awakeTimeout = atoll t;
     let s = (if mKeepAwakeTime s \<noteq> awakeTimeout \<and> AWAKE_TIMEOUT_LIMIT < awakeTimeout
              then s\<lparr>mKeepAwakeTime := awakeTimeout\<rparr> else s);
     if mKeepAwakeTime s < 0 then Some (True, s)
     else do {
       let s = (if timenow < mLastUserActivityTime s \<or> mLastUserActivityTime s \<le> 0
                then s\<lparr>mLastUserActivityTime := timenow\<rparr> else s);
       if timenow - mLastUserActivityTime s < mKeepAwakeTime s then Some (True, s)
       else Some (False, s\<lparr>mLastUserActivityTime := 0\<rparr>)
     }
   }"

definition invalidateActivityTime :: "('u, 'k) npd \<Rightarrow> int \<times> ('u, 'k) npd" where
  "invalidateActivityTime s = (0, s\<lparr>mLastUserActivityTime := -1\<rparr>)"

definition init_awake_timeout :: "('u, 'p, 's, 'k) np_env \<Rightarrow> ('u, 'k) npd \<Rightarrow> (int \<times> ('u, 'k) npd) option" where
  "init_awake_timeout e s = do {
     (ret, cAwakeTimeout) \<leftarrow> np_scene_property_get (uci_of e) (uci_state s) awake_timeout_option (replicate 32 0) 32;
     t \<leftarrow> c_str cAwakeTimeout;
     let awakeTimeout = atoll t;
     if 0 < awakeTimeout then Some (0, s\<lparr>mKeepAwakeTime := awakeTimeout\<rparr>) else Some (ret, s)
   }"

definition set_awake_timeout :: "('u, 'p, 's, 'k) np_env \<Rightarrow> int \<Rightarrow> ('u, 'k) npd \<Rightarrow> int \<times> ('u, 'k) npd" where
  "set_awake_timeout e timeout_s s =
     (if timeout_s < AWAKE_TIMEOUT_LIMIT then (-1, s)
      else
        let s = s\<lparr>mKeepAwakeTime := timeout_s\<rparr>;
            (ret, u) = np_scene_property_set (uci_of e) (uci_state s) awake_timeout_option (dec_of_int timeout_s)
        in (ret, s\<lparr>uci_state := u\<rparr>))"

section \<open>np\_input.c\<close>

text \<open>
  What \<open>open_input\<close> leaves behind: the result, the number of descriptors and the descriptors. \<open>opened\<close> are
  the results of \<open>open\<close> for the files found, \<open>num\<close> the size of the array.
\<close>

definition open_input :: "int list \<Rightarrow> nat \<Rightarrow> int \<times> nat \<times> int list" where
  "open_input opened num =
     (if num < length opened then (-1, num, [])
      else
        let fds = filter (\<lambda>fd. 0 \<le> fd) opened
        in (if fds = [] then -1 else 0, length fds, fds))"

definition EV_KEY :: u16 where "EV_KEY = 1"
definition KEY_POWER :: u16 where "KEY_POWER = 116"

record input_event =
  ie_type :: u16
  ie_code :: u16
  ie_value :: int

text \<open>
  One event of the loop in \<open>scanPowerKey\<close>, read at the time \<open>now\<close> in milliseconds. \<open>powerkey_down_ms\<close> is
  \<open>None\<close> until it is first assigned; reading it before is undefined.
\<close>

definition power_key ::
    "('u, 'p, 's, 'k) np_env \<Rightarrow> 64 word \<Rightarrow> input_event \<Rightarrow> 64 word option \<Rightarrow> ('u, 'k) npd \<Rightarrow>
     (64 word option \<times> ('u, 'k) npd) option" where
  "power_key e now ev powerkey_down_ms s =
     (if ie_type ev = EV_KEY \<and> ie_code ev = KEY_POWER then
        if ie_value ev = 1 then
          if has_sleep s then Some (Some 0, snd (set_sleep_state 0 s)) else Some (Some now, s)
        else if ie_value ev = 0 then do {
          down \<leftarrow> powerkey_down_ms;
          if down \<noteq> 0 then
            if now \<le> down then Some (Some 0, s)
            else if 2000 < now - down then Some (Some down, s\<lparr>effects := effects s @ [Poweroff]\<rparr>)
            else do {
              (ret, s) \<leftarrow> goToSleep e s;
              Some (Some down, if ret = 0 then snd (set_sleep_state 1 s) else s)
            }
          else Some (Some down, s)
        }
        else Some (powerkey_down_ms, s)
      else Some (powerkey_down_ms, s))"

fun scanPowerKey ::
    "('u, 'p, 's, 'k) np_env \<Rightarrow> (64 word \<times> input_event) list \<Rightarrow> 64 word option \<Rightarrow> ('u, 'k) npd \<Rightarrow>
     (64 word option \<times> ('u, 'k) npd) option" where
  "scanPowerKey e [] down s = Some (down, s)"
| "scanPowerKey e ((now, ev) # evs) down s = do {
     (down, s) \<leftarrow> power_key e now ev down s;
     scanPowerKey e evs down s
   }"

section \<open>main.c\<close>

definition wakeup_callback :: "('u, 'p, 's, 'k) np_env \<Rightarrow> ('u, 'k) npd \<Rightarrow> ('u, 'k) npd" where
  "wakeup_callback e s =
     (let (_, s) = set_sleep_state 0 s;
          (_, s) = acquireWakeLock e s NATIVE_POWER_DISPLAY_LOCK;
          (_, s) = invalidateActivityTime s
      in s)"

text \<open>The start of the daemon, and one turn of its loop.\<close>

definition np_main :: "('u, 'p, 's, 'k) np_env \<Rightarrow> suspend_env \<Rightarrow> (autosuspend_ops \<Rightarrow> int) \<Rightarrow>
    autosuspend \<Rightarrow> ('u, 'k) npd \<Rightarrow> (autosuspend \<times> ('u, 'k) npd) option" where
  "np_main e se enable a s = do {
     let (_, s) = acquireWakeLock e s NATIVE_POWER_DISPLAY_LOCK;
     let (_, a) = autosuspend_enable se enable a;
     let a = set_wakeup_callback a;
     (_, s) \<leftarrow> init_awake_timeout e s;
     Some (a, s)
   }"

definition main_turn :: "('u, 'p, 's, 'k) np_env \<Rightarrow> int \<Rightarrow> ('u, 'k) npd \<Rightarrow> ('u, 'k) npd option" where
  "main_turn e timenow s = do {
     (valid, s) \<leftarrow> isActivityTimeValid e timenow s;
     if \<not> valid then map_option snd (goToSleep e s) else Some s
   }"

fun main_loop :: "('u, 'p, 's, 'k) np_env \<Rightarrow> int list \<Rightarrow> ('u, 'k) npd \<Rightarrow> ('u, 'k) npd option" where
  "main_loop e [] s = Some s"
| "main_loop e (t # ts) s = do {
     s \<leftarrow> main_turn e t s;
     main_loop e ts s
   }"

section \<open>dbus\_server.c\<close>

datatype dbus_arg = U32 u32 | Str cstr | Other

record dbus_message =
  interface_name :: "cstr option"
  msg_args :: "dbus_arg list"

definition method_interface :: cstr where "method_interface = bytes_of ''nativepower.method.interface''"

datatype NativePower_Function =
    NATIVEPOWER_DEAMON_GOTOSLEEP | NATIVEPOWER_DEAMON_ACQUIRE_WAKELOCK
  | NATIVEPOWER_DEAMON_RELEASE_WAKELOCK | NATIVEPOWER_DEAMON_SHUTDOWN
  | NATIVEPOWER_DEAMON_REBOOT | NATIVEPOWER_DEAMON_USERACTIVITY
  | NATIVEPOWER_DEAMON_SET_AWAKE_TIMEOUT | NATIVEPOWER_DEAMON_SET_SCENE

primrec func_num :: "NativePower_Function \<Rightarrow> u32" where
  "func_num NATIVEPOWER_DEAMON_GOTOSLEEP = 0"
| "func_num NATIVEPOWER_DEAMON_ACQUIRE_WAKELOCK = 1"
| "func_num NATIVEPOWER_DEAMON_RELEASE_WAKELOCK = 2"
| "func_num NATIVEPOWER_DEAMON_SHUTDOWN = 3"
| "func_num NATIVEPOWER_DEAMON_REBOOT = 4"
| "func_num NATIVEPOWER_DEAMON_USERACTIVITY = 5"
| "func_num NATIVEPOWER_DEAMON_SET_AWAKE_TIMEOUT = 6"
| "func_num NATIVEPOWER_DEAMON_SET_SCENE = 7"

text \<open>The string a request carries behind the number of the function.\<close>

fun str_arg :: "dbus_arg list \<Rightarrow> cstr option" where
  "str_arg (Str x # _) = Some x"
| "str_arg _ = None"

text \<open>
  The \<open>switch\<close> of \<open>filter_func\<close>: the result and the state, or \<open>None\<close> inside for a number that is not known.
\<close>

definition np_dispatch ::
    "('u, 'p, 's, 'k) np_env \<Rightarrow> int \<Rightarrow> u32 \<Rightarrow> dbus_arg list \<Rightarrow> ('u, 'k) npd \<Rightarrow> (int \<times> ('u, 'k) npd) option option" where
  "np_dispatch e timenow func_id args s =
     (if func_id = func_num NATIVEPOWER_DEAMON_GOTOSLEEP then map_option Some (goToSleep e s)
      else if func_id = func_num NATIVEPOWER_DEAMON_ACQUIRE_WAKELOCK then
        Some (Some (case str_arg args of Some i \<Rightarrow> acquireWakeLock e s i | None \<Rightarrow> (-1, s)))
      else if func_id = func_num NATIVEPOWER_DEAMON_RELEASE_WAKELOCK then
        Some (Some (case str_arg args of Some i \<Rightarrow> releaseWakeLock e s i | None \<Rightarrow> (-1, s)))
      else if func_id = func_num NATIVEPOWER_DEAMON_SHUTDOWN then Some (Some (shutdown e s))
      else if func_id = func_num NATIVEPOWER_DEAMON_REBOOT then Some (Some (reboot e s))
      else if func_id = func_num NATIVEPOWER_DEAMON_USERACTIVITY then Some (Some (userActivity timenow s))
      else if func_id = func_num NATIVEPOWER_DEAMON_SET_AWAKE_TIMEOUT then
        Some (Some (case str_arg args of Some i \<Rightarrow> set_awake_timeout e (atol i) s | None \<Rightarrow> (-1, s)))
      else if func_id = func_num NATIVEPOWER_DEAMON_SET_SCENE then
        (case str_arg args of
           Some scene \<Rightarrow> map_option (\<lambda>(ret, u, w). Some (ret, s\<lparr>uci_state := u, controls := w\<rparr>))
             (np_scene_change (uci_of e) (board_of e) (files_of e) (uci_state s) (controls s) scene)
         | None \<Rightarrow> Some (Some (-1, s)))
      else Some None)"

text \<open>
  \<open>filter_func\<close>: the arguments of the reply, if one is sent. \<open>replies\<close>: libdbus has memory for a reply. A
  message without a number at the start has undefined effects.
\<close>

definition filter_func ::
    "('u, 'p, 's, 'k) np_env \<Rightarrow> bool \<Rightarrow> int \<Rightarrow> dbus_message \<Rightarrow> ('u, 'k) npd \<Rightarrow>
     (dbus_arg list option \<times> ('u, 'k) npd) option" where
  "filter_func e replies timenow msg s = do {
     interface \<leftarrow> interface_name msg;
     if interface \<noteq> method_interface then Some (None, s)
     else
       case msg_args msg of
         U32 func_id # args \<Rightarrow> do {
           r \<leftarrow> np_dispatch e timenow func_id args s;
           case r of
             None \<Rightarrow> Some (None, s)
           | Some (ret, s) \<Rightarrow> Some (if replies then Some [U32 (word_of_int ret)] else None, s)
         }
       | _ \<Rightarrow> None
   }"

text \<open>
  The table of watches: \<open>pollfds\<close> and \<open>watches\<close> have room for 100, \<open>max_i\<close> is the last one in use. A slot
  is the descriptor, what it is polled for, and the watch.
\<close>

definition MAX_WATCHES :: nat where "MAX_WATCHES = 100"

record 'w watch_table =
  slots :: "(int \<times> u16 \<times> 'w option) list"
  max_i :: nat

definition no_watches :: "'w watch_table" where
  "no_watches = \<lparr>slots = replicate MAX_WATCHES (0, 0, None), max_i = 0\<rparr>"

definition POLLIN :: u16 where "POLLIN = 1"
definition POLLOUT :: u16 where "POLLOUT = 4"
definition POLLERR :: u16 where "POLLERR = 8"
definition POLLHUP :: u16 where "POLLHUP = 16"

definition add_watch :: "'w \<Rightarrow> int \<Rightarrow> bool \<Rightarrow> bool \<Rightarrow> 'w watch_table \<Rightarrow> 'w watch_table option" where
  "add_watch watch fd readable writable s =
     (let cond = POLLHUP OR POLLERR;
          cond = (if readable then cond OR POLLIN else cond);
          cond = (if writable then cond OR POLLOUT else cond);
          i = Suc (max_i s)
      in if i < length (slots s) then Some (s\<lparr>max_i := i, slots := (slots s)[i := (fd, cond, Some watch)]\<rparr>) else None)"

text \<open>The first slot up to \<open>max_i\<close> that holds a watch.\<close>

definition find_watch :: "'w \<Rightarrow> 'w watch_table \<Rightarrow> nat option" where
  "find_watch watch s = List.find (\<lambda>i. snd (snd (slots s ! i)) = Some watch) [0..<Suc (max_i s)]"

definition remove_watch :: "'w \<Rightarrow> 'w watch_table \<Rightarrow> 'w watch_table" where
  "remove_watch watch s =
     (case find_watch watch s of
        None \<Rightarrow> s
      | Some i \<Rightarrow>
          s\<lparr>slots := (slots s)[i := (0, 0, None)],
            max_i := (if i = max_i s \<and> 0 < max_i s then max_i s - 1 else max_i s)\<rparr>)"

text \<open>What the loop of \<open>dbus_server_thread_func\<close> polls.\<close>

definition poll_set :: "('w \<Rightarrow> bool) \<Rightarrow> 'w watch_table \<Rightarrow> (int \<times> u16 \<times> 'w) list" where
  "poll_set enabled s =
     [(fd, ev, the w). (fd, ev, w) \<leftarrow> take (Suc (max_i s)) (slots s), \<not> (fd = 0 \<or> \<not> enabled (the w))]"

section \<open>dbus\_client.c, power\_manager\_client.c\<close>

text \<open>The results of libdbus on the way to the daemon, and the arguments of the reply.\<close>

record dbus_bus =
  bus_open :: bool
  message_made :: bool
  id_appended :: bool
  data_appended :: bool
  sent :: bool
  pending :: bool

definition request :: "NativePower_Function \<Rightarrow> cstr option \<Rightarrow> dbus_message" where
  "request func_id data =
     \<lparr>interface_name = Some method_interface,
      msg_args = U32 (func_num func_id) # (case data of None \<Rightarrow> [] | Some d \<Rightarrow> [Str d])\<rparr>"

text \<open>\<open>server\<close> is what happens with the message: the reply, if there is one, and the state after.\<close>

definition dbus_client_invoke ::
    "dbus_bus \<Rightarrow> (dbus_message \<Rightarrow> 'd \<Rightarrow> (dbus_arg list option \<times> 'd) option) \<Rightarrow>
     NativePower_Function \<Rightarrow> cstr option \<Rightarrow> 'd \<Rightarrow> (int \<times> 'd) option" where
  "dbus_client_invoke bus server func_id data d =
     (if \<not> bus_open bus then Some (-1, d)
      else if \<not> message_made bus then Some (-1, d)
      else if \<not> id_appended bus then Some (-1, d)
      else if data \<noteq> None \<and> \<not> data_appended bus then Some (-1, d)
      else if \<not> sent bus then Some (-1, d)
      else if \<not> pending bus then Some (-1, d)
      else do {
        (reply, d) \<leftarrow> server (request func_id data) d;
        Some (case reply of
            None \<Rightarrow> (-1, d)
          | Some [] \<Rightarrow> (0, d)
          | Some (Str _ # _) \<Rightarrow> (-1, d)
          | Some (U32 r # _) \<Rightarrow> (sint r, d)
          | Some (Other # _) \<Rightarrow> (0, d))
      })"

definition PowerManagerSuspend where
  "PowerManagerSuspend bus server = dbus_client_invoke bus server NATIVEPOWER_DEAMON_GOTOSLEEP None"

definition PowerManagerShutDown where
  "PowerManagerShutDown bus server = dbus_client_invoke bus server NATIVEPOWER_DEAMON_SHUTDOWN None"

definition PowerManagerReboot where
  "PowerManagerReboot bus server = dbus_client_invoke bus server NATIVEPOWER_DEAMON_REBOOT None"

definition PowerManagerAcquireWakeLock where
  "PowerManagerAcquireWakeLock bus server i = dbus_client_invoke bus server NATIVEPOWER_DEAMON_ACQUIRE_WAKELOCK (Some i)"

definition PowerManagerReleaseWakeLock where
  "PowerManagerReleaseWakeLock bus server i = dbus_client_invoke bus server NATIVEPOWER_DEAMON_RELEASE_WAKELOCK (Some i)"

definition PowerManagerUserActivity where
  "PowerManagerUserActivity bus server = dbus_client_invoke bus server NATIVEPOWER_DEAMON_USERACTIVITY None"

definition PowerManagerSetAwakeTimeout where
  "PowerManagerSetAwakeTimeout bus server timeout_s d =
     (if 0 < timeout_s \<and> timeout_s < 5 then Some (-1, d)
      else dbus_client_invoke bus server NATIVEPOWER_DEAMON_SET_AWAKE_TIMEOUT (Some (dec_of_int timeout_s)) d)"

definition PowerManagerSetScene where
  "PowerManagerSetScene bus server scene = dbus_client_invoke bus server NATIVEPOWER_DEAMON_SET_SCENE (Some scene)"

end
