(* ===== verification/Np_Scene_Laws.thy ===== *)
theory Np_Scene_Laws
  imports Np_Scene
begin

text \<open>
  Laws of the scene manager: the tokens of a string, the limits of the available frequencies, the
  list of processors to be switched on, and what a scene of the configuration sets.
\<close>

section \<open>Strings in buffers\<close>

lemma strcpy_fits: "length s < length dst \<Longrightarrow> strcpy dst s = Some (s @ 0 # drop (Suc (length s)) dst)"
  by (simp add: strcpy_def put_def)

section \<open>Tokens\<close>

lemma tokens_Nil [simp]: "tokens d p [] = []"
  by (subst tokens.simps) simp

lemma tokens_delim: "d c \<Longrightarrow> tokens d p (c # s) = tokens d (Suc p) s"
  by (subst (1 2) tokens.simps) (simp add: Let_def)

lemma takeWhile_not_all: "\<forall>c \<in> set t. \<not> d c \<Longrightarrow> takeWhile (\<lambda>c. \<not> d c) t = t \<and> dropWhile (\<lambda>c. \<not> d c) t = []"
  by (simp add: takeWhile_eq_all_conv dropWhile_eq_Nil_conv)

lemma tokens_last: "t \<noteq> [] \<Longrightarrow> \<forall>c \<in> set t. \<not> d c \<Longrightarrow> tokens d p t = [(p, t)]"
proof -
  assume t: "t \<noteq> []" "\<forall>c \<in> set t. \<not> d c"
  then obtain x r where x: "t = x # r" "\<not> d x"
    by (cases t) auto
  have "dropWhile d t = t" "takeWhile d t = []"
    using x by simp_all
  then show ?thesis
    using t by (subst tokens.simps) (simp add: Let_def takeWhile_not_all)
qed

lemma tokens_more:
  "t \<noteq> [] \<Longrightarrow> \<forall>c \<in> set t. \<not> d c \<Longrightarrow> d e \<Longrightarrow>
   tokens d p (t @ e # s) = (p, t) # tokens d (Suc (p + length t)) s"
proof -
  assume t: "t \<noteq> []" "\<forall>c \<in> set t. \<not> d c" and e: "d e"
  then obtain x r where x: "t = x # r" "\<not> d x"
    by (cases t) auto
  have "dropWhile d (t @ e # s) = t @ e # s" "takeWhile d (t @ e # s) = []"
    using x by simp_all
  moreover have "takeWhile (\<lambda>c. \<not> d c) (t @ e # s) = t" "dropWhile (\<lambda>c. \<not> d c) (t @ e # s) = e # s"
    using t(2) e by (simp_all add: takeWhile_append2 dropWhile_append2)
  ultimately have "tokens d p (t @ e # s) = (p, t) # tokens d (p + length t) (e # s)"
    using x by (subst tokens.simps) (simp add: Let_def)
  then show ?thesis
    using e by (simp add: tokens_delim)
qed

section \<open>Available frequencies\<close>

text \<open>The kernel's list: each frequency followed by a space, then a newline.\<close>

definition freq_table :: "cstr list \<Rightarrow> byte list" where
  "freq_table freqs = concat (map (\<lambda>f. f @ [32]) freqs) @ [10]"

definition freqs_wf :: "cstr list \<Rightarrow> bool" where
  "freqs_wf freqs \<longleftrightarrow> freqs \<noteq> [] \<and> (\<forall>f \<in> set freqs. f \<noteq> [] \<and> 32 \<notin> set f \<and> 0 \<notin> set f \<and> length f < 32) \<and>
     length (freq_table freqs) < 256"

lemma tokens_freq_table:
  "f \<noteq> [] \<Longrightarrow> 32 \<notin> set f \<Longrightarrow>
   tokens (\<lambda>c. c = 32) p (freq_table (f # freqs)) =
     (p, f) # tokens (\<lambda>c. c = 32) (Suc (p + length f)) (freq_table freqs)"
  using tokens_more [of f "\<lambda>c. c = 32" 32 p "freq_table freqs"] by (auto simp: freq_table_def)

lemma tokens_freq_table_Nil: "tokens (\<lambda>c. c = 32) p (freq_table []) = [(p, [10])]"
  using tokens_last [of "[10]" "\<lambda>c. c = 32" p] by (simp add: freq_table_def)

lemma last_freq_table:
  "\<forall>f \<in> set freqs. f \<noteq> [] \<and> 32 \<notin> set f \<Longrightarrow> p + length (freq_table freqs) = len \<Longrightarrow>
   last_freq len t (tokens (\<lambda>c. c = 32) p (freq_table freqs)) = (if freqs = [] then t else last freqs)"
proof (induction freqs arbitrary: p t)
  case Nil
  then have "len = Suc p"
    by (simp add: freq_table_def)
  then show ?case
    by (simp add: tokens_freq_table_Nil)
next
  case (Cons f freqs)
  have l: "length (freq_table (f # freqs)) = Suc (length f + length (freq_table freqs))"
    by (simp add: freq_table_def)
  have "0 < length f" "0 < length (freq_table freqs)"
    using Cons.prems(1) by (auto simp: freq_table_def)
  then have "2 < len - p"
    using Cons.prems(2) l by linarith
  moreover have "last_freq len f (tokens (\<lambda>c. c = 32) (Suc (p + length f)) (freq_table freqs)) =
      (if freqs = [] then f else last freqs)"
    using Cons.prems l by (intro Cons.IH) simp_all
  ultimately show ?case
    using Cons.prems(1) by (simp add: tokens_freq_table)
qed

lemma freq_table_no_NUL: "\<forall>f \<in> set freqs. 0 \<notin> set f \<Longrightarrow> 0 \<notin> set (freq_table freqs)"
  by (auto simp: freq_table_def)

text \<open>The frequency a name stands for.\<close>

definition freq_of :: "cstr list \<Rightarrow> cstr \<Rightarrow> cstr" where
  "freq_of freqs f =
     (if f = bytes_of ''max'' then last freqs else if f = bytes_of ''min'' then hd freqs else f)"

lemma GetActualFreq_table:
  assumes avail: "file_read fs path = Some (freq_table freqs)" and wf: "freqs_wf freqs"
    and b: "length b = 32" "c_str b = Some f"
  shows "\<exists>b'. GetActualFreq fs b path = Some (Some b') \<and> c_str b' = Some (freq_of freqs f)"
proof (cases "f = bytes_of ''max'' \<or> f = bytes_of ''min''")
  case False
  then show ?thesis
    using b by (auto simp: GetActualFreq_def freq_of_def)
next
  case True
  obtain g gs where g: "freqs = g # gs"
    using wf by (cases freqs) (auto simp: freqs_wf_def)
  have ok: "\<forall>f \<in> set freqs. f \<noteq> [] \<and> 32 \<notin> set f \<and> 0 \<notin> set f \<and> length f < 32" "length (freq_table freqs) < 256"
    using wf by (auto simp: freqs_wf_def)
  have no0: "0 \<notin> set (freq_table freqs)"
    using ok(1) by (intro freq_table_no_NUL) simp
  have read: "getConfig fs path (replicate 256 0) 256 = Some (0, freq_table freqs @ replicate (256 - length (freq_table freqs)) 0)"
    using avail ok(2) by (simp add: getConfig_def put_def)
  have str: "c_str (freq_table freqs @ replicate (256 - length (freq_table freqs)) 0) = Some (freq_table freqs)"
    using no0 ok(2) by (intro c_str_replicate) simp_all
  have toks: "tokens (\<lambda>c. c = 32) 0 (freq_table freqs) =
      (0, g) # tokens (\<lambda>c. c = 32) (Suc (length g)) (freq_table gs)"
    using ok(1) g by (simp add: tokens_freq_table)
  have last: "last_freq (length (freq_table freqs)) g (tokens (\<lambda>c. c = 32) (Suc (length g)) (freq_table gs)) = last freqs"
    using ok(1) g by (subst last_freq_table) (auto simp: freq_table_def)
  have sel: "(if f = bytes_of ''min'' then g else last freqs) = freq_of freqs f"
    using True g by (auto simp: freq_of_def bytes_of_def)
  have "freq_of freqs f \<in> set freqs"
    using True g by (auto simp: freq_of_def)
  then have fit: "length (freq_of freqs f) < length b" "0 \<notin> set (freq_of freqs f)"
    using ok(1) b(1) by auto
  have "GetActualFreq fs b path = map_option Some (strcpy b (if f = bytes_of ''min'' then g else last freqs))"
    using True b(2) read str toks last by (auto simp: GetActualFreq_def)
  then have "GetActualFreq fs b path = Some (Some (freq_of freqs f @ 0 # drop (Suc (length (freq_of freqs f))) b))"
    unfolding sel using strcpy_fits [OF fit(1)] by simp
  then show ?thesis
    using c_str_append [OF fit(2)] by blast
qed

lemma setConfig_writable: "file_write fs path \<Longrightarrow> setConfig fs w path v = (0, w @ [(path, v)])"
  by (simp add: setConfig_def)

lemma SetCpuFreq_table:
  assumes "file_read fs (CPUFREQ_AVAIL bd) = Some (freq_table freqs)" "freqs_wf freqs"
    and "c_str b = Some f" "length f < 32" "file_write fs (CPUFREQ_MAX bd)" "file_write fs (CPUFREQ_MIN bd)"
  shows "SetCpuFreq bd fs w b =
    Some (0, w @ [(CPUFREQ_MAX bd, freq_of freqs f), (CPUFREQ_MIN bd, freq_of freqs f)])"
proof -
  let ?a = "f @ 0 # drop (Suc (length f)) (replicate 32 0)"
  have a: "strcpy (replicate 32 0) f = Some ?a"
    using assms(4) strcpy_fits [of f "replicate 32 0"] by simp
  have "0 \<notin> set f"
    using assms(3) by (auto simp: c_str_def dest: set_takeWhileD split: if_splits)
  then have "c_str ?a = Some f"
    by (rule c_str_append)
  moreover have "length ?a = 32"
    using assms(4) by simp
  ultimately obtain b' where "GetActualFreq fs ?a (CPUFREQ_AVAIL bd) = Some (Some b')" "c_str b' = Some (freq_of freqs f)"
    using GetActualFreq_table [OF assms(1,2)] by blast
  then show ?thesis
    using assms(3,5,6) a by (simp add: SetCpuFreq_def setConfig_writable)
qed

section \<open>Processors to be switched on\<close>

text \<open>A list of processors and ranges of processors as the configuration writes it.\<close>

datatype cpu_item = One nat | Span nat nat

fun item_text :: "cpu_item \<Rightarrow> cstr" where
  "item_text (One n) = [48 + of_nat n]"
| "item_text (Span a b) = [48 + of_nat a, 45, 48 + of_nat b]"

fun items_text :: "cpu_item list \<Rightarrow> cstr" where
  "items_text [] = []"
| "items_text [x] = item_text x"
| "items_text (x # y # xs) = item_text x @ 44 # items_text (y # xs)"

fun item_cpus :: "cpu_item \<Rightarrow> nat set" where
  "item_cpus (One n) = {n}"
| "item_cpus (Span a b) = {a..b}"

fun item_wf :: "nat \<Rightarrow> cpu_item \<Rightarrow> bool" where
  "item_wf m (One n) = (n < m)"
| "item_wf m (Span a b) = (a \<le> b \<and> b < m)"

abbreviation cpu_sep :: "byte \<Rightarrow> bool" where
  "cpu_sep \<equiv> \<lambda>c. c = 45 \<or> c = 44"

lemma is_digit_not_sep: "is_digit c \<Longrightarrow> c \<noteq> 44 \<and> c \<noteq> 45"
  by (auto simp: is_digit_def word_le_nat_alt)

lemma digit_ne_sep: "n < 10 \<Longrightarrow> \<not> cpu_sep (48 + of_nat n)"
  using is_digit_not_sep [OF is_digit_of_nat, of n] by blast

lemma atol_digit: "n < 10 \<Longrightarrow> atol [48 + of_nat n] = int n"
proof -
  assume n: "n < 10"
  then have "dec_of_int (int n) = [48 + of_nat n]"
    by (simp add: dec_of_int_def dec_of_nat.simps)
  then show ?thesis
    using atol_dec_of_int [of "int n"] n by simp
qed

lemma set_range_ok:
  "stop < length online \<Longrightarrow> set_range online (int start) (int stop) =
     Some (map (\<lambda>i. online ! i \<or> i \<in> {start..stop}) [0..<length online])"
  by (simp add: set_range_def)

text \<open>Switching on the processors of a set.\<close>

definition with_cpus :: "bool list \<Rightarrow> nat set \<Rightarrow> bool list" where
  "with_cpus online S = map (\<lambda>i. online ! i \<or> i \<in> S) [0..<length online]"

lemma length_with_cpus [simp]: "length (with_cpus online S) = length online"
  by (simp add: with_cpus_def)

lemma with_cpus_twice: "with_cpus (with_cpus online S) T = with_cpus online (S \<union> T)"
  by (auto simp: with_cpus_def)

lemma with_cpus_empty [simp]: "with_cpus online {} = online"
  by (simp add: with_cpus_def map_nth)

lemma set_range_with: "stop < length online \<Longrightarrow> set_range online (int start) (int stop) = Some (with_cpus online {start..stop})"
  by (simp add: set_range_ok with_cpus_def)

text \<open>A token of one digit, by the character behind it.\<close>

lemma online_token_single:
  assumes "n < length online" "length online \<le> 10" "rd buf (p + 1) = Some c" "c \<noteq> 45"
  shows "online_tokens buf ((p, [48 + of_nat n]) # ts) online = online_tokens buf ts (with_cpus online {n})"
  using assms atol_digit [of n] set_range_with [of n online n] by (simp add: Let_def)

lemma online_token_span:
  assumes "a \<le> b" "b < length online" "length online \<le> 10" "p + 2 < 16"
    and "rd buf (p + 1) = Some 45" "rd buf (p + 2) = Some (48 + of_nat b)"
  shows "online_tokens buf ((p, [48 + of_nat a]) # ts) online = online_tokens buf ts (with_cpus online {a..b})"
proof -
  have ab: "a < length online" "a < 10" "b < 10"
    using assms(1-3) by simp_all
  have e: "int (unat (48 + of_nat b :: byte)) - 48 = int b"
    using unat_digit [OF ab(3)] by simp
  have "with_cpus (with_cpus online {a}) {a..b} = with_cpus online {a..b}"
    using assms(1) by (simp add: with_cpus_twice insert_absorb)
  then show ?thesis
    using assms ab atol_digit [of a] set_range_with [of a online a] set_range_with [of b "with_cpus online {a}" a] e
    by (simp add: Let_def)
qed

text \<open>One item in the buffer, followed by something that is no dash.\<close>

lemma rd_after: "rd (pre @ c # post) (length pre) = Some c"
  by (simp add: rd_def)

lemma tokens_item:
  assumes "item_wf m x" "m \<le> 10"
  shows "tokens cpu_sep p (item_text x @ 44 # s) =
      (case x of One n \<Rightarrow> [(p, [48 + of_nat n])] | Span a b \<Rightarrow> [(p, [48 + of_nat a]), (p + 2, [48 + of_nat b])]) @
      tokens cpu_sep (Suc (p + length (item_text x))) s"
    "tokens cpu_sep p (item_text x) =
      (case x of One n \<Rightarrow> [(p, [48 + of_nat n])] | Span a b \<Rightarrow> [(p, [48 + of_nat a]), (p + 2, [48 + of_nat b])])"
proof -
  have more: "tokens cpu_sep q ([48 + of_nat n] @ e # r) = (q, [48 + of_nat n]) # tokens cpu_sep (Suc (Suc q)) r"
    if "n < m" "cpu_sep e" for q n e r
    using tokens_more [of "[48 + of_nat n]" cpu_sep e q r] digit_ne_sep [of n] that assms(2) by simp
  have last: "tokens cpu_sep q [48 + of_nat n] = [(q, [48 + of_nat n])]" if "n < m" for q n
    using tokens_last [of "[48 + of_nat n]" cpu_sep q] digit_ne_sep [of n] that assms(2) by simp
  show "tokens cpu_sep p (item_text x @ 44 # s) =
      (case x of One n \<Rightarrow> [(p, [48 + of_nat n])] | Span a b \<Rightarrow> [(p, [48 + of_nat a]), (p + 2, [48 + of_nat b])]) @
      tokens cpu_sep (Suc (p + length (item_text x))) s"
    using assms more [of _ 44] more [of _ 45] by (cases x) simp_all
  show "tokens cpu_sep p (item_text x) =
      (case x of One n \<Rightarrow> [(p, [48 + of_nat n])] | Span a b \<Rightarrow> [(p, [48 + of_nat a]), (p + 2, [48 + of_nat b])])"
    using assms more [of _ 45] last by (cases x) simp_all
qed

lemma online_item:
  assumes x: "item_wf (length online) x" "length online \<le> 10"
    and buf: "buf = pre @ item_text x @ c # post" "c \<noteq> 45" "length pre + length (item_text x) < 16"
  shows "online_tokens buf ((case x of One n \<Rightarrow> [(length pre, [48 + of_nat n])]
        | Span a b \<Rightarrow> [(length pre, [48 + of_nat a]), (length pre + 2, [48 + of_nat b])]) @ ts) online =
      online_tokens buf ts (with_cpus online (item_cpus x))"
proof (cases x)
  case (One n)
  have "rd buf (length pre + 1) = Some c"
    using rd_after [of "pre @ [48 + of_nat n]" c post] buf(1) One by simp
  then show ?thesis
    using online_token_single [of n online buf "length pre" c ts] x buf(2) One by simp
next
  case (Span a b)
  have r: "rd buf (length pre + 1) = Some 45" "rd buf (length pre + 2) = Some (48 + of_nat b)"
    "rd buf (length pre + 2 + 1) = Some c"
    using rd_after [of "pre @ [48 + of_nat a]"] rd_after [of "pre @ [48 + of_nat a, 45]"]
      rd_after [of "pre @ [48 + of_nat a, 45, 48 + of_nat b]" c post] buf(1) Span by simp_all
  have ab: "a \<le> b" "b < length online"
    using x(1) Span by simp_all
  have 1: "online_tokens buf ((length pre, [48 + of_nat a]) # (length pre + 2, [48 + of_nat b]) # ts) online =
      online_tokens buf ((length pre + 2, [48 + of_nat b]) # ts) (with_cpus online {a..b})"
    using online_token_span [OF ab x(2) _ r(1,2)] buf(3) Span by simp
  have 2: "online_tokens buf ((length pre + 2, [48 + of_nat b]) # ts) (with_cpus online {a..b}) =
      online_tokens buf ts (with_cpus (with_cpus online {a..b}) {b})"
    using online_token_single [of b "with_cpus online {a..b}" buf "length pre + 2" c ts] ab x(2) r(3) buf(2) by simp
  have "{a..b} \<union> {b} = {a..b}"
    using ab by auto
  then show ?thesis
    using 1 2 Span by (simp add: with_cpus_twice)
qed

lemma online_items:
  assumes "list_all (item_wf (length online)) xs" "length online \<le> 10"
    and "buf = pre @ items_text xs @ 0 # post" "length pre + length (items_text xs) < 16"
  shows "online_tokens buf (tokens cpu_sep (length pre) (items_text xs)) online =
    Some (Inr (with_cpus online (\<Union> (item_cpus ` set xs))))"
  using assms
proof (induction xs arbitrary: pre online rule: items_text.induct)
  case 1
  then show ?case by simp
next
  case (2 x)
  then show ?case
    using online_item [of online x buf pre 0 post "[]"] tokens_item(2) [of "length online" x "length pre"] by simp
next
  case (3 x y xs)
  let ?pre = "pre @ item_text x @ [44]"
  have b: "buf = pre @ item_text x @ 44 # items_text (y # xs) @ 0 # post"
    using 3(4) by simp
  have wf: "item_wf (length online) x" "list_all (item_wf (length (with_cpus online (item_cpus x)))) (y # xs)"
    using 3(2) by simp_all
  have "online_tokens buf (tokens cpu_sep (length pre) (items_text (x # y # xs))) online =
      online_tokens buf (tokens cpu_sep (length ?pre) (items_text (y # xs))) (with_cpus online (item_cpus x))"
    using online_item [OF wf(1) 3(3) b] 3(5) tokens_item(1) [OF wf(1) 3(3), of "length pre" "items_text (y # xs)"] by simp
  also have "\<dots> = Some (Inr (with_cpus (with_cpus online (item_cpus x)) (\<Union> (item_cpus ` set (y # xs)))))"
    using 3(1) [of "with_cpus online (item_cpus x)" ?pre] wf(2) 3(3,5) b by simp
  finally show ?case
    by (simp add: with_cpus_twice)
qed

lemma write_online_all:
  "\<forall>i. file_write fs (cpu_path i) \<Longrightarrow>
   write_online fs w n bs = w @ map (\<lambda>(i, b). (cpu_path i, bytes_of (if b then ''1'' else ''0''))) (zip [n..<n + length bs] bs)"
proof (induction bs arbitrary: w n)
  case (Cons b bs)
  have "[n..<n + length (b # bs)] = n # [Suc n..<Suc n + length bs]"
    using upt_conv_Cons [of n "n + length (b # bs)"] by simp
  then show ?case
    using Cons by (simp add: setConfig_writable)
qed simp

lemma items_text_no_NUL: "list_all (item_wf m) xs \<Longrightarrow> m \<le> 10 \<Longrightarrow> 0 \<notin> set (items_text xs)"
proof (induction xs rule: items_text.induct)
  case (2 x)
  then show ?case
    using is_digit_not [OF is_digit_of_nat] by (cases x) force+
next
  case (3 x y xs)
  then show ?case
    using is_digit_not [OF is_digit_of_nat] by (cases x) force+
qed simp

section \<open>Scenes of the configuration\<close>

text \<open>What the scene manager relies on of the UCI library: values are strings.\<close>

definition uci_strings :: "('u, 'p, 's) uci_lib \<Rightarrow> bool" where
  "uci_strings lib \<longleftrightarrow> (\<forall>s n v. uci_lookup_option_string lib s n = Some v \<longrightarrow> 0 \<notin> set v)"

text \<open>A value that was set and committed is there when the file is loaded again.\<close>

definition uci_stores :: "('u, 'p, 's) uci_lib \<Rightarrow> bool" where
  "uci_stores lib \<longleftrightarrow> (\<forall>u p p' u' sec n v.
     uci_load lib u NATIVE_POWER_CONFIG_PATH = Some p \<longrightarrow> uci_set lib p sec n v = (0, p') \<longrightarrow>
     uci_commit lib u p' = (0, u') \<longrightarrow>
     (\<exists>q s. uci_load lib u' NATIVE_POWER_CONFIG_PATH = Some q \<and> uci_lookup_section lib q sec = Some s \<and>
       uci_lookup_option_string lib s n = Some v))"

text \<open>The value of an option that fits a field of \<open>n\<close> bytes, and the field it is read into.\<close>

definition conf_value :: "('u, 'p, 's) uci_lib \<Rightarrow> 's \<Rightarrow> nat \<Rightarrow> string \<Rightarrow> cstr" where
  "conf_value lib s n name =
     (case uci_lookup_option_string lib s (bytes_of name) of
        None \<Rightarrow> [] | Some v \<Rightarrow> if length v < n then v else [])"

definition field_bytes :: "nat \<Rightarrow> cstr \<Rightarrow> byte list" where
  "field_bytes n v = v @ replicate (n - length v) 0"

lemma conf_value_fits: "0 < n \<Longrightarrow> length (conf_value lib s n name) < n"
  by (auto simp: conf_value_def split: option.splits)

lemma conf_value_no_NUL: "uci_strings lib \<Longrightarrow> 0 \<notin> set (conf_value lib s n name)"
  by (auto simp: conf_value_def uci_strings_def split: option.splits if_splits)

lemma read_field:
  "uci_lookup_section lib p sec = Some s \<Longrightarrow>
   np_uci_read_config lib p sec (bytes_of name) (replicate n 0) n = Some (0, field_bytes n (conf_value lib s n name))"
  by (auto simp: np_uci_read_config_def conf_value_def field_bytes_def put_def split: option.splits)

lemma c_str_field: "0 \<notin> set v \<Longrightarrow> length v < n \<Longrightarrow> c_str (field_bytes n v) = Some v"
  unfolding field_bytes_def by (rule c_str_replicate) simp_all

definition scene_of :: "('u, 'p, 's) uci_lib \<Rightarrow> 's \<Rightarrow> NP_SCENE" where
  "scene_of lib s =
     (let f = (\<lambda>n name. field_bytes n (conf_value lib s n name))
      in \<lparr>bootlock = f 4 ''bootlock'', cpu_freq = f 16 ''cpu_freq'', cpu_freq_max = f 16 ''cpu_freq_max'',
          cpu_freq_min = f 16 ''cpu_freq_min'', roomage = f 64 ''roomage'', cpu_gov = f 16 ''cpu_gov'',
          cpu_hot = f 16 ''cpu_hot'', cpu_online = f 16 ''cpu_online'', gpu_freq = f 16 ''gpu_freq'',
          dram_adaptive = f 4 ''dram_adaptive'', dram_freq = f 16 ''dram_freq'',
          dram_freq_max = f 16 ''dram_freq_max'', dram_freq_min = f 16 ''dram_freq_min''\<rparr>)"

lemma get_scene_config:
  assumes "uci_load lib u NATIVE_POWER_CONFIG_PATH = Some p" "uci_lookup_section lib p name = Some s"
  shows "np_get_scene_config lib u zero_scene name = Some (0, scene_of lib s)"
  using assms(1) read_field [OF assms(2)]
  by (simp add: np_get_scene_config_def np_uci_open_def zero_scene_def scene_of_def Let_def)

lemma get_scene_config_missing:
  assumes "uci_load lib u NATIVE_POWER_CONFIG_PATH = None \<or>
    (\<exists>p. uci_load lib u NATIVE_POWER_CONFIG_PATH = Some p \<and> uci_lookup_section lib p name = None)"
  shows "\<exists>ret scene. np_get_scene_config lib u zero_scene name = Some (ret, scene) \<and> ret < 0"
  using assms by (auto simp: np_get_scene_config_def np_uci_open_def np_uci_read_config_def Let_def)

text \<open>The controls that are written as they are.\<close>

definition plain_write :: "cstr \<Rightarrow> cstr \<Rightarrow> writes" where
  "plain_write path v = (if v = [] then [] else [(path, v)])"

lemma when_set_plain:
  assumes "0 \<notin> set v" "length v < n" "file_write fs path" "\<And>w s. f w s = setConfig fs w path s"
  shows "when_set (\<lambda>w b s. Some (f w s)) (field_bytes n v) w = Some (w @ plain_write path v)"
  using assms by (simp add: when_set_def c_str_field plain_write_def setConfig_writable)

lemma when_set_empty: "0 < n \<Longrightarrow> when_set f (field_bytes n []) w = Some w"
  by (simp add: when_set_def c_str_field)

lemma when_set_gpu:
  "0 \<notin> set v \<Longrightarrow> length v < n \<Longrightarrow> when_set (\<lambda>w b s. Some (SetGpuFreq w s)) (field_bytes n v) w = Some w"
  by (simp add: when_set_def c_str_field SetGpuFreq_def)

text \<open>Which processors the value of \<open>cpu_online\<close> switches on, if it is well formed.\<close>

inductive online_value :: "np_board \<Rightarrow> cstr \<Rightarrow> nat set \<Rightarrow> bool" for bd where
  online_all: "online_value bd (bytes_of ''all'') UNIV"
| online_list: "xs \<noteq> [] \<Longrightarrow> list_all (item_wf (CPU_NUM_MAX bd)) xs \<Longrightarrow> length (items_text xs) < 16 \<Longrightarrow>
    online_value bd (items_text xs) (\<Union> (item_cpus ` set xs))"

definition online_writes :: "np_board \<Rightarrow> nat set \<Rightarrow> writes" where
  "online_writes bd S = map (\<lambda>i. (cpu_path i, bytes_of (if i \<in> S then ''1'' else ''0''))) [1..<CPU_NUM_MAX bd]"

lemma write_online_set:
  assumes "\<forall>i. file_write fs (cpu_path i)"
  shows "write_online fs w 1 (tl (map (\<lambda>i. i \<in> S) [0..<CPU_NUM_MAX bd])) = w @ online_writes bd S"
proof -
  have "tl (map (\<lambda>i. i \<in> S) [0..<CPU_NUM_MAX bd]) = map (\<lambda>i. i \<in> S) [1..<CPU_NUM_MAX bd]"
    by (simp add: map_tl [symmetric])
  moreover have "zip [1..<1 + (CPU_NUM_MAX bd - 1)] (map (\<lambda>i. i \<in> S) [1..<CPU_NUM_MAX bd]) =
      map (\<lambda>i. (i, i \<in> S)) [1..<CPU_NUM_MAX bd]"
    by (cases "CPU_NUM_MAX bd") (simp_all add: zip_map2 zip_same_conv_map del: upt_Suc)
  ultimately show ?thesis
    using write_online_all [OF assms, of w 1 "map (\<lambda>i. i \<in> S) [1..<CPU_NUM_MAX bd]"]
    by (simp add: online_writes_def comp_def del: upt_Suc)
qed

lemma items_text_not_all:
  assumes "list_all (item_wf m) xs" "m \<le> 10"
  shows "items_text xs \<noteq> bytes_of ''all''"
proof (cases xs rule: items_text.cases)
  case 1
  then show ?thesis by (simp add: bytes_of_def)
next
  case (2 x)
  then show ?thesis
    using assms by (cases x) (auto simp: bytes_of_def)
next
  case (3 x y zs)
  have "48 + of_nat n \<noteq> (97 :: byte)" if "n < 10" for n
    using is_digit_of_nat [OF that] by (auto simp: is_digit_def word_le_nat_alt)
  then show ?thesis
    using 3 assms by (cases x) (auto simp: bytes_of_def)
qed

lemma SetCpuOnline_value:
  assumes v: "online_value bd v S" and m: "CPU_NUM_MAX bd \<le> 10" and w: "\<forall>i. file_write fs (cpu_path i)"
  shows "SetCpuOnline bd fs w (field_bytes 16 v) = Some (0, w @ online_writes bd S)"
  using v
proof cases
  case online_all
  have "tl (map (\<lambda>i. i \<in> (UNIV :: nat set)) [0..<CPU_NUM_MAX bd]) = tl (replicate (CPU_NUM_MAX bd) True)"
    by (simp add: map_replicate_const)
  moreover have "c_str (field_bytes 16 v) = Some v"
    using online_all by (intro c_str_field) (simp_all add: bytes_of_def)
  ultimately show ?thesis
    using write_online_set [OF w, where S = UNIV and w = w and bd = bd] online_all
    by (simp only: SetCpuOnline_def) simp
next
  case (online_list xs)
  let ?b = "field_bytes 16 v" and ?off = "replicate (CPU_NUM_MAX bd) False"
  have no0: "0 \<notin> set v"
    using items_text_no_NUL [OF online_list(4) m] online_list(1) by simp
  have str: "c_str ?b = Some v"
    using no0 online_list by (intro c_str_field) simp_all
  have all: "slice ?b 0 16 = Some ?b"
    using online_list by (simp add: slice_def field_bytes_def)
  have "?b = v @ 0 # replicate (15 - length v) 0"
    using online_list by (simp add: field_bytes_def Suc_diff_le flip: replicate_Suc)
  then have "online_tokens ?b (tokens cpu_sep 0 v) ?off = Some (Inr (with_cpus ?off S))"
    using online_items [of ?off xs ?b "[]" "replicate (15 - length v) 0"] online_list m by simp
  moreover have "with_cpus ?off S = map (\<lambda>i. i \<in> S) [0..<CPU_NUM_MAX bd]"
    by (simp add: with_cpus_def)
  moreover have "v \<noteq> bytes_of ''all''"
    using items_text_not_all [OF online_list(4) m] online_list(1) by simp
  ultimately show ?thesis
    using str all write_online_set [OF w, where S = S and w = w] by (simp add: SetCpuOnline_def)
qed

text \<open>What the control files of a frequency get: for the memory, seven digits or more are Hz.\<close>

definition dram_value :: "cstr \<Rightarrow> cstr" where
  "dram_value v = (if 0 < (word_of_int (atol v) :: u32) div 1000000 then dec_of_int (sgn (atol v) * (\<bar>atol v\<bar> div 1000)) else v)"

lemma SetDramFreq_plain:
  assumes "0 \<notin> set v" "length v < n" "n \<le> 32" "v \<notin> {bytes_of ''max'', bytes_of ''min''}"
    and "file_write fs (DRAMFREQ_MAX bd)" "file_write fs (DRAMFREQ_MIN bd)"
  shows "SetDramFreq bd fs w (field_bytes n v) =
    Some (0, w @ [(DRAMFREQ_MAX bd, dram_value v), (DRAMFREQ_MIN bd, dram_value v)])"
proof -
  have v: "c_str (field_bytes n v) = Some v" "strcpy (replicate 32 0) v = Some (v @ 0 # drop (Suc (length v)) (replicate 32 0))"
    using assms(1-3) c_str_field strcpy_fits [of v "replicate 32 0"] by simp_all
  have "c_str (v @ 0 # drop (Suc (length v)) (replicate 32 0)) = Some v"
    using assms(1) by (rule c_str_append)
  then show ?thesis
    using v assms(4-) by (simp add: SetDramFreq_def GetActualFreq_def setConfig_writable dram_value_def Let_def)
qed

text \<open>What a scene writes, in the order of the controls.\<close>

definition pair_write :: "cstr \<Rightarrow> cstr \<Rightarrow> (cstr \<Rightarrow> cstr) \<Rightarrow> cstr \<Rightarrow> writes" where
  "pair_write path path' f v = (if v = [] then [] else [(path, f v), (path', f v)])"

definition scene_writes :: "('u, 'p, 's) uci_lib \<Rightarrow> np_board \<Rightarrow> cstr list \<Rightarrow> nat set \<Rightarrow> 's \<Rightarrow> writes" where
  "scene_writes lib bd freqs S s =
     plain_write (CPU0LOCK bd) (conf_value lib s 4 ''bootlock'') @
     plain_write (ROOMAGE bd) (conf_value lib s 64 ''roomage'') @
     pair_write (CPUFREQ_MAX bd) (CPUFREQ_MIN bd) (freq_of freqs) (conf_value lib s 16 ''cpu_freq'') @
     plain_write (CPUFREQ_MAX bd) (conf_value lib s 16 ''cpu_freq_max'') @
     plain_write (CPUFREQ_MIN bd) (conf_value lib s 16 ''cpu_freq_min'') @
     plain_write (CPU0GOV bd) (conf_value lib s 16 ''cpu_gov'') @
     plain_write (CPUHOT bd) (conf_value lib s 16 ''cpu_hot'') @
     (if conf_value lib s 16 ''cpu_online'' = [] then [] else online_writes bd S) @
     plain_write (DRAMMODE bd) (conf_value lib s 4 ''dram_adaptive'') @
     pair_write (DRAMFREQ_MAX bd) (DRAMFREQ_MIN bd) dram_value (conf_value lib s 16 ''dram_freq'') @
     plain_write (DRAMFREQ_MAX bd) (conf_value lib s 16 ''dram_freq_max'') @
     plain_write (DRAMFREQ_MIN bd) (conf_value lib s 16 ''dram_freq_min'')"

lemma set_scene_of:
  assumes str: "uci_strings lib" and w: "\<forall>path. file_write fs path"
    and avail: "file_read fs (CPUFREQ_AVAIL bd) = Some (freq_table freqs)" "freqs_wf freqs"
    and dram: "conf_value lib s 16 ''dram_freq'' \<notin> {bytes_of ''max'', bytes_of ''min''}"
    and online: "conf_value lib s 16 ''cpu_online'' = [] \<or> online_value bd (conf_value lib s 16 ''cpu_online'') S"
      "CPU_NUM_MAX bd \<le> 10"
  shows "np_set_scene bd fs w0 (scene_of lib s) = Some (0, w0 @ scene_writes lib bd freqs S s)"
proof -
  note fits = conf_value_fits [of 4 lib s, simplified] conf_value_fits [of 16 lib s, simplified]
    conf_value_fits [of 64 lib s, simplified]
  note no0 = conf_value_no_NUL [OF str]
  have plain: "when_set (\<lambda>w b s. Some (f w s)) (field_bytes n (conf_value lib s n name)) w =
      Some (w @ plain_write path (conf_value lib s n name))"
    if "0 < n" "\<And>w s. f w s = setConfig fs w path s" for f n name path w
    by (rule when_set_plain [OF no0 conf_value_fits [OF that(1)] _ that(2)]) (use w in simp)
  note one = plain [OF _ SetBootLock_def] plain [OF _ SetRoomage_def] plain [OF _ SetCpuFreqMax_def]
    plain [OF _ SetCpuFreqMin_def] plain [OF _ SetCpuGov_def] plain [OF _ SetCpuHot_def]
    plain [OF _ SetDramFreqAdaptive_def] plain [OF _ SetDramFreqMax_def] plain [OF _ SetDramFreqMin_def]
  have c: "c_str (field_bytes 16 (conf_value lib s 16 name)) = Some (conf_value lib s 16 name)" for name
    by (rule c_str_field [OF no0 fits(2)])
  have cpu: "when_set (\<lambda>w b s. SetCpuFreq bd fs w b) (field_bytes 16 (conf_value lib s 16 ''cpu_freq'')) w =
      Some (w @ pair_write (CPUFREQ_MAX bd) (CPUFREQ_MIN bd) (freq_of freqs) (conf_value lib s 16 ''cpu_freq''))" for w
    using SetCpuFreq_table [OF avail c] fits(2) [of "''cpu_freq''"] c w by (simp add: when_set_def pair_write_def)
  have mem: "when_set (\<lambda>w b s. SetDramFreq bd fs w b) (field_bytes 16 (conf_value lib s 16 ''dram_freq'')) w =
      Some (w @ pair_write (DRAMFREQ_MAX bd) (DRAMFREQ_MIN bd) dram_value (conf_value lib s 16 ''dram_freq''))" for w
    using SetDramFreq_plain [OF no0 fits(2) _ dram] c w by (simp add: when_set_def pair_write_def)
  have on: "when_set (\<lambda>w b s. SetCpuOnline bd fs w b) (field_bytes 16 (conf_value lib s 16 ''cpu_online'')) w =
      Some (w @ (if conf_value lib s 16 ''cpu_online'' = [] then [] else online_writes bd S))" for w
    using SetCpuOnline_value [OF _ online(2)] online(1) w c by (auto simp: when_set_def)
  show ?thesis
    by (simp add: np_set_scene_def scene_of_def Let_def one cpu mem on when_set_gpu no0 fits scene_writes_def)
qed

end
