(* ===== verification/Np_Power_Laws.thy ===== *)
theory Np_Power_Laws
  imports Np_Power Np_Scene_Laws
begin

text \<open>
  Laws of the power daemon: the count of the wake locks, when it goes to sleep, the turns of its loop,
  requests through the bus, and the table of watches.
\<close>

section \<open>Wake locks\<close>

definition lock_name :: "cstr \<Rightarrow> bool" where
  "lock_name l \<longleftrightarrow> l \<noteq> [] \<and> (\<forall>c \<in> set l. \<not> is_space c \<and> c \<noteq> 0)"

text \<open>
  The wake locks of the kernel: the names that are held are listed with a space behind each and a
  newline at the end; writing a name to one file adds it, writing one that is held to the other
  removes it.
\<close>

definition wake_kernel :: "'k wake_dev \<Rightarrow> ('k \<Rightarrow> cstr list) \<Rightarrow> bool" where
  "wake_kernel dev held \<longleftrightarrow> lock_opens dev \<and> unlock_opens dev \<and>
     (\<forall>k. lock_read dev k = Some (freq_table (held k)) \<and> distinct (held k) \<and> list_all lock_name (held k)) \<and>
     (\<forall>k i. lock_name i \<longrightarrow> set (held (snd (lock_write dev k i))) = insert i (set (held k))) \<and>
     (\<forall>k i. i \<in> set (held k) \<longrightarrow> fst (unlock_write dev k i) \<and> set (held (snd (unlock_write dev k i))) = set (held k) - {i}) \<and>
     (\<forall>k i. i \<notin> set (held k) \<longrightarrow> held (snd (unlock_write dev k i)) = held k)"

lemma count_locks_table:
  "list_all lock_name ls \<Longrightarrow> count_locks (tokens (\<lambda>c. c = 32) p (freq_table ls)) = length ls"
proof (induction ls arbitrary: p)
  case Nil
  then show ?case
    by (simp add: tokens_freq_table_Nil is_space_def)
next
  case (Cons l ls)
  then have l: "l \<noteq> []" "32 \<notin> set l" "\<not> is_space (hd l)"
    by (auto simp: lock_name_def is_space_def)
  then show ?case
    using Cons by (simp add: tokens_freq_table)
qed

lemma wake_lock_count:
  assumes "wake_kernel dev held" "length (freq_table (held k)) < 1024"
  shows "get_wake_lock_count dev stk k = Some (int (card (set (held k))))"
proof -
  let ?t = "freq_table (held k)"
  have wf: "list_all lock_name (held k)" "distinct (held k)" "lock_read dev k = Some ?t" "lock_opens dev"
    using assms(1) by (auto simp: wake_kernel_def)
  have no0: "0 \<notin> set ?t"
    using wf(1) by (intro freq_table_no_NUL) (auto simp: lock_name_def list_all_iff)
  have "put (replicate 1024 0 @ stk) 0 (take 2048 ?t) = Some (?t @ replicate (1024 - length ?t) 0 @ stk)"
    using assms(2) by (simp add: put_def)
  moreover have "c_str (?t @ replicate (1024 - length ?t) 0 @ stk) = Some ?t"
    using c_str_append [OF no0] assms(2) by (cases "1024 - length ?t") simp_all
  ultimately show ?thesis
    using wf by (simp add: get_wake_lock_count_def count_locks_table distinct_card)
qed

lemma display_lock_name: "lock_name NATIVE_POWER_DISPLAY_LOCK"
  by (simp add: lock_name_def NATIVE_POWER_DISPLAY_LOCK_def bytes_of_def is_space_def word_le_nat_alt)

text \<open>The locks the daemon's kernel holds, and whether they fit the cleared part of the buffer.\<close>

abbreviation held_by :: "('k \<Rightarrow> cstr list) \<Rightarrow> ('u, 'k) npd \<Rightarrow> cstr set" where
  "held_by held s \<equiv> set (held (wake_state s))"

definition locks_fit :: "('k \<Rightarrow> cstr list) \<Rightarrow> ('u, 'k) npd \<Rightarrow> bool" where
  "locks_fit held s \<longleftrightarrow> length (freq_table (held (wake_state s))) < 1024"

lemma goToSleep_locked:
  assumes "wake_kernel (wake_of e) held" "locks_fit held s" "1 < card (held_by held s)"
  shows "goToSleep e s = Some (-1, s)"
  using wake_lock_count [OF assms(1) assms(2) [unfolded locks_fit_def], of "stack e"] assms(3)
  by (simp add: goToSleep_def)

lemma goToSleep_free:
  assumes "wake_kernel (wake_of e) held" "locks_fit held s" "card (held_by held s) \<le> 1"
  shows "\<exists>k. goToSleep e s = Some (0, s\<lparr>has_sleep := True, wake_state := k,
      effects := effects s @ (if tina_build e then [Suspend] else [])\<rparr>) \<and>
    set (held k) = held_by held s - {NATIVE_POWER_DISPLAY_LOCK}"
proof -
  let ?k = "snd (unlock_write (wake_of e) (wake_state s) NATIVE_POWER_DISPLAY_LOCK)"
  have k: "set (held ?k) = held_by held s - {NATIVE_POWER_DISPLAY_LOCK}"
    using assms(1) by (cases "NATIVE_POWER_DISPLAY_LOCK \<in> held_by held s") (auto simp: wake_kernel_def)
  have "snd (release_wake_lock (wake_of e) (wake_state s) NATIVE_POWER_DISPLAY_LOCK) = ?k"
    using assms(1) by (simp add: release_wake_lock_def wake_kernel_def split: prod.split)
  then have "goToSleep e s = Some (0, s\<lparr>has_sleep := True, wake_state := ?k,
      effects := effects s @ (if tina_build e then [Suspend] else [])\<rparr>)"
    using wake_lock_count [OF assms(1) assms(2) [unfolded locks_fit_def], of "stack e"] assms(3)
    by (cases "release_wake_lock (wake_of e) (wake_state s) NATIVE_POWER_DISPLAY_LOCK")
      (simp add: goToSleep_def set_sleep_state_def releaseWakeLock_def)
  then show ?thesis
    using k by blast
qed

section \<open>The loop of the daemon\<close>

text \<open>The timeout the configuration gives: 0 when there is none.\<close>

definition configured_timeout :: "('u, 'p, 's, 'k) np_env \<Rightarrow> 'u \<Rightarrow> int option" where
  "configured_timeout e u = do {
     (_, b) \<leftarrow> np_scene_property_get (uci_of e) u awake_timeout_option (replicate 32 0) 32;
     t \<leftarrow> c_str b;
     Some (atoll t)
   }"

lemma valid_unfold:
  assumes "configured_timeout e (uci_state s) = Some c"
  shows "isActivityTimeValid e t s =
    (let s = (if mKeepAwakeTime s \<noteq> c \<and> AWAKE_TIMEOUT_LIMIT < c then s\<lparr>mKeepAwakeTime := c\<rparr> else s)
     in if mKeepAwakeTime s < 0 then Some (True, s)
        else
          let s = (if t < mLastUserActivityTime s \<or> mLastUserActivityTime s \<le> 0 then s\<lparr>mLastUserActivityTime := t\<rparr> else s)
          in if t - mLastUserActivityTime s < mKeepAwakeTime s then Some (True, s)
             else Some (False, s\<lparr>mLastUserActivityTime := 0\<rparr>))"
proof -
  obtain ret b t' where "np_scene_property_get (uci_of e) (uci_state s) awake_timeout_option (replicate 32 0) 32 = Some (ret, b)"
    "c_str b = Some t'" "atoll t' = c"
    using assms by (auto simp: configured_timeout_def split: bind_splits)
  then show ?thesis
    by (simp add: isActivityTimeValid_def)
qed

text \<open>The timeout in force: the variable agrees with the configuration, or the latter is below the limit.\<close>

definition awake_timeout :: "('u, 'p, 's, 'k) np_env \<Rightarrow> ('u, 'k) npd \<Rightarrow> int \<Rightarrow> bool" where
  "awake_timeout e s T \<longleftrightarrow> 0 < T \<and> mKeepAwakeTime s = T \<and>
     (\<exists>c. configured_timeout e (uci_state s) = Some c \<and> (c = T \<or> c \<le> AWAKE_TIMEOUT_LIMIT))"

lemma valid_early:
  assumes "awake_timeout e s T" "0 < mLastUserActivityTime s"
    and "mLastUserActivityTime s \<le> t" "t < mLastUserActivityTime s + T"
  shows "isActivityTimeValid e t s = Some (True, s)"
proof -
  obtain c where "configured_timeout e (uci_state s) = Some c" "c = T \<or> c \<le> AWAKE_TIMEOUT_LIMIT"
    "0 < T" "mKeepAwakeTime s = T"
    using assms(1) by (auto simp: awake_timeout_def)
  then show ?thesis
    using assms(2-4) by (auto simp: valid_unfold Let_def)
qed

lemma valid_late:
  assumes "awake_timeout e s T" "0 < mLastUserActivityTime s" "mLastUserActivityTime s + T \<le> t"
  shows "isActivityTimeValid e t s = Some (False, s\<lparr>mLastUserActivityTime := 0\<rparr>)"
proof -
  obtain c where "configured_timeout e (uci_state s) = Some c" "c = T \<or> c \<le> AWAKE_TIMEOUT_LIMIT"
    "0 < T" "mKeepAwakeTime s = T"
    using assms(1) by (auto simp: awake_timeout_def)
  then show ?thesis
    using assms(2,3) by (auto simp: valid_unfold Let_def)
qed

text \<open>The first turn after a wake-up or an expired timeout starts the clock.\<close>

lemma valid_restart:
  assumes "awake_timeout e s T" "mLastUserActivityTime s \<le> 0"
  shows "isActivityTimeValid e t s = Some (True, s\<lparr>mLastUserActivityTime := t\<rparr>)"
proof -
  obtain c where "configured_timeout e (uci_state s) = Some c" "c = T \<or> c \<le> AWAKE_TIMEOUT_LIMIT"
    "0 < T" "mKeepAwakeTime s = T"
    using assms(1) by (auto simp: awake_timeout_def)
  then show ?thesis
    using assms(2) by (auto simp: valid_unfold Let_def)
qed

lemma main_loop_append: "main_loop e (ts @ us) s = main_loop e ts s \<bind> main_loop e us"
  by (induction ts arbitrary: s) (auto split: bind_splits)

lemma main_loop_early:
  assumes "awake_timeout e s T" "0 < mLastUserActivityTime s"
    and "\<forall>t \<in> set ts. mLastUserActivityTime s \<le> t \<and> t < mLastUserActivityTime s + T"
  shows "main_loop e ts s = Some s"
  using assms(3) by (induction ts) (auto simp: main_turn_def valid_early [OF assms(1,2)])

lemma wakeup_callback_eq:
  assumes "lock_opens (wake_of e)"
  shows "wakeup_callback e s = s\<lparr>has_sleep := False,
    wake_state := snd (lock_write (wake_of e) (wake_state s) NATIVE_POWER_DISPLAY_LOCK), mLastUserActivityTime := -1\<rparr>"
  using assms by (simp add: wakeup_callback_def set_sleep_state_def acquireWakeLock_def acquire_wake_lock_def
      invalidateActivityTime_def case_prod_beta)

lemma wakeup_held:
  assumes "wake_kernel (wake_of e) held"
  shows "held_by held (wakeup_callback e s) = insert NATIVE_POWER_DISPLAY_LOCK (held_by held s)"
    "\<not> has_sleep (wakeup_callback e s)" "mLastUserActivityTime (wakeup_callback e s) = -1"
    "mKeepAwakeTime (wakeup_callback e s) = mKeepAwakeTime s" "uci_state (wakeup_callback e s) = uci_state s"
    "effects (wakeup_callback e s) = effects s"
  using assms display_lock_name by (simp_all add: wakeup_callback_eq wake_kernel_def)

section \<open>Requests\<close>

definition bus_up :: dbus_bus where
  "bus_up = \<lparr>bus_open = True, message_made = True, id_appended = True, data_appended = True, sent = True, pending = True\<rparr>"

lemma sint_of_int: "- (2 ^ 31) \<le> i \<Longrightarrow> i < 2 ^ 31 \<Longrightarrow> sint (word_of_int i :: u32) = i"
  by (simp add: sint_sbintrunc' signed_take_bit_int_eq_self)

text \<open>A call of the client library is a call of the daemon's function.\<close>

lemma invoke_dispatch:
  assumes "np_dispatch e now (func_num f) (case data of None \<Rightarrow> [] | Some d \<Rightarrow> [Str d]) s = Some (Some (ret, s'))"
    and "- (2 ^ 31) \<le> ret" "ret < 2 ^ 31"
  shows "dbus_client_invoke bus_up (filter_func e True now) f data s = Some (ret, s')"
  using assms sint_of_int [OF assms(2,3)]
  by (simp add: dbus_client_invoke_def bus_up_def request_def filter_func_def)

lemma atoll_dec_of_int:
  assumes "0 \<le> i" "i < 2 ^ 63"
  shows "atoll (dec_of_int i) = i"
proof -
  obtain c r where c: "dec_of_nat (nat i) = c # r"
    by (cases "dec_of_nat (nat i)") auto
  then have "\<not> is_space c" "c \<noteq> 45" "c \<noteq> 43"
    using dec_of_nat_hd [of "nat i"] is_digit_not by auto
  then show ?thesis
    using assms c digits_val_dec_of_nat [of "nat i"] by (simp add: atoll_def dec_of_int_def)
qed

text \<open>A timeout that was stored is read again.\<close>

lemma stored_timeout:
  assumes "uci_stores (uci_of e)" "uci_load (uci_of e) u NATIVE_POWER_CONFIG_PATH = Some p"
    and "uci_set (uci_of e) p PROP_SECTION awake_timeout_option (dec_of_int n) = (0, p')"
    and "uci_commit (uci_of e) u p' = (0, u')" and n: "0 \<le> n" "n < 2 ^ 31"
  shows "configured_timeout e u' = Some n"
proof -
  let ?v = "dec_of_int n"
  obtain q s where q: "uci_load (uci_of e) u' NATIVE_POWER_CONFIG_PATH = Some q"
    "uci_lookup_section (uci_of e) q PROP_SECTION = Some s"
    "uci_lookup_option_string (uci_of e) s awake_timeout_option = Some ?v"
    using assms(1-4) unfolding uci_stores_def by metis
  have "length ?v \<le> 10"
    using length_dec_of_nat [of "nat n" 10] n by (simp add: dec_of_int_def)
  then have "put (replicate 32 0) 0 ?v = Some (?v @ replicate (32 - length ?v) 0)" "length ?v < 32"
    by (simp_all add: put_def)
  moreover have "c_str (?v @ replicate (32 - length ?v) 0) = Some ?v"
  proof (rule c_str_replicate)
    show "0 \<notin> set ?v"
      using n dec_of_nat_digits [of 0 "nat n"] by (auto simp: dec_of_int_def is_digit_def)
  qed (use \<open>length ?v \<le> 10\<close> in simp)
  ultimately show ?thesis
    using q atoll_dec_of_int [of n] n
    by (simp add: configured_timeout_def np_scene_property_get_def np_get_property_def np_uci_open_def np_uci_read_config_def)
qed

lemma set_awake_timeout_refused: "t < 10 \<Longrightarrow> set_awake_timeout e t s = (-1, s)"
  by (simp add: set_awake_timeout_def AWAKE_TIMEOUT_LIMIT_def)

section \<open>Watches\<close>

text \<open>Slots behind \<open>max_i\<close> are empty, and a slot with a descriptor has a watch.\<close>

definition watches_wf :: "'w watch_table \<Rightarrow> bool" where
  "watches_wf s \<longleftrightarrow> length (slots s) = MAX_WATCHES \<and> max_i s < MAX_WATCHES \<and>
     (\<forall>i < MAX_WATCHES. (fst (slots s ! i) \<noteq> 0 \<longrightarrow> snd (snd (slots s ! i)) \<noteq> None) \<and>
        (max_i s < i \<longrightarrow> slots s ! i = (0, 0, None)))"

lemma no_watches_wf: "watches_wf no_watches"
  by (simp add: watches_wf_def no_watches_def MAX_WATCHES_def)

lemma find_watch_le: "find_watch w s = Some i \<Longrightarrow> i \<le> max_i s"
  by (auto simp: find_watch_def find_Some_iff simp del: upt_Suc)

lemma add_watch_wf: "watches_wf s \<Longrightarrow> add_watch w fd r wr s = Some s' \<Longrightarrow> watches_wf s'"
  by (auto simp: add_watch_def watches_wf_def Let_def nth_list_update split: if_splits)

lemma remove_watch_wf: "watches_wf s \<Longrightarrow> watches_wf (remove_watch w s)"
proof (cases "find_watch w s")
  case (Some i)
  assume "watches_wf s"
  then show ?thesis
    using Some find_watch_le [OF Some] by (auto simp: remove_watch_def watches_wf_def nth_list_update)
qed (simp add: remove_watch_def)

text \<open>What is polled are the enabled watches of the table.\<close>

lemma poll_set_iff:
  assumes "watches_wf s" "fd \<noteq> 0"
  shows "(fd, ev, w) \<in> set (poll_set enabled s) \<longleftrightarrow> (fd, ev, Some w) \<in> set (slots s) \<and> enabled w"
proof -
  have all: "x \<in> set (take (Suc (max_i s)) (slots s))" if x: "x \<in> set (slots s)" "fst x \<noteq> 0" for x
  proof -
    obtain i where i: "i < MAX_WATCHES" "slots s ! i = x"
      using x(1) assms(1) by (auto simp: in_set_conv_nth watches_wf_def)
    then have "i \<le> max_i s"
      using x(2) assms(1) by (fastforce simp: watches_wf_def)
    then show ?thesis
      using i assms(1) by (auto simp: in_set_conv_nth watches_wf_def intro!: exI [of _ i])
  qed
  have has: "snd (snd x) \<noteq> None" if "x \<in> set (slots s)" "fst x \<noteq> 0" for x
    using that assms(1) by (auto simp: in_set_conv_nth watches_wf_def)
  have "(fd, ev, w) \<in> set (poll_set enabled s) \<longleftrightarrow>
      (\<exists>y. (fd, ev, y) \<in> set (take (Suc (max_i s)) (slots s)) \<and> the y = w \<and> enabled w)"
    using assms(2) by (force simp: poll_set_def)
  also have "\<dots> \<longleftrightarrow> (fd, ev, Some w) \<in> set (slots s) \<and> enabled w"
  proof safe
    fix y assume y: "(fd, ev, y) \<in> set (take (Suc (max_i s)) (slots s))"
    then have "(fd, ev, y) \<in> set (slots s)"
      by (rule in_set_takeD)
    then show "(fd, ev, Some (the y)) \<in> set (slots s)"
      using has [of "(fd, ev, y)"] assms(2) by auto
  next
    assume "(fd, ev, Some w) \<in> set (slots s)" "enabled w"
    then show "\<exists>y. (fd, ev, y) \<in> set (take (Suc (max_i s)) (slots s)) \<and> the y = w \<and> enabled w"
      using all [of "(fd, ev, Some w)"] assms(2) by (intro exI [of _ "Some w"]) simp
  qed
  finally show ?thesis .
qed

text \<open>There is no check for a full table: a hundredth watch is written behind its end.\<close>

lemma add_watch_overrun: "watches_wf s \<Longrightarrow> max_i s = 99 \<Longrightarrow> add_watch w fd r wr s = None"
  by (simp add: add_watch_def watches_wf_def MAX_WATCHES_def)

end
