(* ===== verification/Np_Properties.thy ===== *)
theory Np_Properties
  imports Np_Power_Laws
begin

text \<open>
  The properties of \<open>nativepower\<close>: scenes, suspending and resuming, the idle daemon, and a request
  through the bus, each with a witness where it has hypotheses.
\<close>

section \<open>A UCI library, a board and a kernel for the witnesses\<close>

type_synonym conf = "cstr \<rightharpoonup> cstr \<rightharpoonup> cstr"

text \<open>The configuration in memory; only strings are stored.\<close>

definition map_uci :: "(conf, conf, cstr \<rightharpoonup> cstr) uci_lib" where
  "map_uci = \<lparr>uci_load = (\<lambda>u _. Some u), uci_lookup_section = (\<lambda>p sec. p sec),
     uci_lookup_option_string = (\<lambda>s n. case s n of Some v \<Rightarrow> if 0 \<in> set v then None else Some v | None \<Rightarrow> None),
     uci_set = (\<lambda>p sec n v. if 0 \<in> set v then (1, p)
        else (0, p(sec \<mapsto> (case p sec of None \<Rightarrow> [n \<mapsto> v] | Some s \<Rightarrow> s(n \<mapsto> v))))),
     uci_commit = (\<lambda>u p. (0, p))\<rparr>"

lemma map_uci_laws: "uci_strings map_uci" "uci_stores map_uci"
  by (auto simp: uci_strings_def uci_stores_def map_uci_def split: option.splits if_splits)

definition r528_board :: np_board where
  "r528_board = \<lparr>CPU_NUM_MAX = 2, CPU0LOCK = bytes_of ''/dev/null'', ROOMAGE = bytes_of ''/dev/null'',
     CPUFREQ_AVAIL = bytes_of ''/sys/devices/system/cpu/cpufreq/policy0/scaling_available_frequencies'',
     CPUFREQ = bytes_of ''/sys/devices/system/cpu/cpufreq/policy0/cpuinfo_cur_freq'',
     CPUFREQ_MAX = bytes_of ''/sys/devices/system/cpu/cpufreq/policy0/scaling_max_freq'',
     CPUFREQ_MIN = bytes_of ''/sys/devices/system/cpu/cpufreq/policy0/scaling_min_freq'',
     CPUONLINE = bytes_of ''/sys/devices/system/cpu/online'', CPUHOT = bytes_of ''/dev/null'',
     CPU0GOV = bytes_of ''/sys/devices/system/cpu/cpufreq/policy0/scaling_governor'',
     DRAMFREQ_AVAIL = bytes_of ''/dev/null'', DRAMFREQ = bytes_of ''/dev/null'',
     DRAMFREQ_MAX = bytes_of ''/dev/null'', DRAMFREQ_MIN = bytes_of ''/dev/null'',
     DRAMMODE = bytes_of ''/dev/null''\<rparr>"

definition two_freqs :: "cstr list" where
  "two_freqs = [bytes_of ''480000'', bytes_of ''1008000'']"

definition table_files :: np_files where
  "table_files = \<lparr>file_read = (\<lambda>_. Some (freq_table two_freqs)), file_write = (\<lambda>_. True)\<rparr>"


text \<open>Wake locks in a list that shows well-formed names once each.\<close>

definition list_locks :: "cstr list wake_dev" where
  "list_locks = \<lparr>lock_opens = True, unlock_opens = True, lock_write = (\<lambda>k i. (True, i # k)),
     unlock_write = (\<lambda>k i. (True, removeAll i k)),
     lock_read = (\<lambda>k. Some (freq_table (remdups (filter lock_name k))))\<rparr>"

lemma list_locks_laws: "wake_kernel list_locks (\<lambda>k. remdups (filter lock_name k))"
  by (auto simp: wake_kernel_def list_locks_def list_all_iff removeAll_filter_not_eq
      intro!: arg_cong [where f = remdups] filter_cong)

definition some_env :: "(conf, conf, cstr \<rightharpoonup> cstr, cstr list) np_env" where
  "some_env = \<lparr>uci_of = map_uci, board_of = r528_board, files_of = table_files, wake_of = list_locks,
     tina_build = True, forks = True, stack = replicate 1024 255\<rparr>"

section \<open>Scenes\<close>






text \<open>A scene that is not configured is refused, and nothing changes.\<close>

lemma scene_unknown:
  assumes "uci_load lib u NATIVE_POWER_CONFIG_PATH = None \<or>
    (\<exists>p. uci_load lib u NATIVE_POWER_CONFIG_PATH = Some p \<and> uci_lookup_section lib p name = None)"
  shows "np_scene_change lib bd fs u w name = Some (-1, u, w)"
  using get_scene_config_missing [OF assms] by (auto simp: np_scene_change_def)

text \<open>
  A range of processors whose end the board does not have makes \<open>SetCpuOnline\<close> write behind its
  array, whatever the rest of the field.
\<close>

theorem online_range_overruns:
  assumes "a < CPU_NUM_MAX bd" "CPU_NUM_MAX bd \<le> b" "b < 10"
  shows "SetCpuOnline bd fs w (field_bytes 16 [48 + of_nat a, 45, 48 + of_nat b]) = None"
proof -
  let ?v = "[48 + of_nat a, 45, 48 + of_nat b] :: cstr"
  have wf: "item_wf (Suc b) (Span a b)" "Suc b \<le> 10"
    using assms by simp_all
  have no0: "0 \<notin> set ?v" and not_all: "?v \<noteq> bytes_of ''all''"
    using items_text_no_NUL [of "Suc b" "[Span a b]"] items_text_not_all [of "Suc b" "[Span a b]"] wf by simp_all
  have b: "field_bytes 16 ?v = ?v @ replicate 13 0"
    by (simp add: field_bytes_def)
  have str: "c_str (field_bytes 16 ?v) = Some ?v" "slice (field_bytes 16 ?v) 0 16 = Some (field_bytes 16 ?v)"
    using c_str_field [OF no0, of 16] by (simp_all add: slice_def field_bytes_def)
  have toks: "tokens cpu_sep 0 ?v = [(0, [48 + of_nat a]), (2, [48 + of_nat b])]"
    using tokens_item(2) [OF wf, of 0] by simp
  have "int (unat (48 + of_nat b :: byte)) - 48 = int b"
    using unat_digit [OF assms(3)] by simp
  then have "online_tokens (field_bytes 16 ?v) [(0, [48 + of_nat a]), (2, [48 + of_nat b])]
      (replicate (CPU_NUM_MAX bd) False) = None"
    using assms atol_digit [of a] set_range_with [of a "replicate (CPU_NUM_MAX bd) False" a]
    by (simp add: b rd_def set_range_def Let_def)
  then show ?thesis
    using str toks not_all by (simp add: SetCpuOnline_def)
qed

theorem online_range_overruns_witness:
  "SetCpuOnline r528_board table_files [] (field_bytes 16 (bytes_of ''0-3'')) = None"
  using online_range_overruns [of 0 r528_board 3 table_files "[]"] by (simp add: r528_board_def bytes_of_def)

section \<open>Suspending\<close>

text \<open>
  C23: While one call at a time asks for the suspended state and waits for its end, every call comes back:
  from every state that is reached this way at most 32 further steps are possible without a new call,
  and as long as a call has not returned, there is one.
\<close>

theorem suspend_comes_back:
  assumes "solo_run as (tina_init func) s"
  shows "(\<exists>as' s'. trun as' s s' \<and> list_all proper as' \<and> set (callers s') \<subseteq> {C_done}) \<and>
    (\<forall>as' s'. trun as' s s' \<and> list_all proper as' \<longrightarrow>
       length as' \<le> 32 \<and> (set (callers s') \<subseteq> {C_done} \<or> (\<exists>a s''. proper a \<and> tstep a s' s'')))"
proof (intro conjI allI impI)
  have s: "solo s"
    using solo_run_solo [OF assms solo_init] .
  have going: "set (callers s') \<subseteq> {C_done} \<or> (\<exists>a s''. proper a \<and> tstep a s' s'')" if "solo s'" for s'
    using solo_not_stuck [OF that] by (auto simp: stuck_def)
  show "\<exists>as' s'. trun as' s s' \<and> list_all proper as' \<and> set (callers s') \<subseteq> {C_done}"
    using suspend.comes_to_rest [OF s] going by blast
  fix as' s' assume run: "trun as' s s' \<and> list_all proper as'"
  then have "length as' + rank s' \<le> rank s" "solo s'"
    using suspend.bounded [OF _ s] by blast+
  then show "length as' \<le> 32" "set (callers s') \<subseteq> {C_done} \<or> (\<exists>a s''. proper a \<and> tstep a s' s'')"
    using rank_bound [OF s] going by simp_all
qed

text \<open>A call that has just asked, with the suspend thread waiting.\<close>

lemma asked:
  "solo_run [Thread_check, Call, Set_state 0] (tina_init True)
    ((tina_init True)\<lparr>tinasuspend_state := EARLYSUSPEND_MEM, callers := [C_wait], tina_pc := T_woken\<rparr>)"
proof -
  let ?s1 = "(tina_init True)\<lparr>tina_pc := T_waiting\<rparr>" and ?s2 = "(tina_init True)\<lparr>tina_pc := T_waiting, callers := [C_set]\<rparr>"
  have "tstep Thread_check (tina_init True) ?s1"
    using ts_check [of "tina_init True"] by (simp add: tina_init_def thread_check_def)
  then have 1: "solo_run [Thread_check] (tina_init True) ?s1"
    using solo_snoc [OF solo_nil, of Thread_check "tina_init True" ?s1] by simp
  have "tstep Call ?s1 ?s2"
    using ts_call [of ?s1] by (simp add: tina_init_def)
  then have 2: "solo_run [Thread_check, Call] (tina_init True) ?s2"
    using solo_snoc [OF 1, of Call ?s2] by (simp add: tina_init_def)
  let ?s3 = "?s2\<lparr>tinasuspend_state := EARLYSUSPEND_MEM, callers := [C_wait]\<rparr>"
  have "tstep (Set_state 0) ?s2 (?s3\<lparr>tina_pc := T_woken\<rparr>)"
    using sig_thread [of ?s3] by (intro ts_set) (simp_all add: caller_at_def)
  then show ?thesis
    using solo_snoc [OF 2, of "Set_state 0"] by simp
qed

theorem suspend_comes_back_witness:
  "\<exists>as' s'. trun as' ((tina_init True)\<lparr>tinasuspend_state := EARLYSUSPEND_MEM, callers := [C_wait], tina_pc := T_woken\<rparr>) s' \<and>
    list_all proper as' \<and> set (callers s') \<subseteq> {C_done}"
  using suspend_comes_back [OF asked] by blast

text \<open>The part of a state that matters for who can go on.\<close>

definition comes_at :: "bool \<Rightarrow> tina_act list \<Rightarrow> tina_state \<Rightarrow> tina_pc \<Rightarrow> caller_pc list \<Rightarrow> bool" where
  "comes_at func as st pc cs \<longleftrightarrow>
     (\<exists>s. trun as (tina_init func) s \<and> tinasuspend_state s = st \<and> tina_pc s = pc \<and> callers s = cs)"

lemma comes_start: "comes_at func [] EARLYSUSPEND_ON T_lock []"
  using steps_nil [of tstep "tina_init func"] by (auto simp: comes_at_def tina_init_def)

lemma comes_step:
  assumes "comes_at func as st pc cs"
    and "\<And>s. tinasuspend_state s = st \<Longrightarrow> tina_pc s = pc \<Longrightarrow> callers s = cs \<Longrightarrow>
      \<exists>s'. tstep a s s' \<and> tinasuspend_state s' = st' \<and> tina_pc s' = pc' \<and> callers s' = cs'"
  shows "comes_at func (as @ [a]) st' pc' cs'"
proof -
  obtain s where s: "trun as (tina_init func) s" "tinasuspend_state s = st" "tina_pc s = pc" "callers s = cs"
    using assms(1) by (auto simp: comes_at_def)
  then obtain s' where "tstep a s s'" "tinasuspend_state s' = st'" "tina_pc s' = pc'" "callers s' = cs'"
    using assms(2) by blast
  then show ?thesis
    using steps_snoc [OF s(1)] by (auto simp: comes_at_def)
qed

lemma comes_check:
  "comes_at func as st pc cs \<Longrightarrow> pc = T_lock \<or> pc = T_woken \<Longrightarrow>
   comes_at func (as @ [Thread_check]) st (if st = EARLYSUSPEND_ON then T_waiting else T_mem) cs"
  by (erule comes_step) (use ts_check in \<open>fastforce simp: thread_check_def\<close>)

lemma comes_thread:
  "comes_at func as st T_mem cs \<Longrightarrow> comes_at func (as @ [Thread_mem True]) st T_slept cs"
  "comes_at func as st T_on cs \<Longrightarrow> comes_at func (as @ [Thread_on]) st T_callback cs"
  "comes_at func as st T_callback cs \<Longrightarrow> comes_at func (as @ [Thread_callback]) st T_lock cs"
  by (erule comes_step, use ts_mem ts_on ts_callback in fastforce)+

lemma comes_resume:
  assumes "comes_at func as st T_slept cs" "i < length cs" "cs ! i = C_blocked"
  shows "comes_at func (as @ [Thread_resume]) EARLYSUSPEND_ON T_on (cs[i := C_woken])"
proof (rule comes_step [OF assms(1)])
  fix s :: tina assume s: "tinasuspend_state s = st" "tina_pc s = T_slept" "callers s = cs"
  let ?s = "s\<lparr>tinasuspend_state := EARLYSUSPEND_ON, tina_pc := T_on\<rparr>"
  have "tstep Thread_resume s (?s\<lparr>callers := cs[i := C_woken]\<rparr>)"
    using sig_caller [of ?s i] s assms(2,3) by (intro ts_resume) (simp_all add: caller_at_def)
  then show "\<exists>s'. tstep Thread_resume s s' \<and> tinasuspend_state s' = EARLYSUSPEND_ON \<and> tina_pc s' = T_on \<and> callers s' = cs[i := C_woken]"
    by force
qed

lemma comes_call: "comes_at func as st pc cs \<Longrightarrow> comes_at func (as @ [Call]) st pc (cs @ [C_set])"
  by (erule comes_step) (use ts_call in fastforce)

lemma comes_set:
  assumes "comes_at func as st pc cs" "i < length cs" "cs ! i = C_set" "C_blocked \<notin> set (cs[i := C_wait])"
  shows "comes_at func (as @ [Set_state i]) EARLYSUSPEND_MEM (if pc = T_waiting then T_woken else pc) (cs[i := C_wait])"
proof (rule comes_step [OF assms(1)])
  fix s :: tina assume s: "tinasuspend_state s = st" "tina_pc s = pc" "callers s = cs"
  let ?s = "s\<lparr>tinasuspend_state := EARLYSUSPEND_MEM, callers := cs[i := C_wait]\<rparr>"
  have "signal ?s (if pc = T_waiting then ?s\<lparr>tina_pc := T_woken\<rparr> else ?s)"
    using sig_thread [of ?s] sig_none [of ?s] s assms(4) by simp
  then have "tstep (Set_state i) s (if pc = T_waiting then ?s\<lparr>tina_pc := T_woken\<rparr> else ?s)"
    using s assms(2,3) by (intro ts_set) (simp_all add: caller_at_def)
  then show "\<exists>s'. tstep (Set_state i) s s' \<and> tinasuspend_state s' = EARLYSUSPEND_MEM \<and>
      tina_pc s' = (if pc = T_waiting then T_woken else pc) \<and> callers s' = cs[i := C_wait]"
    using s by (cases "pc = T_waiting") force+
qed

lemma comes_wait:
  assumes "comes_at func as st pc cs" "i < length cs" "cs ! i = C_wait \<or> cs ! i = C_woken"
  shows "comes_at func (as @ [Wait_resume i]) st pc (cs[i := (if st = EARLYSUSPEND_MEM then C_blocked else C_done)])"
  using assms(1)
proof (rule comes_step)
  fix s :: tina assume "tinasuspend_state s = st" "tina_pc s = pc" "callers s = cs"
  then show "\<exists>s'. tstep (Wait_resume i) s s' \<and> tinasuspend_state s' = st \<and> tina_pc s' = pc \<and>
      callers s' = cs[i := (if st = EARLYSUSPEND_MEM then C_blocked else C_done)]"
    using ts_wait [of s i] assms(2,3) by (intro exI [of _ "caller_check i s"]) (auto simp: caller_at_def caller_check_def)
qed

text \<open>
  C24: When two calls overlap, one can wait for ever: the suspend thread signals its condition once at
  the end, which wakes one of them; the other one stays blocked although the system is awake again, until
  somebody asks for the suspended state once more.
\<close>

theorem overlapping_call_hangs:
  "\<exists>as s. trun as (tina_init func) s \<and> list_all (\<lambda>a. proper a \<or> a = Call) as \<and> count_list as Call = 2 \<and>
     stuck s \<and> tinasuspend_state s = EARLYSUSPEND_ON"
proof -
  have "comes_at func [Thread_check, Call, Call] EARLYSUSPEND_ON T_waiting [C_set, C_set]"
    using comes_call [OF comes_call [OF comes_check [OF comes_start, of func]]] by simp
  then have "comes_at func [Thread_check, Call, Call, Set_state 0, Set_state 1] EARLYSUSPEND_MEM T_woken [C_wait, C_wait]"
    using comes_set [OF comes_set [of func _ _ _ "[C_set, C_set]" 0], where i = 1] by fastforce
  then have "comes_at func [Thread_check, Call, Call, Set_state 0, Set_state 1, Wait_resume 0, Wait_resume 1]
      EARLYSUSPEND_MEM T_woken [C_blocked, C_blocked]"
    using comes_wait [OF comes_wait [of func _ _ _ "[C_wait, C_wait]" 0], where i = 1] by fastforce
  then have "comes_at func [Thread_check, Call, Call, Set_state 0, Set_state 1, Wait_resume 0, Wait_resume 1,
      Thread_check, Thread_mem True] EARLYSUSPEND_MEM T_slept [C_blocked, C_blocked]"
    using comes_thread(1) [of func _ EARLYSUSPEND_MEM] comes_check [of func _ EARLYSUSPEND_MEM] by fastforce
  then have "comes_at func [Thread_check, Call, Call, Set_state 0, Set_state 1, Wait_resume 0, Wait_resume 1,
      Thread_check, Thread_mem True, Thread_resume, Thread_on, Thread_callback] EARLYSUSPEND_ON T_lock [C_woken, C_blocked]"
    using comes_thread(3) [OF comes_thread(2) [OF comes_resume [of func _ _ "[C_blocked, C_blocked]" 0]]] by fastforce
  then have "comes_at func [Thread_check, Call, Call, Set_state 0, Set_state 1, Wait_resume 0, Wait_resume 1,
      Thread_check, Thread_mem True, Thread_resume, Thread_on, Thread_callback, Thread_check, Wait_resume 0]
      EARLYSUSPEND_ON T_waiting [C_done, C_blocked]"
    using comes_wait [OF comes_check [of func _ EARLYSUSPEND_ON T_lock "[C_woken, C_blocked]"], where i = 0] by fastforce
  then obtain s where "trun [Thread_check, Call, Call, Set_state 0, Set_state 1, Wait_resume 0, Wait_resume 1,
      Thread_check, Thread_mem True, Thread_resume, Thread_on, Thread_callback, Thread_check, Wait_resume 0] (tina_init func) s"
    "tinasuspend_state s = EARLYSUSPEND_ON" "tina_pc s = T_waiting" "callers s = [C_done, C_blocked]"
    by (auto simp: comes_at_def)
  then show ?thesis
    by (intro exI conjI) (assumption, simp_all add: stuck_iff)
qed

section \<open>The daemon\<close>

text \<open>
  C25: An idle daemon puts the system to sleep: turns of its loop before the timeout has passed since the
  last activity change nothing; the first one behind it, if no wake lock but its own is held, releases
  that one and suspends; with more locks held it only restarts its clock, and it leaves the locks alone.
\<close>

theorem idle_daemon_sleeps:
  assumes wake: "wake_kernel (wake_of e) held" "locks_fit held s"
    and time: "awake_timeout e s T" "0 < mLastUserActivityTime s"
    and early: "\<forall>t \<in> set ts. mLastUserActivityTime s \<le> t \<and> t < mLastUserActivityTime s + T"
    and late: "mLastUserActivityTime s + T \<le> t"
  shows "main_loop e ts s = Some s \<and>
    (if card (held_by held s) \<le> 1
     then \<exists>k. set (held k) = held_by held s - {NATIVE_POWER_DISPLAY_LOCK} \<and>
       main_loop e (ts @ [t]) s = Some (s\<lparr>mLastUserActivityTime := 0, has_sleep := True, wake_state := k,
         effects := effects s @ (if tina_build e then [Suspend] else [])\<rparr>)
     else main_loop e (ts @ [t]) s = Some (s\<lparr>mLastUserActivityTime := 0\<rparr>))"
proof -
  let ?s = "s\<lparr>mLastUserActivityTime := 0\<rparr>"
  have ts: "main_loop e ts s = Some s"
    by (rule main_loop_early [OF time early])
  have turn: "main_loop e (ts @ [t]) s = map_option snd (goToSleep e ?s)"
    using ts valid_late [OF time late] by (cases "goToSleep e ?s") (simp_all add: main_loop_append main_turn_def)
  have fit: "locks_fit held ?s"
    using wake(2) by (simp add: locks_fit_def)
  show ?thesis
  proof (cases "card (held_by held s) \<le> 1")
    case True
    then obtain k where "goToSleep e ?s = Some (0, ?s\<lparr>has_sleep := True, wake_state := k,
        effects := effects ?s @ (if tina_build e then [Suspend] else [])\<rparr>)"
      "set (held k) = held_by held ?s - {NATIVE_POWER_DISPLAY_LOCK}"
      using goToSleep_free [OF wake(1) fit] by auto
    then show ?thesis
      using True ts turn by auto
  next
    case False
    then show ?thesis
      using goToSleep_locked [OF wake(1) fit] ts turn by simp
  qed
qed

text \<open>A daemon that holds its own lock, last used at time 100, with a timeout of 30 seconds.\<close>

definition idle_npd :: "(conf, cstr list) npd" where
  "idle_npd = \<lparr>mLastUserActivityTime = 100, mKeepAwakeTime = 30, has_sleep = False, uci_state = Map.empty,
     wake_state = [NATIVE_POWER_DISPLAY_LOCK], controls = [], effects = []\<rparr>"

abbreviation listed :: "cstr list \<Rightarrow> cstr list" where
  "listed k \<equiv> remdups (filter lock_name k)"

lemma idle_timeout: "awake_timeout some_env idle_npd 30"
proof -
  have "configured_timeout some_env Map.empty = Some 0"
    by (simp add: configured_timeout_def np_scene_property_get_def np_get_property_def np_uci_open_def
        np_uci_read_config_def some_env_def map_uci_def c_str_def atoll_def)
  then show ?thesis
    by (simp add: awake_timeout_def idle_npd_def AWAKE_TIMEOUT_LIMIT_def)
qed

theorem idle_daemon_sleeps_witness:
  "\<exists>k. set (listed k) = {} \<and>
    main_loop some_env [101, 129, 130] idle_npd = Some (idle_npd\<lparr>mLastUserActivityTime := 0, has_sleep := True,
      wake_state := k, effects := [Suspend]\<rparr>)"
proof -
  have wake: "wake_kernel (wake_of some_env) listed"
    using list_locks_laws by (simp add: some_env_def)
  have locks: "listed (wake_state idle_npd) = [NATIVE_POWER_DISPLAY_LOCK]"
    using display_lock_name by (simp add: idle_npd_def)
  have fit: "locks_fit listed idle_npd"
    unfolding locks_fit_def locks by (simp add: freq_table_def NATIVE_POWER_DISPLAY_LOCK_def bytes_of_def)
  show ?thesis
    using idle_daemon_sleeps [OF wake fit idle_timeout, of "[101, 129]" 130] unfolding locks
    by (simp add: idle_npd_def some_env_def)
qed

text \<open>
  A request of the client library for an idle timeout of at least ten seconds reaches the daemon
  through the bus, takes effect, and is stored where the daemon reads it on every turn; one from five to
  nine seconds passes the client's check and is refused by the daemon.
\<close>

theorem awake_timeout_request:
  assumes lib: "uci_stores (uci_of e)"
    and store: "uci_load (uci_of e) (uci_state s) NATIVE_POWER_CONFIG_PATH = Some p"
      "uci_set (uci_of e) p PROP_SECTION awake_timeout_option (dec_of_int n) = (0, p')"
      "uci_commit (uci_of e) (uci_state s) p' = (0, u')"
    and n: "10 \<le> n" "n < 2 ^ 31" and m: "5 \<le> m" "m < 10"
  shows "PowerManagerSetAwakeTimeout bus_up (filter_func e True now) n s =
      Some (0, s\<lparr>mKeepAwakeTime := n, uci_state := u'\<rparr>) \<and>
    awake_timeout e (s\<lparr>mKeepAwakeTime := n, uci_state := u'\<rparr>) n \<and>
    PowerManagerSetAwakeTimeout bus_up (filter_func e True now) m s = Some (-1, s)"
proof (intro conjI)
  have "np_scene_property_set (uci_of e) (uci_state s) awake_timeout_option (dec_of_int n) = (0, u')"
    using store by (simp add: np_scene_property_set_def np_set_property_def np_uci_open_def np_uci_write_config_def)
  then have "np_dispatch e now (func_num NATIVEPOWER_DEAMON_SET_AWAKE_TIMEOUT) [Str (dec_of_int n)] s =
      Some (Some (0, s\<lparr>mKeepAwakeTime := n, uci_state := u'\<rparr>))"
    using n by (simp add: np_dispatch_def set_awake_timeout_def AWAKE_TIMEOUT_LIMIT_def atol_dec_of_int)
  then show "PowerManagerSetAwakeTimeout bus_up (filter_func e True now) n s =
      Some (0, s\<lparr>mKeepAwakeTime := n, uci_state := u'\<rparr>)"
    using n invoke_dispatch [of e now NATIVEPOWER_DEAMON_SET_AWAKE_TIMEOUT "Some (dec_of_int n)"]
    by (simp add: PowerManagerSetAwakeTimeout_def)
  have "np_dispatch e now (func_num NATIVEPOWER_DEAMON_SET_AWAKE_TIMEOUT) [Str (dec_of_int m)] s = Some (Some (-1, s))"
    using m by (simp add: np_dispatch_def set_awake_timeout_refused atol_dec_of_int)
  then show "PowerManagerSetAwakeTimeout bus_up (filter_func e True now) m s = Some (-1, s)"
    using m invoke_dispatch [of e now NATIVEPOWER_DEAMON_SET_AWAKE_TIMEOUT "Some (dec_of_int m)"]
    by (simp add: PowerManagerSetAwakeTimeout_def)
  show "awake_timeout e (s\<lparr>mKeepAwakeTime := n, uci_state := u'\<rparr>) n"
    using stored_timeout [OF lib store] n by (simp add: awake_timeout_def)
qed

theorem awake_timeout_request_witness:
  "\<exists>u'. PowerManagerSetAwakeTimeout bus_up (filter_func some_env True 100) 60 idle_npd =
      Some (0, idle_npd\<lparr>mKeepAwakeTime := 60, uci_state := u'\<rparr>) \<and>
    awake_timeout some_env (idle_npd\<lparr>mKeepAwakeTime := 60, uci_state := u'\<rparr>) 60"
proof -
  have no0: "0 \<notin> set (dec_of_int 60)"
    using dec_of_nat_digits [of 0 60] by (auto simp: dec_of_int_def is_digit_def)
  have lib: "uci_of some_env = map_uci"
    by (simp add: some_env_def)
  have load: "uci_load (uci_of some_env) (uci_state idle_npd) NATIVE_POWER_CONFIG_PATH = Some (uci_state idle_npd)"
    by (simp add: lib map_uci_def)
  obtain p' where p': "uci_set (uci_of some_env) (uci_state idle_npd) PROP_SECTION awake_timeout_option (dec_of_int 60) = (0, p')"
    using no0 by (simp add: lib map_uci_def)
  have commit: "uci_commit (uci_of some_env) (uci_state idle_npd) p' = (0, p')"
    by (simp add: lib map_uci_def)
  show ?thesis
    using awake_timeout_request [OF _ load p' commit, of 5] map_uci_laws(2) by (auto simp: lib)
qed

end
