(* ===== verification/Rw_Crc.thy ===== *)
theory Rw_Crc
  imports Crc_Reflected
begin

text \<open>
  The checksum of \<open>rwcheck\<close>, \<open>crc16.c\<close>: the constant table and the bytewise loop. The table is that of
  the polynomial 0x8408 in reflected form; data with its complemented checksum behind it has a constant
  remainder, which is what \<open>check_crc16\<close> looks for.
\<close>

unbundle bit_operations_syntax

definition CRC_INIT :: u16 where "CRC_INIT = 0xffff"
definition GOOD_CRC :: u16 where "GOOD_CRC = 0xf0b8"

definition crc16_table :: "u16 list" where
  "crc16_table =
    [0x0000, 0x1189, 0x2312, 0x329b, 0x4624, 0x57ad, 0x6536, 0x74bf,
     0x8c48, 0x9dc1, 0xaf5a, 0xbed3, 0xca6c, 0xdbe5, 0xe97e, 0xf8f7,
     0x1081, 0x0108, 0x3393, 0x221a, 0x56a5, 0x472c, 0x75b7, 0x643e,
     0x9cc9, 0x8d40, 0xbfdb, 0xae52, 0xdaed, 0xcb64, 0xf9ff, 0xe876,
     0x2102, 0x308b, 0x0210, 0x1399, 0x6726, 0x76af, 0x4434, 0x55bd,
     0xad4a, 0xbcc3, 0x8e58, 0x9fd1, 0xeb6e, 0xfae7, 0xc87c, 0xd9f5,
     0x3183, 0x200a, 0x1291, 0x0318, 0x77a7, 0x662e, 0x54b5, 0x453c,
     0xbdcb, 0xac42, 0x9ed9, 0x8f50, 0xfbef, 0xea66, 0xd8fd, 0xc974,
     0x4204, 0x538d, 0x6116, 0x709f, 0x0420, 0x15a9, 0x2732, 0x36bb,
     0xce4c, 0xdfc5, 0xed5e, 0xfcd7, 0x8868, 0x99e1, 0xab7a, 0xbaf3,
     0x5285, 0x430c, 0x7197, 0x601e, 0x14a1, 0x0528, 0x37b3, 0x263a,
     0xdecd, 0xcf44, 0xfddf, 0xec56, 0x98e9, 0x8960, 0xbbfb, 0xaa72,
     0x6306, 0x728f, 0x4014, 0x519d, 0x2522, 0x34ab, 0x0630, 0x17b9,
     0xef4e, 0xfec7, 0xcc5c, 0xddd5, 0xa96a, 0xb8e3, 0x8a78, 0x9bf1,
     0x7387, 0x620e, 0x5095, 0x411c, 0x35a3, 0x242a, 0x16b1, 0x0738,
     0xffcf, 0xee46, 0xdcdd, 0xcd54, 0xb9eb, 0xa862, 0x9af9, 0x8b70,
     0x8408, 0x9581, 0xa71a, 0xb693, 0xc22c, 0xd3a5, 0xe13e, 0xf0b7,
     0x0840, 0x19c9, 0x2b52, 0x3adb, 0x4e64, 0x5fed, 0x6d76, 0x7cff,
     0x9489, 0x8500, 0xb79b, 0xa612, 0xd2ad, 0xc324, 0xf1bf, 0xe036,
     0x18c1, 0x0948, 0x3bd3, 0x2a5a, 0x5ee5, 0x4f6c, 0x7df7, 0x6c7e,
     0xa50a, 0xb483, 0x8618, 0x9791, 0xe32e, 0xf2a7, 0xc03c, 0xd1b5,
     0x2942, 0x38cb, 0x0a50, 0x1bd9, 0x6f66, 0x7eef, 0x4c74, 0x5dfd,
     0xb58b, 0xa402, 0x9699, 0x8710, 0xf3af, 0xe226, 0xd0bd, 0xc134,
     0x39c3, 0x284a, 0x1ad1, 0x0b58, 0x7fe7, 0x6e6e, 0x5cf5, 0x4d7c,
     0xc60c, 0xd785, 0xe51e, 0xf497, 0x8028, 0x91a1, 0xa33a, 0xb2b3,
     0x4a44, 0x5bcd, 0x6956, 0x78df, 0x0c60, 0x1de9, 0x2f72, 0x3efb,
     0xd68d, 0xc704, 0xf59f, 0xe416, 0x90a9, 0x8120, 0xb3bb, 0xa232,
     0x5ac5, 0x4b4c, 0x79d7, 0x685e, 0x1ce1, 0x0d68, 0x3ff3, 0x2e7a,
     0xe70e, 0xf687, 0xc41c, 0xd595, 0xa12a, 0xb0a3, 0x8238, 0x93b1,
     0x6b46, 0x7acf, 0x4854, 0x59dd, 0x2d62, 0x3ceb, 0x0e70, 0x1ff9,
     0xf78f, 0xe606, 0xd49d, 0xc514, 0xb1ab, 0xa022, 0x92b9, 0x8330,
     0x7bc7, 0x6a4e, 0x58d5, 0x495c, 0x3de3, 0x2c6a, 0x1ef1, 0x0f78]"

fun crc16_common :: "u16 \<Rightarrow> byte list \<Rightarrow> u16" where
  "crc16_common oldcrc [] = oldcrc"
| "crc16_common oldcrc (b # buf) =
     crc16_common (drop_bit 8 oldcrc XOR crc16_table ! unat ((oldcrc XOR ucast b) AND 0xff)) buf"

definition crc16_start :: u16 where "crc16_start = CRC_INIT"

definition crc16_continue :: "u16 \<Rightarrow> byte list \<Rightarrow> u16" where
  "crc16_continue oldcrc buf = crc16_common oldcrc buf"

definition crc16_end :: "u16 \<Rightarrow> u16" where "crc16_end oldcrc = NOT oldcrc"

definition check_crc16 :: "u16 \<Rightarrow> bool" where
  "check_crc16 crc \<longleftrightarrow> NOT crc AND CRC_INIT = GOOD_CRC"

definition get_crc16_by_buf :: "byte list \<Rightarrow> u16" where
  "get_crc16_by_buf buf = NOT (crc16_common CRC_INIT buf)"

section \<open>The table\<close>

interpretation crc16_poly: reflected_crc "0x8408 :: u16"
  by unfold_locales (simp_all add: bit_numeral_word_iff)

lemma crc16_table_ref: "crc16_table = rc_table 0x8408"
  by (simp add: rc_table_def upt_256 upt_rec_numeral)
    (simp add: crc16_table_def rc_bits_8 rc_bit_def)

lemma and_255_16: "x AND 255 = take_bit 8 x" for x :: u16
  by (rule bit_word_eqI) (auto simp: bit_simps bit_numeral_word_iff mask_eq_exp_minus_1 take_bit_eq_mask)

lemma crc16_ref: "crc16_common c bs = rc_ref 0x8408 c bs"
proof (induction bs arbitrary: c)
  case (Cons b bs)
  have "drop_bit 8 c XOR crc16_table ! unat ((c XOR ucast b) AND 255) = rc_step (rc_table 0x8408) c b"
    by (simp add: rc_step_def crc16_table_ref and_255_16 xor.commute)
  then show ?case
    using Cons crc16_poly.step_ref [of c b] by simp
qed simp

lemma crc16_append: "crc16_common c (xs @ ys) = crc16_common (crc16_common c xs) ys"
  by (simp add: crc16_ref rc_ref_append)

section \<open>The remainder\<close>

lemma le_word_le16: "le_word (le16 w) = w"
  by (rule bit_word_eqI) (auto simp: le16_def bit_simps)

lemma ones_16: "(0xffff :: u16) = -1"
  by simp

lemma crc16_residue: "crc16_common c (le16 (NOT c)) = GOOD_CRC"
proof -
  have "c XOR NOT c = 0xffff"
    by (simp add: ones_16)
  then have "crc16_common c (le16 (NOT c)) = (rc_bit 0x8408 ^^ 16) 0xffff"
    using crc16_poly.ref_word [of "le16 (NOT c)" c] by (simp add: crc16_ref le_word_le16)
  also have "\<dots> = (rc_bit 0x8408 ^^ 8) ((rc_bit 0x8408 ^^ 8) 0xffff)"
    using funpow_add [of 8 8 "rc_bit (0x8408 :: u16)"] by simp
  also have "\<dots> = GOOD_CRC"
    by (simp add: rc_bits_8 rc_bit_def GOOD_CRC_def)
  finally show ?thesis .
qed

lemma check_crc16_iff: "check_crc16 (crc16_end c) \<longleftrightarrow> c = GOOD_CRC"
proof -
  have "NOT (NOT c) AND CRC_INIT = c"
    unfolding CRC_INIT_def ones_16 by simp
  then show ?thesis
    by (simp add: check_crc16_def crc16_end_def)
qed

text \<open>Data with its checksum behind it passes.\<close>

lemma check_appended: "check_crc16 (crc16_end (crc16_common CRC_INIT (bs @ le16 (crc16_end (crc16_common CRC_INIT bs)))))"
  unfolding check_crc16_iff crc16_append by (simp add: crc16_end_def crc16_residue)

text \<open>What passes does not any more after a change within two consecutive bytes.\<close>

lemma crc16_burst:
  assumes "length x = length y" "length x \<le> 2" "x \<noteq> y"
    and "check_crc16 (crc16_end (crc16_common CRC_INIT (pre @ x @ post)))"
  shows "\<not> check_crc16 (crc16_end (crc16_common CRC_INIT (pre @ y @ post)))"
  using crc16_poly.burst [of x y CRC_INIT pre post] assms by (auto simp: check_crc16_iff crc16_ref)

end
