(* ===== verification/Rw_Check.thy ===== *)
theory Rw_Check
  imports Rw_Crc
begin

text \<open>
  The flash test \<open>rwcheck\<close>: the file operations of \<open>fops.c\<close> and \<open>crc16.c\<close>, the sizes of \<open>size_unit.c\<close>, the
  system information of \<open>sys_info.c\<close>, and the test itself, \<open>rwcheck.c\<close>. The file system is a map from
  paths to contents; what it has room for, and what \<open>statfs\<close> says of it, is a parameter. Output is left
  out. \<open>None\<close> is an endless loop or undefined behaviour.
\<close>

unbundle bit_operations_syntax

type_synonym u64 = "64 word"
type_synonym tree = "cstr \<rightharpoonup> byte list"

section \<open>The system\<close>

text \<open>
  \<open>free_flash\<close> is what \<open>statfs\<close> reports as available; \<open>room\<close> whether a file of a size can be extended and
  written, \<open>torn\<close> what is left of it otherwise; \<open>cancelled\<close> the files after threads that were creating
  the given ones have been cancelled; \<open>random_data\<close> what \<open>/dev/urandom\<close> gives for a new origin file;
  \<open>removable\<close> whether a file can be removed. Directories (by their absolute paths), their file system's
  magic number and size, and the text of \<open>/proc/meminfo\<close> are those of the system at the start.
\<close>

record rw_os =
  free_flash :: "tree \<Rightarrow> u64"
  room :: "tree \<Rightarrow> cstr \<Rightarrow> nat \<Rightarrow> bool"
  torn :: "tree \<Rightarrow> cstr \<Rightarrow> nat \<Rightarrow> byte list option"
  cancelled :: "tree \<Rightarrow> cstr list \<Rightarrow> tree"
  random_data :: "tree \<Rightarrow> byte list"
  removable :: "tree \<Rightarrow> cstr \<Rightarrow> bool"
  dirs :: "cstr \<Rightarrow> cstr option"
  fs_magic :: "cstr \<Rightarrow> u64"
  flash_size :: "cstr \<Rightarrow> u64"
  meminfo :: "cstr option"

section \<open>crc16.c: files\<close>

definition CRC16_MAX_BYTES :: u64 where "CRC16_MAX_BYTES = -1"

text \<open>The loop that reads in pieces of 4 KB: \<open>None\<close> is the failure of a read that comes up short.\<close>

function crc16_chunks :: "u16 \<Rightarrow> byte list \<Rightarrow> nat \<Rightarrow> u16 option" where
  "crc16_chunks crc rest bytes =
     (if bytes = 0 then Some crc
      else
        let rlen = min 4096 bytes
        in if length (take rlen rest) \<noteq> rlen then None
           else crc16_chunks (crc16_continue crc (take rlen rest)) (drop rlen rest) (bytes - rlen))"
  by pat_completeness auto
termination
  by (relation "measure (\<lambda>(crc, rest, bytes). bytes)") auto

declare crc16_chunks.simps [simp del]

definition get_crc16_by_fd :: "byte list \<Rightarrow> u64 \<Rightarrow> u16 option" where
  "get_crc16_by_fd c bytes =
     (let bytes = (if bytes = CRC16_MAX_BYTES then of_nat (length c) else bytes)
      in map_option crc16_end (crc16_chunks crc16_start c (unat bytes)))"

definition get_crc16_by_path :: "tree \<Rightarrow> cstr \<Rightarrow> u64 \<Rightarrow> u16 option" where
  "get_crc16_by_path t path bytes = do {
     c \<leftarrow> t path;
     get_crc16_by_fd c (if bytes = CRC16_MAX_BYTES then of_nat (length c) else bytes)
   }"

section \<open>fops.c\<close>

definition is_existed :: "tree \<Rightarrow> cstr \<Rightarrow> bool" where "is_existed t path \<longleftrightarrow> t path \<noteq> None"
definition is_file :: "tree \<Rightarrow> cstr \<Rightarrow> bool" where "is_file t path \<longleftrightarrow> t path \<noteq> None"

text \<open>
  The loop that fills the buffer: a read that comes up short goes on at the start of the file. On an
  empty file it never ends.
\<close>

partial_function (option) fill :: "byte list \<Rightarrow> nat \<Rightarrow> nat \<Rightarrow> (byte list \<times> nat) option" where
  "fill src pos sz =
     (if sz = 0 then Some ([], pos)
      else
        let got = take sz (drop pos src)
        in if length got \<noteq> sz then do {
             (more, pos) \<leftarrow> fill src 0 (sz - length got);
             Some (got @ more, pos)
           }
           else Some (got, pos + length got))"

partial_function (option) copy_loop :: "byte list \<Rightarrow> nat \<Rightarrow> nat \<Rightarrow> nat \<Rightarrow> byte list option" where
  "copy_loop src buf_size n pos =
     (if n = 0 then Some []
      else do {
        let sz = min n buf_size;
        (buf, pos) \<leftarrow> fill src pos sz;
        rest \<leftarrow> copy_loop src buf_size (n - sz) pos;
        Some (buf @ rest)
      })"

definition copy_file :: "rw_os \<Rightarrow> tree \<Rightarrow> byte list option \<Rightarrow> cstr \<Rightarrow> u64 \<Rightarrow> u64 \<Rightarrow> (int \<times> tree) option" where
  "copy_file e t src out bytes buf_size =
     (case src of
        None \<Rightarrow> Some (-1, t)
      | Some src \<Rightarrow>
          if \<not> room e t out (unat bytes) then Some (-1, t(out := torn e t out (unat bytes)))
          else map_option (\<lambda>c. (0, t(out \<mapsto> c))) (copy_loop src (unat buf_size) (unat bytes) 0))"

text \<open>The last two bytes of the file are replaced by the checksum of what is before them.\<close>

definition append_crc :: "tree \<Rightarrow> cstr \<Rightarrow> int \<times> tree" where
  "append_crc t path =
     (case t path of
        None \<Rightarrow> (-1, t)
      | Some c \<Rightarrow>
          (case get_crc16_by_fd c (word_of_int (int (length c) - 2)) of
             None \<Rightarrow> (-1, t)
           | Some crc \<Rightarrow>
               if length c < 2 then (-1, t)
               else (0, t(path \<mapsto> take (length c - 2) c @ le16 crc))))"

section \<open>size\_unit.c\<close>

definition KB :: u64 where "KB = 1024"
definition MB :: u64 where "MB = KB * 1024"
definition GB :: u64 where "GB = MB * 1024"

definition EINVAL :: int where "EINVAL = 22"

text \<open>The size, or the error code. The last character of an empty string is read before its start.\<close>

definition str_to_size :: "cstr \<Rightarrow> (int + u64) option" where
  "str_to_size str =
     (if str = [] then None
      else
        let c = last str; size = (word_of_int (atol str) :: u64)
        in if size = 0 then Some (Inl (- EINVAL))
           else if is_digit c then Some (Inr size)
           else if c = 107 \<or> c = 75 then Some (Inr (size * KB))
           else if c = 109 \<or> c = 77 then Some (Inr (size * MB))
           else if c = 103 \<or> c = 71 then Some (Inr (size * GB))
           else Some (Inl (- EINVAL)))"

section \<open>sys\_info.c\<close>

definition FILE_SIZE_UNLIMITED :: u64 where "FILE_SIZE_UNLIMITED = drop_bit 1 (-1)"
definition FAT_MAX_SIZE :: u64 where "FAT_MAX_SIZE = 4 * GB - 2"
definition FS_MSDOS_MAGIC :: u64 where "FS_MSDOS_MAGIC = 0x4d44"

text \<open>Of the table of file systems only the largest file matters: FAT has a limit, the others have none.\<close>

definition get_fs :: "rw_os \<Rightarrow> cstr \<Rightarrow> u64 option" where
  "get_fs e dir =
     (case dirs e dir of
        None \<Rightarrow> None
      | Some d \<Rightarrow> Some (if fs_magic e d = FS_MSDOS_MAGIC then FAT_MAX_SIZE else FILE_SIZE_UNLIMITED))"

definition get_total_flash :: "rw_os \<Rightarrow> cstr \<Rightarrow> u64" where
  "get_total_flash e dir = (case dirs e dir of None \<Rightarrow> 0 | Some d \<Rightarrow> flash_size e d)"

fun strstr :: "cstr \<Rightarrow> cstr \<Rightarrow> cstr option" where
  "strstr [] key = (if key = [] then Some [] else None)"
| "strstr (c # cs) key = (if take (length key) (c # cs) = key then Some (c # cs) else strstr cs key)"

text \<open>
  The number that \<open>sscanf\<close> finds behind the word. A text that fills the buffer leaves it without its
  terminating zero, which is not modelled.
\<close>

definition scan_kb :: "cstr \<Rightarrow> u64" where
  "scan_kb p =
     (let num = dropWhile is_space (dropWhile (\<lambda>c. \<not> is_space c) p)
      in case num of
           [] \<Rightarrow> 0
         | c # r \<Rightarrow>
             let v = (\<lambda>ds. of_nat (min (digits_val ds) (2 ^ 64 - 1)))
             in if c = 45 then - v r else if c = 43 then v r else v num)"

definition meminfo_field :: "rw_os \<Rightarrow> cstr \<Rightarrow> u64" where
  "meminfo_field e key =
     (case meminfo e of
        None \<Rightarrow> 0
      | Some file \<Rightarrow> (case strstr (take 1024 file) key of None \<Rightarrow> 0 | Some p \<Rightarrow> scan_kb p * KB))"

definition get_total_mem :: "rw_os \<Rightarrow> u64" where
  "get_total_mem e = meminfo_field e (bytes_of ''MemTotal'')"

definition get_free_mem :: "rw_os \<Rightarrow> u64" where
  "get_free_mem e = meminfo_field e (bytes_of ''MemFree'')"

record sys_info =
  total_ddr :: u64
  free_ddr :: u64
  total_flash :: u64
  fs_max :: "u64 option"
  sys_dir :: "cstr option"

definition update_sys_info :: "rw_os \<Rightarrow> sys_info \<Rightarrow> cstr option \<Rightarrow> int \<times> sys_info" where
  "update_sys_info e sys dir =
     (let sys = (if total_ddr sys = 0 then sys\<lparr>total_ddr := get_total_mem e\<rparr> else sys);
          sys = (if free_ddr sys = 0 then sys\<lparr>free_ddr := get_free_mem e\<rparr> else sys)
      in if total_ddr sys = 0 \<or> free_ddr sys = 0 then (-1, sys)
         else
           case dir of
             None \<Rightarrow> (0, sys)
           | Some d \<Rightarrow>
               if sys_dir sys = Some d then (0, sys)
               else
                 let sys = sys\<lparr>total_flash := get_total_flash e d\<rparr>
                 in if total_flash sys = 0 then (-1, sys)
                    else
                      let sys = sys\<lparr>fs_max := get_fs e d\<rparr>
                      in if fs_max sys = None then (-1, sys) else (0, sys\<lparr>sys_dir := Some d\<rparr>))"

definition get_free_flash :: "rw_os \<Rightarrow> tree \<Rightarrow> sys_info \<Rightarrow> u64" where
  "get_free_flash e t sys = (if sys_dir sys = None then 0 else free_flash e t)"

definition get_max_file_size :: "sys_info \<Rightarrow> u64" where
  "get_max_file_size sys =
     (case (sys_dir sys, fs_max sys) of (Some _, Some m) \<Rightarrow> m | _ \<Rightarrow> 0)"

section \<open>rwcheck.c: the task\<close>

datatype run_mode = AUTO_MODE | SAME_MODE | UP_MODE

text \<open>\<open>sz_cur\<close> and \<open>sz_same\<close> are one field. \<open>dir\<close> is the absolute path.\<close>

record rwtask =
  sys :: sys_info
  mode :: run_mode
  min_free_bytes :: u64
  dir :: "cstr option"
  org :: cstr
  set_org :: bool
  jobs :: int
  percent :: int
  times :: u32
  count :: nat
  sz_begin :: u64
  sz_end :: u64
  sz_cur :: u64
  sz_buf :: u64

definition DEFAULT_ORG_SIZE :: u64 where "DEFAULT_ORG_SIZE = 64 * KB"
definition DEFAULT_SMALL_BUF_SIZE :: u64 where "DEFAULT_SMALL_BUF_SIZE = 512 * KB"
definition DEFAULT_LARGE_BUF_SIZE :: u64 where "DEFAULT_LARGE_BUF_SIZE = 8 * MB"
definition DEFAULT_BUF_SIZE_DDR_LIMIT :: u64 where "DEFAULT_BUF_SIZE_DDR_LIMIT = 64 * MB"
definition DEFAULT_UP_MODE_BEGIN_SIZE :: u64 where "DEFAULT_UP_MODE_BEGIN_SIZE = 4 * KB"
definition DEFAULT_UP_MODE_END_SIZE :: u64 where "DEFAULT_UP_MODE_END_SIZE = 16 * GB"
definition DEFAULT_AUTO_MODE_MAX_SIZE :: u64 where "DEFAULT_AUTO_MODE_MAX_SIZE = 4 * GB"
definition DEFAULT_AUTO_MODE_END_SIZE :: u64 where "DEFAULT_AUTO_MODE_END_SIZE = 64 * KB"
definition MAX_JOBS :: int where "MAX_JOBS = 10"
definition MAX_PATH_LEN :: nat where "MAX_PATH_LEN = 1024"

definition init_rwtask :: "rw_os \<Rightarrow> rwtask option" where
  "init_rwtask e =
     (let task = \<lparr>sys = \<lparr>total_ddr = 0, free_ddr = 0, total_flash = 0, fs_max = None, sys_dir = None\<rparr>,
            mode = AUTO_MODE, min_free_bytes = 0, dir = dirs e (bytes_of ''.''), org = [], set_org = False,
            jobs = 1, percent = 95, times = 1, count = 0, sz_begin = 0, sz_end = 0, sz_cur = 0, sz_buf = 0\<rparr>
      in if dir task = None then None
         else
           let (ret, sys) = update_sys_info e (sys task) (dir task)
           in if ret \<noteq> 0 then None
              else Some (task\<lparr>sys := sys,
                sz_buf := (if DEFAULT_BUF_SIZE_DDR_LIMIT < total_ddr sys then DEFAULT_LARGE_BUF_SIZE
                           else DEFAULT_SMALL_BUF_SIZE)\<rparr>))"

text \<open>An option as \<open>getopt\<close> returns it; \<open>Opt_bad\<close> is one that is not known or lacks its argument.\<close>

datatype opt = Opt_d cstr | Opt_t cstr | Opt_b cstr | Opt_e cstr | Opt_s cstr | Opt_u cstr | Opt_i cstr
  | Opt_p cstr | Opt_j cstr | Opt_h | Opt_bad

text \<open>One option: the code to exit with or the changed task.\<close>

definition size_opt :: "cstr \<Rightarrow> (u64 \<Rightarrow> rwtask) \<Rightarrow> (int + rwtask) option" where
  "size_opt arg f = map_option (\<lambda>r. case r of Inl _ \<Rightarrow> Inl (-1) | Inr n \<Rightarrow> Inr (f n)) (str_to_size arg)"

fun parse_opt :: "rw_os \<Rightarrow> tree \<Rightarrow> rwtask \<Rightarrow> opt \<Rightarrow> (int + rwtask) option" where
  "parse_opt e t task (Opt_d arg) =
     Some (case dirs e arg of None \<Rightarrow> Inl (-1) | Some d \<Rightarrow> Inr (task\<lparr>dir := Some d\<rparr>))"
| "parse_opt e t task (Opt_t arg) =
     Some (let n = (word_of_int (atol arg) :: u32) in if n = 0 then Inl (-1) else Inr (task\<lparr>times := n\<rparr>))"
| "parse_opt e t task (Opt_b arg) =
     (if mode task = SAME_MODE then Some (Inl (-1))
      else size_opt arg (\<lambda>n. task\<lparr>sz_begin := n, mode := UP_MODE\<rparr>))"
| "parse_opt e t task (Opt_e arg) =
     (if mode task = SAME_MODE then Some (Inl (-1))
      else size_opt arg (\<lambda>n. task\<lparr>sz_end := n, mode := UP_MODE\<rparr>))"
| "parse_opt e t task (Opt_s arg) =
     (if mode task = UP_MODE then Some (Inl (-1))
      else size_opt arg (\<lambda>n. task\<lparr>sz_cur := n, mode := SAME_MODE\<rparr>))"
| "parse_opt e t task (Opt_u arg) = size_opt arg (\<lambda>n. task\<lparr>sz_buf := n\<rparr>)"
| "parse_opt e t task (Opt_i arg) =
     Some (if \<not> is_file t arg then Inl (-1) else Inr (task\<lparr>org := take MAX_PATH_LEN arg, set_org := True\<rparr>))"
| "parse_opt e t task (Opt_p arg) =
     Some (if atol arg < 0 \<or> 99 < atol arg then Inl (-1) else Inr (task\<lparr>percent := atol arg\<rparr>))"
| "parse_opt e t task (Opt_j arg) =
     Some (if atol arg \<le> 0 \<or> MAX_JOBS < atol arg then Inl (-1) else Inr (task\<lparr>jobs := atol arg\<rparr>))"
| "parse_opt e t task Opt_h = Some (Inl 0)"
| "parse_opt e t task Opt_bad = Some (Inl (-1))"

fun parse_args :: "rw_os \<Rightarrow> tree \<Rightarrow> rwtask \<Rightarrow> opt list \<Rightarrow> (int + rwtask) option" where
  "parse_args e t task [] = Some (Inr task)"
| "parse_args e t task (opt # opts) = do {
     r \<leftarrow> parse_opt e t task opt;
     case r of Inl ret \<Rightarrow> Some (Inl ret) | Inr task \<Rightarrow> parse_args e t task opts
   }"

definition check_args :: "rw_os \<Rightarrow> tree \<Rightarrow> rwtask \<Rightarrow> int + rwtask" where
  "check_args e t task =
     (let (ret, sys) = update_sys_info e (sys task) (dir task)
      in if ret \<noteq> 0 then Inl (-1)
         else
           let task = task\<lparr>sys := sys,
                 min_free_bytes := word_of_int (100 - percent task) * total_flash sys div 100,
                 org := take (MAX_PATH_LEN - 1) (the (dir task) @ bytes_of ''/rwcheck.org'')\<rparr>;
               max = get_max_file_size sys
           in if 16 * MB \<le> sz_buf task then Inl (-1)
              else if free_ddr sys * 60 div 100 \<le> sz_buf task then Inl (-1)
              else
                let task = (case mode task of
                      UP_MODE \<Rightarrow>
                        let task = (if sz_begin task = 0 then task\<lparr>sz_begin := DEFAULT_UP_MODE_BEGIN_SIZE\<rparr> else task);
                            task = (if sz_end task = 0 then task\<lparr>sz_end := DEFAULT_UP_MODE_END_SIZE\<rparr> else task)
                        in if max < sz_end task then task\<lparr>sz_end := max\<rparr> else task
                    | SAME_MODE \<Rightarrow> if max < sz_cur task then task\<lparr>sz_cur := max\<rparr> else task
                    | AUTO_MODE \<Rightarrow> task)
                in if mode task = UP_MODE \<and> sz_end task < sz_begin task then Inl (-1)
                   else if set_org task \<and> \<not> is_file t (org task) then Inl (-1)
                   else Inr task)"

section \<open>rwcheck.c: the sizes of the files\<close>

definition round_down :: "u64 \<Rightarrow> u64 \<Rightarrow> u64" where "round_down x y = x AND NOT (y - 1)"

lemma round_down_le: "round_down x y \<le> x"
  by (simp add: round_down_def word_and_le2)

function auto_size :: "u64 \<Rightarrow> u64 \<Rightarrow> u64 \<Rightarrow> u64" where
  "auto_size free_bytes min_free test_bytes =
     (if test_bytes \<noteq> 0 \<and> free_bytes - test_bytes < min_free
      then auto_size free_bytes min_free (round_down (test_bytes div 2) KB) else test_bytes)"
  by pat_completeness auto
termination
proof (relation "measure (\<lambda>(free_bytes, min_free, test_bytes). unat test_bytes)", goal_cases)
  case (2 free_bytes min_free test_bytes)
  then have "0 < unat test_bytes"
    by (simp add: unat_gt_0)
  moreover have "unat (round_down (test_bytes div 2) KB) \<le> unat (test_bytes div 2)"
    using round_down_le by (simp add: word_le_nat_alt [symmetric])
  moreover have "unat (test_bytes div 2) = unat test_bytes div 2"
    by (simp add: unat_div)
  ultimately show ?case
    by simp
qed simp

declare auto_size.simps [simp del]

definition get_task_size_auto_mode :: "u64 \<Rightarrow> rwtask \<Rightarrow> u64" where
  "get_task_size_auto_mode free_bytes task =
     (let test_bytes = auto_size free_bytes (min_free_bytes task) (round_down (free_bytes div 2) KB);
          test_bytes = min test_bytes DEFAULT_AUTO_MODE_MAX_SIZE
      in if test_bytes < DEFAULT_AUTO_MODE_END_SIZE then 0 else test_bytes)"

definition get_task_size_same_mode :: "u64 \<Rightarrow> rwtask \<Rightarrow> u64" where
  "get_task_size_same_mode free_bytes task = (if free_bytes \<le> sz_cur task then 0 else sz_cur task)"

definition get_task_size_up_mode :: "u64 \<Rightarrow> rwtask \<Rightarrow> u64" where
  "get_task_size_up_mode free_bytes task =
     (let cur = (if sz_cur task = 0 then sz_begin task else sz_cur task * 2);
          cur = (if sz_end task < cur then sz_begin task else cur);
          cur = (if free_bytes \<le> cur then sz_begin task else cur)
      in if free_bytes - cur < min_free_bytes task then sz_begin task else cur)"

text \<open>The size, and the task with its current size.\<close>

definition get_test_size :: "u64 \<Rightarrow> rwtask \<Rightarrow> u64 \<times> rwtask" where
  "get_test_size free_bytes task =
     (if free_bytes = 0 \<or> free_bytes \<le> min_free_bytes task then (0, task)
      else
        let (test_bytes, task) = (case mode task of
              AUTO_MODE \<Rightarrow> (get_task_size_auto_mode free_bytes task, task)
            | SAME_MODE \<Rightarrow> (get_task_size_same_mode free_bytes task, task)
            | UP_MODE \<Rightarrow> let n = get_task_size_up_mode free_bytes task in (n, task\<lparr>sz_cur := n\<rparr>))
        in if test_bytes = 0 then (0, task)
           else if free_bytes - test_bytes < min_free_bytes task then (0, task)
           else (min test_bytes (get_max_file_size (sys task)), task))"

section \<open>rwcheck.c: the test\<close>

definition ENOENT :: int where "ENOENT = 2"

definition init_orgin_file :: "rw_os \<Rightarrow> rwtask \<Rightarrow> tree \<Rightarrow> (int \<times> tree) option" where
  "init_orgin_file e task t =
     (if org task = [] then Some (- ENOENT, t)
      else if set_org task then Some (0, t)
      else if is_existed t (org task) then Some (0, t)
      else copy_file e t (Some (random_data e t)) (org task) DEFAULT_ORG_SIZE (4 * KB))"

definition deinit_orgin_file :: "rw_os \<Rightarrow> rwtask \<Rightarrow> tree \<Rightarrow> int \<times> tree" where
  "deinit_orgin_file e task t =
     (if set_org task then (0, t)
      else (0, if removable e t (org task) then t(org task := None) else t))"

text \<open>The path of a test file, cut off to fit a buffer.\<close>

definition testfile :: "rwtask \<Rightarrow> nat \<Rightarrow> nat \<Rightarrow> nat \<Rightarrow> cstr" where
  "testfile task len num job =
     take (len - 1) (the (dir task) @ bytes_of ''/rwcheck.tmp.'' @ dec_of_nat num @
       (if jobs task = 1 then [] else bytes_of ''_'' @ dec_of_nat job))"

definition sub_thread_do_create :: "rw_os \<Rightarrow> rwtask \<Rightarrow> u64 \<Rightarrow> cstr \<Rightarrow> tree \<Rightarrow> (int \<times> tree) option" where
  "sub_thread_do_create e task bytes path t =
     (if is_existed t path then Some (0, t)
      else do {
        (ret, t) \<leftarrow> copy_file e t (t (org task)) path bytes (sz_buf task);
        if ret \<noteq> 0 then Some (ret, t) else Some (append_crc t path)
      })"

text \<open>
  The threads of one round work on files of their own, so that their order does not matter. A failure
  makes the main thread cancel threads it has joined already, which is undefined.
\<close>

fun run_threads :: "rw_os \<Rightarrow> rwtask \<Rightarrow> u64 \<Rightarrow> cstr list \<Rightarrow> tree \<Rightarrow> tree option" where
  "run_threads e task bytes [] t = Some t"
| "run_threads e task bytes (p # ps) t = do {
     (ret, t) \<leftarrow> sub_thread_do_create e task bytes p t;
     if ret \<noteq> 0 then None else run_threads e task bytes ps t
   }"

definition round_paths :: "rwtask \<Rightarrow> nat \<Rightarrow> cstr list" where
  "round_paths task num = map (testfile task 128 num) [0..<nat (jobs task)]"

text \<open>
  The loop of \<open>do_create\<close>. If a file exists, the threads started before it in this round are cancelled;
  from the second round on the others are ones that have been joined. The number of the round is an \<open>int\<close>.
\<close>

definition INT_MAX :: nat where "INT_MAX = 2147483647"

partial_function (option) create_loop :: "rw_os \<Rightarrow> nat \<Rightarrow> rwtask \<Rightarrow> tree \<Rightarrow> (int \<times> rwtask \<times> tree) option" where
  "create_loop e num task t =
     (let (size, task) = get_test_size (get_free_flash e t (sys task)) task;
          paths = round_paths task num
      in if size = 0 then Some (0, task, t)
         else if list_ex (is_existed t) paths then
           if num = 0 then Some (0, task, cancelled e t (takeWhile (\<lambda>p. \<not> is_existed t p) paths)) else None
         else do {
           t \<leftarrow> run_threads e task (size div word_of_int (jobs task)) paths t;
           if num = INT_MAX then None else create_loop e (Suc num) task t
         })"

definition do_create :: "rw_os \<Rightarrow> rwtask \<Rightarrow> tree \<Rightarrow> (int \<times> rwtask \<times> tree) option" where
  "do_create e task t = create_loop e 0 (if mode task = UP_MODE then task\<lparr>sz_cur := 0\<rparr> else task) t"

text \<open>
  The files of one round in \<open>do_check\<close>: \<open>Inl\<close> returns from the function, with the number of complete
  rounds if all is well.
\<close>

fun check_jobs :: "rwtask \<Rightarrow> tree \<Rightarrow> nat \<Rightarrow> nat list \<Rightarrow> (int \<times> nat option) option" where
  "check_jobs task t num [] = None"
| "check_jobs task t num (job # js) =
     (let file = testfile task 128 num job
      in if \<not> is_file t file then Some (0, Some num)
         else
           case get_crc16_by_path t file CRC16_MAX_BYTES of
             None \<Rightarrow> Some (-1, None)
           | Some crc \<Rightarrow>
               if check_crc16 crc then check_jobs task t num js
               else if is_file t (testfile task 128 (Suc num) job) then Some (-1, None)
               else check_jobs task t num js)"

partial_function (option) check_loop :: "rwtask \<Rightarrow> tree \<Rightarrow> nat \<Rightarrow> (int \<times> nat option) option" where
  "check_loop task t num =
     (case check_jobs task t num [0..<nat (jobs task)] of
        Some r \<Rightarrow> Some r
      | None \<Rightarrow> if num = INT_MAX then None else check_loop task t (Suc num))"

definition do_check :: "rwtask \<Rightarrow> tree \<Rightarrow> (int \<times> rwtask) option" where
  "do_check task t = do {
     (ret, n) \<leftarrow> check_loop task t 0;
     Some (ret, case n of None \<Rightarrow> task | Some n \<Rightarrow> task\<lparr>count := n\<rparr>)
   }"

text \<open>
  The files of one round in \<open>do_remove\<close>, whose buffer is shorter: \<open>Inl None\<close> is the jump to \<open>out\<close>, \<open>Inl (Some _)\<close>
  the return of an error.
\<close>

fun remove_jobs :: "rw_os \<Rightarrow> rwtask \<Rightarrow> nat \<Rightarrow> nat list \<Rightarrow> tree \<Rightarrow> (int option + unit) \<times> tree" where
  "remove_jobs e task num [] t = (Inr (), t)"
| "remove_jobs e task num (job # js) t =
     (let file = testfile task 100 num job
      in if \<not> is_existed t file then (Inl None, t)
         else if \<not> removable e t file then (Inl (Some (- EINVAL)), t)
         else remove_jobs e task num js (t(file := None)))"

fun remove_loop :: "rw_os \<Rightarrow> rwtask \<Rightarrow> nat \<Rightarrow> tree \<Rightarrow> int option \<times> tree" where
  "remove_loop e task 0 t = (None, t)"
| "remove_loop e task (Suc num) t =
     (case remove_jobs e task num [0..<nat (jobs task)] t of
        (Inl ret, t) \<Rightarrow> (ret, t)
      | (Inr _, t) \<Rightarrow> remove_loop e task num t)"

definition do_remove :: "rw_os \<Rightarrow> rwtask \<Rightarrow> tree \<Rightarrow> int \<times> tree" where
  "do_remove e task t =
     (case remove_loop e task (count task) t of
        (Some ret, t) \<Rightarrow> (ret, t)
      | (None, t) \<Rightarrow>
          if get_free_flash e t (sys task) \<le> min_free_bytes task then (-1, t) else (0, t))"

text \<open>One turn of the loop of \<open>begin\<close>, and the loop.\<close>

definition begin_turn :: "rw_os \<Rightarrow> rwtask \<Rightarrow> tree \<Rightarrow> (int \<times> rwtask \<times> tree) option" where
  "begin_turn e task t = do {
     (ret, t) \<leftarrow> init_orgin_file e task t;
     if ret \<noteq> 0 then Some (ret, task, t)
     else do {
       (ret, task, t) \<leftarrow> do_create e task t;
       if ret \<noteq> 0 then Some (ret, task, t)
       else do {
         (ret, task) \<leftarrow> do_check task t;
         if ret \<noteq> 0 then Some (ret, task, t)
         else
           let (ret, t) = do_remove e task t
           in if ret \<noteq> 0 then Some (ret, task, t)
              else
                let (ret, t) = deinit_orgin_file e task t
                in Some (ret, task, t)
       }
     }
   }"

fun begin_loop :: "rw_os \<Rightarrow> nat \<Rightarrow> rwtask \<Rightarrow> tree \<Rightarrow> (int \<times> rwtask \<times> tree) option" where
  "begin_loop e 0 task t = Some (0, task, t)"
| "begin_loop e (Suc n) task t = do {
     (ret, task, t) \<leftarrow> begin_turn e task t;
     if ret \<noteq> 0 then Some (ret, task, t) else begin_loop e n task t
   }"

definition rwcheck_main :: "rw_os \<Rightarrow> opt list \<Rightarrow> tree \<Rightarrow> (int \<times> tree) option" where
  "rwcheck_main e opts t =
     (case init_rwtask e of
        None \<Rightarrow> Some (-1, t)
      | Some task \<Rightarrow> do {
          r \<leftarrow> parse_args e t task opts;
          case r of
            Inl ret \<Rightarrow> Some (ret, t)
          | Inr task \<Rightarrow>
              (case check_args e t task of
                 Inl ret \<Rightarrow> Some (ret, t)
               | Inr task \<Rightarrow> map_option (\<lambda>(ret, _, t). (ret, t)) (begin_loop e (unat (times task)) task t))
        })"

end
