(* ===== verification/Rw_Laws.thy ===== *)
theory Rw_Laws
  imports Rw_Check
begin

text \<open>
  Laws of \<open>rwcheck\<close>: the checksum of a file, the copying of the origin file, the sizes, and what the
  steps of the test do on a file system that works.
\<close>

section \<open>Checksums of files\<close>

lemma crc16_chunks_take:
  "n \<le> length rest \<Longrightarrow> crc16_chunks c rest n = Some (crc16_common c (take n rest))"
proof (induction c rest n rule: crc16_chunks.induct)
  case (1 crc rest bytes)
  show ?case
  proof (cases "bytes = 0")
    case True
    then show ?thesis
      by (simp add: crc16_chunks.simps)
  next
    case False
    let ?r = "min 4096 bytes"
    have "crc16_chunks crc rest bytes = crc16_chunks (crc16_common crc (take ?r rest)) (drop ?r rest) (bytes - ?r)"
      using False "1.prems" by (subst crc16_chunks.simps) (simp add: Let_def crc16_continue_def)
    also have "\<dots> = Some (crc16_common (crc16_common crc (take ?r rest)) (take (bytes - ?r) (drop ?r rest)))"
      using "1.IH" [of ?r] False "1.prems" by (simp add: crc16_continue_def)
    also have "take bytes rest = take ?r rest @ take (bytes - ?r) (drop ?r rest)"
      by (metis le_add_diff_inverse min.cobounded2 take_add)
    ultimately show ?thesis
      by (simp add: crc16_append)
  qed
qed

text \<open>Data with its checksum.\<close>

definition sealed :: "byte list \<Rightarrow> byte list" where
  "sealed d = d @ le16 (crc16_end (crc16_common CRC_INIT d))"

lemma length_sealed [simp]: "length (sealed d) = length d + 2"
  by (simp add: sealed_def)

definition small :: "byte list \<Rightarrow> bool" where
  "small c \<longleftrightarrow> length c < 2 ^ 63"

lemma unat_of_nat_64: "n < 2 ^ 64 \<Longrightarrow> unat (of_nat n :: u64) = n"
  by (simp add: unat_of_nat take_bit_nat_eq_self)

lemma crc_max_unat: "unat CRC16_MAX_BYTES = 2 ^ 64 - 1"
  by (simp add: CRC16_MAX_BYTES_def unsigned_minus_1_eq_mask mask_eq_exp_minus_1)

lemma of_nat_not_max: "n < 2 ^ 63 \<Longrightarrow> of_nat n \<noteq> CRC16_MAX_BYTES"
proof
  assume n: "n < 2 ^ 63" "of_nat n = CRC16_MAX_BYTES"
  then have "unat (of_nat n :: u64) = n"
    by (intro unat_of_nat_64) simp
  then show False
    using n crc_max_unat by simp
qed

lemma crc_of_prefix:
  assumes "n \<le> length c" "small c"
  shows "get_crc16_by_fd c (of_nat n) = Some (crc16_end (crc16_common CRC_INIT (take n c)))"
proof -
  have n: "n < 2 ^ 63"
    using assms by (simp add: small_def)
  then have "unat (of_nat n :: u64) = n"
    by (intro unat_of_nat_64) simp
  then show ?thesis
    using of_nat_not_max [OF n] assms(1) by (simp add: get_crc16_by_fd_def crc16_start_def crc16_chunks_take)
qed

lemma append_crc_seals:
  assumes "t p = Some c" "2 \<le> length c" "small c"
  shows "append_crc t p = (0, t(p \<mapsto> sealed (take (length c - 2) c)))"
proof -
  have "(word_of_int (int (length c) - 2) :: u64) = of_nat (length c - 2)"
    using assms(2) by (simp add: of_nat_diff)
  then have "get_crc16_by_fd c (word_of_int (int (length c) - 2)) =
      Some (crc16_end (crc16_common CRC_INIT (take (length c - 2) c)))"
    using crc_of_prefix [of "length c - 2" c] assms(3) by (simp only:)
  then show ?thesis
    using assms by (simp add: append_crc_def sealed_def)
qed

lemma crc_of_file:
  "t p = Some c \<Longrightarrow> small c \<Longrightarrow>
   get_crc16_by_path t p CRC16_MAX_BYTES = Some (crc16_end (crc16_common CRC_INIT c))"
  using crc_of_prefix [of "length c" c] by (simp add: get_crc16_by_path_def)

lemma sealed_checks:
  "t p = Some (sealed d) \<Longrightarrow> small (sealed d) \<Longrightarrow>
   \<exists>crc. get_crc16_by_path t p CRC16_MAX_BYTES = Some crc \<and> check_crc16 crc"
  using crc_of_file [of t p "sealed d"] check_appended [of d] by (simp add: sealed_def)

section \<open>Copying\<close>

text \<open>The bytes of a file read over and over.\<close>

definition cyc :: "byte list \<Rightarrow> nat \<Rightarrow> nat \<Rightarrow> byte list" where
  "cyc src pos n = map (\<lambda>i. src ! ((pos + i) mod length src)) [0..<n]"

lemma length_cyc [simp]: "length (cyc src pos n) = n"
  by (simp add: cyc_def)

lemma cyc_add: "cyc src pos (m + n) = cyc src pos m @ cyc src (pos + m) n"
  by (rule nth_equalityI) (auto simp: cyc_def nth_append add.assoc)

lemma cyc_mod: "pos mod length src = pos' mod length src \<Longrightarrow> cyc src pos n = cyc src pos' n"
  by (auto simp: cyc_def intro: arg_cong [where f = "nth src"] mod_add_cong)

lemma cyc_take: "pos + n \<le> length src \<Longrightarrow> take n (drop pos src) = cyc src pos n"
  by (rule nth_equalityI) (auto simp: cyc_def)

lemma cyc_same: "take (length src) src = cyc src 0 (length src)"
  using cyc_take [of 0 "length src" src] by simp

lemma fill_start:
  assumes "src \<noteq> []"
  shows "\<exists>pos'. fill src 0 sz = Some (cyc src 0 sz, pos') \<and> pos' \<le> length src \<and> pos' mod length src = sz mod length src"
proof (induction sz rule: less_induct)
  case (less sz)
  show ?case
  proof (cases "sz \<le> length src")
    case True
    then have "take sz src = cyc src 0 sz"
      using cyc_take [of 0 sz src] by simp
    then show ?thesis
      using True assms by (subst fill.simps) (auto simp: Let_def cyc_def)
  next
    case False
    let ?l = "length src"
    obtain pos' where p: "fill src 0 (sz - ?l) = Some (cyc src 0 (sz - ?l), pos')" "pos' \<le> ?l"
      "pos' mod ?l = (sz - ?l) mod ?l"
      using less [of "sz - ?l"] False assms by auto
    have "cyc src 0 sz = src @ cyc src 0 (sz - ?l)"
      using cyc_add [of src 0 ?l "sz - ?l"] cyc_mod [of ?l src 0] cyc_same [of src] False by simp
    moreover have "(sz - ?l) mod ?l = sz mod ?l"
      using False by (simp add: le_mod_geq)
    ultimately show ?thesis
      using p False assms by (subst fill.simps) (auto simp: Let_def)
  qed
qed

lemma fill_cyc:
  assumes "src \<noteq> []" "pos \<le> length src"
  shows "\<exists>pos'. fill src pos sz = Some (cyc src pos sz, pos') \<and> pos' \<le> length src \<and>
    pos' mod length src = (pos + sz) mod length src"
proof (cases "pos + sz \<le> length src")
  case True
  then show ?thesis
    using assms cyc_take [OF True] by (subst fill.simps) (auto simp: Let_def cyc_def)
next
  case False
  let ?l = "length src" and ?r = "sz - (length src - pos)"
  obtain pos' where p: "fill src 0 ?r = Some (cyc src 0 ?r, pos')" "pos' \<le> ?l" "pos' mod ?l = ?r mod ?l"
    using fill_start [OF assms(1)] by blast
  have "cyc src pos sz = cyc src pos (?l - pos) @ cyc src ?l ?r"
    using cyc_add [of src pos "?l - pos" ?r] False assms(2) by simp
  then have c: "cyc src pos sz = drop pos src @ cyc src 0 ?r"
    using cyc_take [of pos "?l - pos" src] cyc_mod [of ?l src 0] assms(2) by simp
  have "pos + sz = ?l + ?r"
    using False assms(2) by simp
  then have "(pos + sz) mod ?l = ?r mod ?l"
    by (metis mod_add_self1)
  then show ?thesis
    using p c False assms by (subst fill.simps) (auto simp: Let_def)
qed

lemma copy_cyc:
  assumes "src \<noteq> []" "0 < buf"
  shows "pos \<le> length src \<Longrightarrow> copy_loop src buf n pos = Some (cyc src pos n)"
proof (induction n arbitrary: pos rule: less_induct)
  case (less n)
  show ?case
  proof (cases "n = 0")
    case True
    then show ?thesis
      by (subst copy_loop.simps) (simp add: cyc_def)
  next
    case False
    let ?s = "min n buf"
    obtain pos' where p: "fill src pos ?s = Some (cyc src pos ?s, pos')" "pos' \<le> length src"
      "pos' mod length src = (pos + ?s) mod length src"
      using fill_cyc [OF assms(1) less.prems] by blast
    have "copy_loop src buf (n - ?s) pos' = Some (cyc src (pos + ?s) (n - ?s))"
      using less.IH [of "n - ?s" pos'] p(2) cyc_mod [OF p(3)] False assms(2) by simp
    moreover have "cyc src pos n = cyc src pos ?s @ cyc src (pos + ?s) (n - ?s)"
      using cyc_add [of src pos ?s "n - ?s"] by simp
    ultimately show ?thesis
      using p(1) False by (subst copy_loop.simps) (simp add: Let_def)
  qed
qed

text \<open>A new test file.\<close>

lemma create_file:
  assumes "t p = None" "t (org task) = Some src" "src \<noteq> []" "sz_buf task \<noteq> 0"
    and "room e t p (unat bytes)" "2 \<le> unat bytes" "unat bytes < 2 ^ 63"
  shows "sub_thread_do_create e task bytes p t = Some (0, t(p \<mapsto> sealed (cyc src 0 (unat bytes - 2))))"
proof -
  let ?n = "unat bytes"
  have "0 < unat (sz_buf task)"
    using assms(4) by (simp add: unat_gt_0)
  then have "copy_loop src (unat (sz_buf task)) ?n 0 = Some (cyc src 0 ?n)"
    using copy_cyc [OF assms(3)] by simp
  moreover have "cyc src 0 ?n = cyc src 0 (?n - 2) @ cyc src (?n - 2) 2"
    using cyc_add [of src 0 "?n - 2" 2] assms(6) by (metis add.left_neutral le_add_diff_inverse2)
  then have "take (?n - 2) (cyc src 0 ?n) = cyc src 0 (?n - 2)"
    by simp
  ultimately show ?thesis
    using assms append_crc_seals [of "t(p \<mapsto> cyc src 0 ?n)" p "cyc src 0 ?n"]
    by (simp add: sub_thread_do_create_def is_existed_def copy_file_def small_def)
qed

section \<open>Sizes\<close>

lemma half_le: "x div 2 \<le> x" for x :: u64
  by (simp add: word_le_nat_alt unat_div)

lemma auto_size_le: "auto_size f m x \<le> x"
proof (induction f m x rule: auto_size.induct)
  case (1 f m x)
  have "round_down (x div 2) KB \<le> x"
    using round_down_le [of "x div 2" KB] half_le by (rule order_trans)
  then show ?case
    using 1 by (subst auto_size.simps) (auto intro: order_trans)
qed

lemma auto_mode_le: "get_task_size_auto_mode f task \<le> f"
proof -
  have "auto_size f (min_free_bytes task) (round_down (f div 2) KB) \<le> f"
    using auto_size_le round_down_le half_le by (meson order_trans)
  then show ?thesis
    by (auto simp: get_task_size_auto_mode_def Let_def min.coboundedI1)
qed

lemma auto_mode_least: "get_task_size_auto_mode f task \<noteq> 0 \<Longrightarrow> 64 * KB \<le> get_task_size_auto_mode f task"
proof -
  define x where "x = min (auto_size f (min_free_bytes task) (round_down (f div 2) KB)) DEFAULT_AUTO_MODE_MAX_SIZE"
  have x: "get_task_size_auto_mode f task = (if x < 64 * KB then 0 else x)"
    by (simp only: get_task_size_auto_mode_def Let_def DEFAULT_AUTO_MODE_END_SIZE_def x_def)
  assume "get_task_size_auto_mode f task \<noteq> 0"
  then show ?thesis
    unfolding x by (auto simp: not_less split: if_splits)
qed

lemma auto_mode_most: "get_task_size_auto_mode f task \<le> 4 * GB"
  by (simp add: get_task_size_auto_mode_def Let_def DEFAULT_AUTO_MODE_MAX_SIZE_def)

lemma same_mode_le: "get_task_size_same_mode f task \<le> f"
  by (auto simp: get_task_size_same_mode_def)

lemma up_mode_le: "sz_begin task \<le> f \<Longrightarrow> get_task_size_up_mode f task \<le> f"
  by (auto simp: get_task_size_up_mode_def Let_def)

text \<open>The limit on the space that stays free, without wrap-around.\<close>

lemma free_after:
  fixes n f m r :: u64
  assumes "n \<le> f" "\<not> f - n < m" "r \<le> n"
  shows "unat r + unat m \<le> unat f"
proof -
  have "unat m \<le> unat f - unat n" "unat n \<le> unat f" "unat r \<le> unat n"
    using assms by (simp_all add: word_le_nat_alt not_less unat_sub)
  then show ?thesis
    by linarith
qed

lemma test_size_bound:
  assumes "get_test_size f task = (r, task')" "r \<noteq> 0" "mode task \<noteq> UP_MODE \<or> sz_begin task \<le> f"
  shows "unat r + unat (min_free_bytes task) \<le> unat f \<and> r \<le> get_max_file_size (sys task)"
proof -
  define n where "n = (case mode task of
      AUTO_MODE \<Rightarrow> get_task_size_auto_mode f task
    | SAME_MODE \<Rightarrow> get_task_size_same_mode f task
    | UP_MODE \<Rightarrow> get_task_size_up_mode f task)"
  have "n \<le> f"
    using assms(3) auto_mode_le same_mode_le up_mode_le by (auto simp: n_def split: run_mode.splits)
  moreover have "\<not> f - n < min_free_bytes task" "r = min n (get_max_file_size (sys task))"
    using assms(1,2) by (auto simp: get_test_size_def n_def Let_def split: if_splits run_mode.splits)
  ultimately show ?thesis
    using free_after [of n f "min_free_bytes task" r] by simp
qed

lemma test_size_auto:
  assumes "get_test_size f task = (r, task')" "mode task = AUTO_MODE" "64 * KB \<le> get_max_file_size (sys task)"
  shows "task' = task \<and> (r \<noteq> 0 \<longrightarrow> 64 * KB \<le> r \<and> r \<le> 4 * GB)"
  using assms auto_mode_least [of f task] auto_mode_most [of f task]
  by (auto simp: get_test_size_def Let_def min.coboundedI1 split: if_splits)

section \<open>Test files\<close>

text \<open>The paths the test uses, when they fit the shorter of the two buffers.\<close>

definition full_path :: "rwtask \<Rightarrow> nat \<Rightarrow> nat \<Rightarrow> cstr" where
  "full_path task num job = the (dir task) @ bytes_of ''/rwcheck.tmp.'' @ dec_of_nat num @
     (if jobs task = 1 then [] else bytes_of ''_'' @ dec_of_nat job)"

definition task_wf :: "rwtask \<Rightarrow> bool" where
  "task_wf task \<longleftrightarrow> (\<exists>d. dir task = Some d \<and> length d \<le> 60) \<and> 1 \<le> jobs task \<and> jobs task \<le> MAX_JOBS"

lemma full_path_length:
  assumes "task_wf task" "num \<le> INT_MAX" "job < nat (jobs task)"
  shows "length (full_path task num job) < 100"
proof -
  have "length (dec_of_nat num) \<le> 20" "length (dec_of_nat job) \<le> 2"
    using length_dec_of_nat [of num 20] length_dec_of_nat [of job 2] assms
    by (auto simp: task_wf_def MAX_JOBS_def INT_MAX_def)
  then show ?thesis
    using assms(1) by (auto simp: full_path_def task_wf_def bytes_of_def)
qed

lemma testfile_full:
  assumes "task_wf task" "num \<le> INT_MAX" "job < nat (jobs task)" "100 \<le> len"
  shows "testfile task len num job = full_path task num job"
  using full_path_length [OF assms(1-3)] assms(4) by (simp add: testfile_def full_path_def)

lemma dec_of_nat_inject [simp]: "dec_of_nat a = dec_of_nat b \<longleftrightarrow> a = b"
  using digits_val_dec_of_nat by metis

lemma digits_then: "takeWhile is_digit (dec_of_nat n @ c # r) = dec_of_nat n" if "\<not> is_digit c"
  using that dec_of_nat_digits by (simp add: takeWhile_append2)

lemma full_path_inject:
  assumes "job < nat (jobs task)" "job' < nat (jobs task)" "full_path task num job = full_path task num' job'"
  shows "num = num' \<and> job = job'"
proof (cases "jobs task = 1")
  case True
  then show ?thesis
    using assms by (simp add: full_path_def)
next
  case False
  then have eq: "dec_of_nat num @ 95 # dec_of_nat job = dec_of_nat num' @ 95 # dec_of_nat job'"
    using assms(3) by (simp add: full_path_def bytes_of_def)
  then have "dec_of_nat num = dec_of_nat num'"
    using digits_then [of 95 num "dec_of_nat job"] digits_then [of 95 num' "dec_of_nat job'"]
    by (simp add: is_digit_def word_le_nat_alt)
  then show ?thesis
    using eq by simp
qed

text \<open>The paths of the first rounds, and files that are all sealed.\<close>

definition test_paths :: "rwtask \<Rightarrow> nat \<Rightarrow> cstr set" where
  "test_paths task n = {full_path task i j | i j. i < n \<and> j < nat (jobs task)}"

definition sealed_at :: "tree \<Rightarrow> cstr \<Rightarrow> bool" where
  "sealed_at t p \<longleftrightarrow> (\<exists>d. t p = Some (sealed d) \<and> small (sealed d))"

text \<open>
  A tree that has the test files of \<open>n\<close> rounds, good ones, and no others, and is else as \<open>t0\<close>.
\<close>

definition rounds :: "rwtask \<Rightarrow> nat \<Rightarrow> tree \<Rightarrow> tree \<Rightarrow> bool" where
  "rounds task n t0 t \<longleftrightarrow>
     (\<forall>p. if p \<in> test_paths task n then sealed_at t p else t p = t0 p) \<and>
     (\<forall>i j. j < nat (jobs task) \<longrightarrow> t0 (full_path task i j) = None)"

lemma in_test_paths:
  "j < nat (jobs task) \<Longrightarrow> full_path task i j \<in> test_paths task n \<longleftrightarrow> i < n"
  using full_path_inject [of j task] by (auto simp: test_paths_def)

lemma rounds_old: "rounds task n t0 t \<Longrightarrow> i < n \<Longrightarrow> j < nat (jobs task) \<Longrightarrow> sealed_at t (full_path task i j)"
  using in_test_paths [of j task i n] by (metis rounds_def)

lemma rounds_new: "rounds task n t0 t \<Longrightarrow> n \<le> i \<Longrightarrow> j < nat (jobs task) \<Longrightarrow> t (full_path task i j) = None"
  using in_test_paths [of j task i n] by (metis rounds_def not_le)

section \<open>A file system that works\<close>

text \<open>
  A file that does not exceed the free space can be written; it uses up its size and at most \<open>ov\<close> bytes
  more; and files can be removed.
\<close>

definition rw_fs :: "rw_os \<Rightarrow> nat \<Rightarrow> bool" where
  "rw_fs e ov \<longleftrightarrow>
     (\<forall>t p n. n \<le> unat (free_flash e t) \<longrightarrow> room e t p n) \<and>
     (\<forall>t p c. t p = None \<longrightarrow> length c + ov \<le> unat (free_flash e t) \<longrightarrow>
        unat (free_flash e (t(p \<mapsto> c))) + length c \<le> unat (free_flash e t) \<and>
        unat (free_flash e t) \<le> unat (free_flash e (t(p \<mapsto> c))) + length c + ov) \<and>
     (\<forall>t p. removable e t p)"

lemma rw_fsD:
  assumes "rw_fs e ov"
  shows "n \<le> unat (free_flash e t) \<Longrightarrow> room e t p n"
    and "t p = None \<Longrightarrow> length c + ov \<le> unat (free_flash e t) \<Longrightarrow>
      unat (free_flash e (t(p \<mapsto> c))) + length c \<le> unat (free_flash e t)"
    and "t p = None \<Longrightarrow> length c + ov \<le> unat (free_flash e t) \<Longrightarrow>
      unat (free_flash e t) \<le> unat (free_flash e (t(p \<mapsto> c))) + length c + ov"
    and "removable e t p"
  using assms unfolding rw_fs_def by blast+

lemma run_threads_ok:
  assumes fs: "rw_fs e ov" and src: "src \<noteq> []" "sz_buf task \<noteq> 0" and b: "2 \<le> unat b" "unat b < 2 ^ 63"
  shows "distinct ps \<Longrightarrow> \<forall>p \<in> set ps. t p = None \<Longrightarrow> t (org task) = Some src \<Longrightarrow>
    length ps * (unat b + ov) \<le> unat (free_flash e t) \<Longrightarrow>
    \<exists>t'. run_threads e task b ps t = Some t' \<and> (\<forall>p. if p \<in> set ps then sealed_at t' p else t' p = t p) \<and>
      unat (free_flash e t') + length ps * unat b \<le> unat (free_flash e t)"
proof (induction ps arbitrary: t)
  case (Cons p ps)
  let ?c = "sealed (cyc src 0 (unat b - 2))"
  let ?t = "t(p \<mapsto> ?c)"
  have new: "t p = None" "org task \<noteq> p"
    using Cons.prems by auto
  have len: "length ?c = unat b"
    using b(1) by simp
  have fit: "unat b + ov \<le> unat (free_flash e t)"
    using Cons.prems(4) by simp
  have make: "sub_thread_do_create e task b p t = Some (0, ?t)"
    using create_file [OF new(1) Cons.prems(3) src _ b] rw_fsD(1) [OF fs] fit by simp
  have used: "unat (free_flash e ?t) + unat b \<le> unat (free_flash e t)"
    "unat (free_flash e t) \<le> unat (free_flash e ?t) + unat b + ov"
    using rw_fsD(2,3) [OF fs, of t p ?c, unfolded len] new(1) fit by blast+
  obtain t' where t': "run_threads e task b ps ?t = Some t'"
    "\<forall>q. if q \<in> set ps then sealed_at t' q else t' q = ?t q"
    "unat (free_flash e t') + length ps * unat b \<le> unat (free_flash e ?t)"
  proof -
    have "\<forall>q \<in> set ps. ?t q = None" "?t (org task) = Some src"
      using Cons.prems new(2) by auto
    moreover have "length ps * (unat b + ov) \<le> unat (free_flash e ?t)"
      using Cons.prems(4) used(2) by simp
    ultimately show ?thesis
      using Cons.IH [of ?t] Cons.prems(1) that by (metis distinct.simps(2))
  qed
  have "sealed_at t' p"
    using t'(2) Cons.prems(1) b(2) len by (auto simp: sealed_at_def small_def)
  then have "\<forall>q. if q \<in> set (p # ps) then sealed_at t' q else t' q = t q"
    using t'(2) by (metis fun_upd_other list.set_intros(2) set_ConsD list.set_intros(1))
  then show ?case
    using make t'(1,3) used(1) by auto
qed simp

text \<open>A task in automatic mode that is ready to run.\<close>

definition auto_task :: "nat \<Rightarrow> rwtask \<Rightarrow> bool" where
  "auto_task ov task \<longleftrightarrow> task_wf task \<and> mode task = AUTO_MODE \<and> sys_dir (sys task) \<noteq> None \<and>
     64 * KB \<le> get_max_file_size (sys task) \<and> sz_buf task \<noteq> 0 \<and>
     nat (jobs task) * ov \<le> unat (min_free_bytes task) \<and>
     org task = the (dir task) @ bytes_of ''/rwcheck.org'' \<and> \<not> set_org task"

lemma org_no_test_file: "auto_task ov task \<Longrightarrow> org task \<notin> test_paths task n"
  by (auto simp: auto_task_def test_paths_def full_path_def bytes_of_def)

lemma round_paths_full:
  assumes "task_wf task" "num \<le> INT_MAX"
  shows "round_paths task num = map (full_path task num) [0..<nat (jobs task)]" "distinct (round_paths task num)"
proof -
  show p: "round_paths task num = map (full_path task num) [0..<nat (jobs task)]"
    using testfile_full [OF assms] by (auto simp: round_paths_def)
  show "distinct (round_paths task num)"
    unfolding p using full_path_inject by (auto simp: distinct_map intro!: inj_onI)
qed

lemma test_paths_Suc:
  "test_paths task (Suc n) = test_paths task n \<union> full_path task n ` {0..<nat (jobs task)}"
  by (fastforce simp: test_paths_def less_Suc_eq)

lemma rounds_Suc:
  assumes "rounds task n t0 t" "\<forall>p. if p \<in> full_path task n ` {0..<nat (jobs task)} then sealed_at t' p else t' p = t p"
  shows "rounds task (Suc n) t0 t'"
proof -
  have "if p \<in> test_paths task (Suc n) then sealed_at t' p else t' p = t0 p" for p
    using assms unfolding rounds_def test_paths_Suc by (cases "p \<in> full_path task n ` {0..<nat (jobs task)}")
      (auto simp: sealed_at_def split: if_splits)
  then show ?thesis
    using assms(1) by (simp add: rounds_def)
qed

lemma jobs_word: "1 \<le> j \<Longrightarrow> j \<le> 10 \<Longrightarrow> unat (word_of_int j :: u64) = nat j"
  using unat_of_nat_64 [of "nat j"] by simp

lemma kb_unat: "unat (64 * KB) = 65536" "unat (4 * GB) = 4294967296"
  by (simp_all add: KB_def MB_def GB_def)

text \<open>The share of a round's size that each thread writes.\<close>

lemma job_size:
  assumes "task_wf task" "64 * KB \<le> r" "r \<le> 4 * GB"
  shows "2 \<le> unat (r div word_of_int (jobs task))" "unat (r div word_of_int (jobs task)) < 2 ^ 63"
    "nat (jobs task) * unat (r div word_of_int (jobs task)) \<le> unat r"
    "32768 \<le> nat (jobs task) * unat (r div word_of_int (jobs task))"
proof -
  let ?j = "nat (jobs task)"
  have j: "1 \<le> ?j" "?j \<le> 10"
    using assms(1) by (auto simp: task_wf_def MAX_JOBS_def)
  have d: "unat (r div word_of_int (jobs task)) = unat r div ?j"
    using assms(1) by (simp add: unat_div jobs_word task_wf_def MAX_JOBS_def)
  have r: "65536 \<le> unat r" "unat r \<le> 4294967296"
    using assms(2,3) kb_unat by (simp_all add: word_le_nat_alt)
  have "65536 div ?j \<le> unat r div ?j" "65536 div 10 \<le> (65536 :: nat) div ?j"
    using r(1) j div_le_mono2 [of ?j 10 65536] by (auto intro: div_le_mono)
  then show "2 \<le> unat (r div word_of_int (jobs task))"
    unfolding d by simp
  have "unat r div ?j \<le> 4294967296"
    using r(2) by (rule order_trans [OF div_le_dividend])
  then show "unat (r div word_of_int (jobs task)) < 2 ^ 63"
    unfolding d by (rule le_less_trans) simp
  show "?j * unat (r div word_of_int (jobs task)) \<le> unat r"
    unfolding d by (simp add: mult.commute)
  have "unat r = ?j * (unat r div ?j) + unat r mod ?j" "unat r mod ?j < 10"
    using j by (simp_all add: less_le_trans [OF mod_less_divisor])
  then show "32768 \<le> ?j * unat (r div word_of_int (jobs task))"
    unfolding d using r(1) by linarith
qed

lemma auto_taskD:
  assumes "auto_task ov task"
  shows "task_wf task" "mode task = AUTO_MODE" "64 * KB \<le> get_max_file_size (sys task)" "sz_buf task \<noteq> 0"
    "nat (jobs task) * ov \<le> unat (min_free_bytes task)" "get_free_flash e t (sys task) = free_flash e t"
    "org task = the (dir task) @ bytes_of ''/rwcheck.org''" "\<not> set_org task"
  using assms by (auto simp: auto_task_def get_free_flash_def)

text \<open>One round of threads, for a size that the test has chosen.\<close>

lemma round_ok:
  assumes fs: "rw_fs e ov" and task: "auto_task ov task" and src: "src \<noteq> []" "t (org task) = Some src"
    and r: "get_test_size (free_flash e t) task = (r, task')" "r \<noteq> 0"
    and rounds: "rounds task num t0 t" "num \<le> INT_MAX"
  shows "\<exists>t'. run_threads e task (r div word_of_int (jobs task)) (round_paths task num) t = Some t' \<and>
    rounds task (Suc num) t0 t' \<and> t' (org task) = Some src \<and>
    unat (free_flash e t') + 32768 \<le> unat (free_flash e t)"
proof -
  let ?b = "r div word_of_int (jobs task)" and ?ps = "round_paths task num"
  note wf = auto_taskD [OF task]
  note ps = round_paths_full [OF wf(1) rounds(2)]
  have "64 * KB \<le> r" "r \<le> 4 * GB"
    using test_size_auto [OF r(1) wf(2,3)] r(2) by simp_all
  note b = job_size [OF wf(1) this]
  have fresh: "\<forall>p \<in> set ?ps. t p = None"
    using rounds_new [OF rounds(1)] by (auto simp: ps(1))
  have "unat r + unat (min_free_bytes task) \<le> unat (free_flash e t)"
    using test_size_bound [OF r] wf(2) by simp
  then have "length ?ps * (unat ?b + ov) \<le> unat (free_flash e t)"
    using wf(5) b(3) by (simp add: ps(1) distrib_left)
  then obtain t' where t': "run_threads e task ?b ?ps t = Some t'"
    "\<forall>p. if p \<in> set ?ps then sealed_at t' p else t' p = t p"
    "unat (free_flash e t') + length ?ps * unat ?b \<le> unat (free_flash e t)"
    using run_threads_ok [OF fs src(1) wf(4) b(1,2) ps(2) fresh src(2)] by blast
  have "rounds task (Suc num) t0 t'"
    using rounds_Suc [OF rounds(1)] t'(2) by (simp add: ps(1) atLeast0LessThan)
  moreover from this have "t' (org task) = Some src"
    using rounds(1) org_no_test_file [OF task] src(2) by (metis rounds_def)
  ultimately show ?thesis
    using t'(1,3) b(4) by (auto simp: ps(1))
qed

text \<open>The rounds go on until the test has no more room.\<close>

lemma create_loop_ok:
  assumes fs: "rw_fs e ov" and task: "auto_task ov task" and src: "src \<noteq> []"
  shows "rounds task num t0 t \<Longrightarrow> t (org task) = Some src \<Longrightarrow> num * 32768 + unat (free_flash e t) < 2 ^ 46 \<Longrightarrow>
    \<exists>n t'. create_loop e num task t = Some (0, task, t') \<and> rounds task n t0 t' \<and> n \<le> INT_MAX \<and>
      fst (get_test_size (free_flash e t') task) = 0"
proof (induction "unat (free_flash e t)" arbitrary: num t rule: less_induct)
  case less
  note wf = auto_taskD [OF task]
  obtain r task' where r: "get_test_size (free_flash e t) task = (r, task')"
    by (cases "get_test_size (free_flash e t) task") auto
  have same: "task' = task"
    using test_size_auto [OF r wf(2,3)] by simp
  have num: "num \<le> INT_MAX"
    using less.prems(3) by (simp add: INT_MAX_def)
  show ?case
  proof (cases "r = 0")
    case True
    then show ?thesis
      using r same wf(6) less.prems num by (subst create_loop.simps) auto
  next
    case False
    obtain t' where t': "run_threads e task (r div word_of_int (jobs task)) (round_paths task num) t = Some t'"
      "rounds task (Suc num) t0 t'" "t' (org task) = Some src" "unat (free_flash e t') + 32768 \<le> unat (free_flash e t)"
      using round_ok [OF fs task src less.prems(2) r False less.prems(1) num] by blast
    obtain n t'' where n: "create_loop e (Suc num) task t' = Some (0, task, t'')" "rounds task n t0 t''"
      "n \<le> INT_MAX" "fst (get_test_size (free_flash e t'') task) = 0"
      using less.hyps [OF _ t'(2,3)] less.prems(3) t'(4) by auto
    have "\<not> list_ex (is_existed t) (round_paths task num)"
      using rounds_new [OF less.prems(1)] round_paths_full(1) [OF wf(1) num]
      by (auto simp: list_ex_iff is_existed_def)
    moreover have "num \<noteq> INT_MAX"
      using less.prems(3) t'(4) by (auto simp: INT_MAX_def)
    ultimately have "create_loop e num task t = Some (0, task, t'')"
      using r same wf(6) False t'(1) n(1) by (subst create_loop.simps) auto
    then show ?thesis
      using n(2-4) by blast
  qed
qed

section \<open>Checking and removing\<close>

text \<open>Whether a file passes the check.\<close>

definition file_ok :: "tree \<Rightarrow> cstr \<Rightarrow> bool" where
  "file_ok t p \<longleftrightarrow> (case get_crc16_by_path t p CRC16_MAX_BYTES of None \<Rightarrow> False | Some crc \<Rightarrow> check_crc16 crc)"

lemma file_ok_sealed: "t p = Some (sealed d) \<Longrightarrow> small (sealed d) \<Longrightarrow> file_ok t p"
  using sealed_checks [of t p d] by (auto simp: file_ok_def)

lemma file_ok_small: "t p = Some c \<Longrightarrow> small c \<Longrightarrow> file_ok t p \<longleftrightarrow> check_crc16 (crc16_end (crc16_common CRC_INIT c))"
  by (simp add: file_ok_def crc_of_file)

lemma burst_found:
  assumes "t p = Some (pre @ x @ post)" "small (pre @ x @ post)" "file_ok t p" "t' p = Some (pre @ y @ post)"
    and "length x = length y" "length x \<le> 2" "x \<noteq> y"
  shows "\<not> file_ok t' p"
proof -
  have "small (pre @ y @ post)"
    using assms(2,5) by (simp add: small_def)
  then show ?thesis
    using file_ok_small [of t p] file_ok_small [of t' p] crc16_burst [OF assms(5-7)] assms(1-4) by simp
qed

text \<open>The files of \<open>n\<close> rounds, and no others.\<close>

definition complete :: "rwtask \<Rightarrow> nat \<Rightarrow> tree \<Rightarrow> bool" where
  "complete task n t \<longleftrightarrow> (\<forall>i j. j < nat (jobs task) \<longrightarrow>
     (if i < n then \<exists>c. t (full_path task i j) = Some c \<and> small c else t (full_path task i j) = None))"

lemma check_jobs_verdict:
  assumes "task_wf task" "complete task n t" "i < n" "n \<le> INT_MAX"
  shows "\<forall>j \<in> set js. j < nat (jobs task) \<Longrightarrow> check_jobs task t i js =
    (if Suc i < n \<and> (\<exists>j \<in> set js. \<not> file_ok t (full_path task i j)) then Some (-1, None) else None)"
proof (induction js)
  case (Cons j js)
  then have j: "j < nat (jobs task)"
    by simp
  have path: "testfile task 128 i j = full_path task i j" "testfile task 128 (Suc i) j = full_path task (Suc i) j"
    using testfile_full [OF assms(1) _ j, of _ 128] assms(3,4) by simp_all
  have next_round: "is_file t (full_path task (Suc i) j) \<longleftrightarrow> Suc i < n"
    using assms(2) j unfolding complete_def is_file_def by (metis option.distinct(1))
  obtain c where c: "t (full_path task i j) = Some c" "small c"
    using assms(2,3) j unfolding complete_def by metis
  then have "is_file t (full_path task i j)"
    by (simp add: is_file_def)
  then show ?case
    using Cons crc_of_file [of t "full_path task i j" c] c by (auto simp: path next_round Let_def file_ok_def)
qed simp

lemma check_loop_verdict:
  assumes "task_wf task" "complete task n t" "n \<le> INT_MAX"
  shows "i \<le> n \<Longrightarrow> check_loop task t i = Some
    (if \<forall>k j. i \<le> k \<and> Suc k < n \<and> j < nat (jobs task) \<longrightarrow> file_ok t (full_path task k j)
     then (0, Some n) else (-1, None))"
proof (induction "n - i" arbitrary: i)
  case 0
  then have "i = n"
    by simp
  obtain js where js: "[0..<nat (jobs task)] = 0 # js" "0 < nat (jobs task)"
    using assms(1) upt_conv_Cons [of 0 "nat (jobs task)"] by (auto simp: task_wf_def)
  then have "\<not> is_file t (testfile task 128 n 0)"
    using testfile_full [OF assms(1,3), of 0 128] assms(2) by (auto simp: is_file_def complete_def)
  then show ?case
    using \<open>i = n\<close> js(1) by (subst check_loop.simps) auto
next
  case (Suc m)
  let ?bad = "\<lambda>k. \<exists>j < nat (jobs task). \<not> file_ok t (full_path task k j)"
  have i: "i < n" "i \<noteq> INT_MAX"
    using Suc.hyps(2) assms(3) by auto
  have jobs: "check_jobs task t i [0..<nat (jobs task)] = (if Suc i < n \<and> ?bad i then Some (-1, None) else None)"
    using check_jobs_verdict [OF assms(1,2) i(1) assms(3)] by auto
  have rest: "(\<forall>k j. i \<le> k \<and> Suc k < n \<and> j < nat (jobs task) \<longrightarrow> file_ok t (full_path task k j)) \<longleftrightarrow>
      \<not> (Suc i < n \<and> ?bad i) \<and>
      (\<forall>k j. Suc i \<le> k \<and> Suc k < n \<and> j < nat (jobs task) \<longrightarrow> file_ok t (full_path task k j))"
    by (metis Suc_leI le_eq_less_or_eq order_refl Suc_le_lessD)
  show ?case
    unfolding rest using jobs i Suc.hyps(1) [of "Suc i"] Suc.hyps(2) by (subst check_loop.simps) auto
qed

lemma check_verdict:
  assumes "task_wf task" "complete task n t" "n \<le> INT_MAX"
  shows "do_check task t = Some
    (if \<forall>k j. Suc k < n \<and> j < nat (jobs task) \<longrightarrow> file_ok t (full_path task k j)
     then (0, task\<lparr>count := n\<rparr>) else (-1, task))"
  using check_loop_verdict [OF assms, of 0] by (simp add: do_check_def)

lemma check_rounds:
  assumes "task_wf task" "rounds task n t0 t" "n \<le> INT_MAX"
  shows "do_check task t = Some (0, task\<lparr>count := n\<rparr>)"
proof -
  have "complete task n t"
    using rounds_old [OF assms(2)] rounds_new [OF assms(2)] by (fastforce simp: complete_def sealed_at_def)
  moreover have "file_ok t (full_path task k j)" if "Suc k < n" "j < nat (jobs task)" for k j
    using rounds_old [OF assms(2), of k j] that file_ok_sealed by (auto simp: sealed_at_def)
  ultimately show ?thesis
    using check_verdict [OF assms(1) _ assms(3)] by simp
qed

lemma remove_jobs_ok:
  assumes "task_wf task" "i \<le> INT_MAX" "rw_fs e ov"
  shows "distinct js \<Longrightarrow> \<forall>j \<in> set js. j < nat (jobs task) \<and> t (full_path task i j) \<noteq> None \<Longrightarrow>
    remove_jobs e task i js t = (Inr (), \<lambda>p. if p \<in> full_path task i ` set js then None else t p)"
proof (induction js arbitrary: t)
  case (Cons j js)
  let ?p = "full_path task i j"
  have p: "testfile task 100 i j = ?p" "t ?p \<noteq> None"
    using testfile_full [OF assms(1,2), of j 100] Cons.prems by auto
  have other: "full_path task i k \<noteq> ?p" if "k \<in> set js" for k
    using that Cons.prems full_path_inject [of k task j i i] by auto
  have "remove_jobs e task i js (t(?p := None)) =
      (Inr (), \<lambda>q. if q \<in> full_path task i ` set js then None else (t(?p := None)) q)"
    using Cons.prems other by (intro Cons.IH) auto
  then show ?case
    using p rw_fsD(4) [OF assms(3)] by (auto simp: Let_def is_existed_def)
qed simp

lemma remove_loop_ok:
  assumes "task_wf task" "rw_fs e ov"
  shows "rounds task n t0 t \<Longrightarrow> n \<le> INT_MAX \<Longrightarrow> remove_loop e task n t = (None, t0)"
proof (induction n arbitrary: t)
  case 0
  then have "t = t0"
    by (auto simp: rounds_def test_paths_def)
  then show ?case
    by simp
next
  case (Suc n)
  let ?t = "\<lambda>p. if p \<in> full_path task n ` set [0..<nat (jobs task)] then None else t p"
  have "\<forall>j \<in> set [0..<nat (jobs task)]. j < nat (jobs task) \<and> t (full_path task n j) \<noteq> None"
    using rounds_old [OF Suc.prems(1), of n] by (fastforce simp: sealed_at_def)
  then have "remove_jobs e task n [0..<nat (jobs task)] t = (Inr (), ?t)"
    using Suc.prems(2) by (intro remove_jobs_ok [OF assms(1) _ assms(2)]) simp_all
  moreover have "rounds task n t0 ?t"
  proof -
    have "if p \<in> test_paths task n then sealed_at ?t p else ?t p = t0 p" for p
    proof (cases "p \<in> full_path task n ` {0..<nat (jobs task)}")
      case True
      then have "p \<notin> test_paths task n" "t0 p = None"
        using Suc.prems(1) in_test_paths [of _ task n n] by (auto simp: rounds_def)
      then show ?thesis
        using True by (simp add: atLeast0LessThan)
    next
      case False
      then show ?thesis
        using Suc.prems(1) unfolding rounds_def test_paths_Suc by (auto simp: sealed_at_def split: if_splits)
    qed
    then show ?thesis
      using Suc.prems(1) unfolding rounds_def by blast
  qed
  ultimately show ?case
    using Suc.IH [of ?t] Suc.prems(2) by simp
qed

section \<open>One turn\<close>

text \<open>The flash has room for the origin file, and no origin or test file.\<close>

definition ready :: "rw_os \<Rightarrow> nat \<Rightarrow> rwtask \<Rightarrow> tree \<Rightarrow> bool" where
  "ready e ov task t \<longleftrightarrow> rw_fs e ov \<and> auto_task ov task \<and> t (org task) = None \<and> (\<forall>t. random_data e t \<noteq> []) \<and>
     unat (min_free_bytes task) + 65536 + ov < unat (free_flash e t) \<and> unat (free_flash e t) < 2 ^ 46"

lemma readyD:
  assumes "ready e ov task t"
  shows "rw_fs e ov" "auto_task ov task" "t (org task) = None" "random_data e t \<noteq> []"
    "unat (min_free_bytes task) + 65536 + ov < unat (free_flash e t)" "unat (free_flash e t) < 2 ^ 46"
  using assms by (simp_all add: ready_def)

lemma init_ready:
  assumes "ready e ov task t"
  shows "\<exists>c. c \<noteq> [] \<and> init_orgin_file e task t = Some (0, t(org task \<mapsto> c)) \<and>
    unat (free_flash e (t(org task \<mapsto> c))) < 2 ^ 46 \<and> min_free_bytes task < free_flash e (t(org task \<mapsto> c))"
proof -
  note r = readyD [OF assms]
  let ?c = "cyc (random_data e t) 0 65536"
  have sizes: "unat DEFAULT_ORG_SIZE = 65536" "unat (4 * KB) = 4096"
    by (simp_all add: DEFAULT_ORG_SIZE_def KB_def)
  have "copy_loop (random_data e t) 4096 65536 0 = Some ?c"
    using copy_cyc [OF r(4), of 4096 0 65536] by simp
  moreover have "room e t (org task) 65536"
    using rw_fsD(1) [OF r(1)] r(5) by simp
  ultimately have "init_orgin_file e task t = Some (0, t(org task \<mapsto> ?c))"
    using auto_taskD(7,8) [OF r(2)] r(3)
    by (simp add: init_orgin_file_def is_existed_def copy_file_def sizes bytes_of_def)
  moreover have "unat (free_flash e (t(org task \<mapsto> ?c))) \<le> unat (free_flash e t)"
    "unat (free_flash e t) \<le> unat (free_flash e (t(org task \<mapsto> ?c))) + 65536 + ov"
    using rw_fsD(2,3) [OF r(1), of t "org task" ?c] r(3,5) by simp_all
  moreover have "?c \<noteq> []"
    using length_cyc [of "random_data e t" 0 65536] by fastforce
  ultimately show ?thesis
    using r(5,6) by (intro exI [of _ ?c]) (auto simp: word_less_nat_alt)
qed

lemma deinit_ready: "ready e ov task t \<Longrightarrow> deinit_orgin_file e (task\<lparr>count := n\<rparr>) (t(org task \<mapsto> c)) = (0, t)"
  using readyD [of e ov task t] auto_taskD(8) rw_fsD(4) by (auto simp: deinit_orgin_file_def)

lemma remove_count:
  "remove_jobs e (task\<lparr>count := m\<rparr>) i js t = remove_jobs e task i js t"
  "remove_loop e (task\<lparr>count := m\<rparr>) n t = remove_loop e task n t"
proof -
  have path: "testfile (task\<lparr>count := m\<rparr>) = testfile task"
    by (intro ext) (simp add: testfile_def)
  show jobs: "remove_jobs e (task\<lparr>count := m\<rparr>) i js t = remove_jobs e task i js t" for i js t
    by (induction js arbitrary: t) (simp_all add: path Let_def)
  show "remove_loop e (task\<lparr>count := m\<rparr>) n t = remove_loop e task n t"
    by (induction n arbitrary: t) (auto simp: jobs split: prod.splits sum.splits)
qed

text \<open>The turn leaves everything as it was.\<close>

lemma turn_ok:
  assumes "ready e ov task t" "\<forall>i j. j < nat (jobs task) \<longrightarrow> t (full_path task i j) = None"
  shows "\<exists>n. begin_turn e task t = Some (0, task\<lparr>count := n\<rparr>, t)"
proof -
  note r = readyD [OF assms(1)]
  note wf = auto_taskD [OF r(2)]
  obtain c where c: "c \<noteq> []" "init_orgin_file e task t = Some (0, t(org task \<mapsto> c))"
    "unat (free_flash e (t(org task \<mapsto> c))) < 2 ^ 46" "min_free_bytes task < free_flash e (t(org task \<mapsto> c))"
    using init_ready [OF assms(1)] by blast
  let ?t = "t(org task \<mapsto> c)"
  have "full_path task i j \<noteq> org task" if "j < nat (jobs task)" for i j
    using org_no_test_file [OF r(2), of "Suc i"] in_test_paths [OF that, of i "Suc i"] by auto
  then have "rounds task 0 ?t ?t"
    using assms(2) by (simp add: rounds_def test_paths_def)
  then obtain n t' where n: "create_loop e 0 task ?t = Some (0, task, t')" "rounds task n ?t t'" "n \<le> INT_MAX"
    using create_loop_ok [OF r(1,2) c(1)] c(3) by fastforce
  have "do_remove e (task\<lparr>count := n\<rparr>) t' = (0, ?t)"
    using remove_loop_ok [OF wf(1) r(1) n(2,3)] wf(6) c(4) by (simp add: do_remove_def remove_count)
  then show ?thesis
    using c(2) n(1) wf(2) check_rounds [OF wf(1) n(2,3)] deinit_ready [OF assms(1), of n c]
    by (auto simp: begin_turn_def do_create_def)
qed

text \<open>
  A file that an earlier run left behind, with more than one job: nothing is created, and the check finds
  no complete round.
\<close>

lemma turn_leftover:
  assumes "ready e ov task t" "2 \<le> jobs task" "sealed_at t (full_path task 0 0)" "t (full_path task 0 1) = None"
    and "\<forall>t. cancelled e t [] = t"
  shows "begin_turn e task t = Some (0, task\<lparr>count := 0\<rparr>, t)"
proof -
  note r = readyD [OF assms(1)]
  note wf = auto_taskD [OF r(2)]
  obtain c where c: "init_orgin_file e task t = Some (0, t(org task \<mapsto> c))"
    "min_free_bytes task < free_flash e (t(org task \<mapsto> c))"
    using init_ready [OF assms(1)] by blast
  let ?t = "t(org task \<mapsto> c)"
  obtain js where js: "[0..<nat (jobs task)] = 0 # 1 # js" "1 < nat (jobs task)"
    using assms(2) upt_conv_Cons [of 0 "nat (jobs task)"] upt_conv_Cons [of 1 "nat (jobs task)"] by auto
  have org: "full_path task 0 j \<noteq> org task" if "j < nat (jobs task)" for j
    using org_no_test_file [OF r(2), of 1] in_test_paths [OF that, of 0 1] by auto
  have path: "testfile task 128 0 0 = full_path task 0 0" "testfile task 128 0 1 = full_path task 0 1"
    using testfile_full [OF wf(1), of 0 _ 128] js(2) by simp_all
  obtain d where d: "?t (full_path task 0 0) = Some (sealed d)" "small (sealed d)" "?t (full_path task 0 1) = None"
    using assms(3,4) org [of 0] org [of 1] js(2) by (auto simp: sealed_at_def)
  obtain s where s: "get_test_size (free_flash e ?t) task = (s, task)"
    using test_size_auto [OF _ wf(2,3), of "free_flash e ?t"] by (metis surj_pair)
  obtain ps where "round_paths task 0 = full_path task 0 0 # ps" "is_existed ?t (full_path task 0 0)"
    using d(1) by (simp add: round_paths_def js(1) path is_existed_def)
  then have "do_create e task ?t = Some (0, task, ?t)"
    using s wf(2,6) assms(5) by (simp add: do_create_def create_loop.simps Let_def)
  moreover have "check_jobs task ?t 0 [0..<nat (jobs task)] = Some (0, Some 0)"
    using sealed_checks [of ?t "full_path task 0 0" d] d by (auto simp: js(1) path is_file_def simp del: One_nat_def)
  then have "do_check task ?t = Some (0, task\<lparr>count := 0\<rparr>)"
    by (simp add: do_check_def check_loop.simps)
  ultimately show ?thesis
    using c wf(6) deinit_ready [OF assms(1), of 0 c] by (simp add: begin_turn_def do_remove_def)
qed

text \<open>The count of the last turn does not matter to the next.\<close>

lemma count_irrelevant [simp]:
  "full_path (task\<lparr>count := m\<rparr>) = full_path task"
  "ready e ov (task\<lparr>count := m\<rparr>) t = ready e ov task t"
  by (intro ext) (simp_all add: full_path_def ready_def auto_task_def task_wf_def)

lemma loop_same:
  assumes "\<And>m. \<exists>n. begin_turn e (task\<lparr>count := m\<rparr>) t = Some (0, task\<lparr>count := n\<rparr>, t)"
  shows "\<exists>n. begin_loop e k (task\<lparr>count := m\<rparr>) t = Some (0, task\<lparr>count := n\<rparr>, t)"
proof (induction k arbitrary: m)
  case (Suc k)
  obtain n where "begin_turn e (task\<lparr>count := m\<rparr>) t = Some (0, task\<lparr>count := n\<rparr>, t)"
    using assms by blast
  then show ?case
    using Suc [of n] by simp
qed auto

lemma loop_passes:
  assumes "ready e ov task t" "\<forall>i j. j < nat (jobs task) \<longrightarrow> t (full_path task i j) = None"
  shows "\<exists>n. begin_loop e k task t = Some (0, task\<lparr>count := n\<rparr>, t)"
proof -
  have "\<exists>n. begin_turn e (task\<lparr>count := m\<rparr>) t = Some (0, task\<lparr>count := n\<rparr>, t)" for m
    using turn_ok [of e ov "task\<lparr>count := m\<rparr>" t] assms by simp
  from loop_same [OF this, of k "count task"] show ?thesis
    by simp
qed

section \<open>The program\<close>

text \<open>
  A system on which the arguments are in order: the current directory has a short path, its file system
  has a size, there is memory for the buffer, and the random numbers do not run dry.
\<close>

definition buf_size_of :: "rw_os \<Rightarrow> u64" where
  "buf_size_of e = (if DEFAULT_BUF_SIZE_DDR_LIMIT < get_total_mem e then DEFAULT_LARGE_BUF_SIZE
     else DEFAULT_SMALL_BUF_SIZE)"

definition default_os :: "rw_os \<Rightarrow> cstr \<Rightarrow> bool" where
  "default_os e d \<longleftrightarrow> dirs e (bytes_of ''.'') = Some d \<and> dirs e d = Some d \<and> length d \<le> 60 \<and>
     flash_size e d \<noteq> 0 \<and> get_total_mem e \<noteq> 0 \<and> buf_size_of e < get_free_mem e * 60 div 100 \<and>
     (\<forall>t. random_data e t \<noteq> [])"

definition reserve :: "rw_os \<Rightarrow> cstr \<Rightarrow> u64" where
  "reserve e d = 5 * flash_size e d div 100"

definition fs_limit :: "rw_os \<Rightarrow> cstr \<Rightarrow> u64" where
  "fs_limit e d = (if fs_magic e d = FS_MSDOS_MAGIC then FAT_MAX_SIZE else FILE_SIZE_UNLIMITED)"

definition default_sys :: "rw_os \<Rightarrow> cstr \<Rightarrow> sys_info" where
  "default_sys e d = \<lparr>total_ddr = get_total_mem e, free_ddr = get_free_mem e, total_flash = flash_size e d,
     fs_max = Some (fs_limit e d), sys_dir = Some d\<rparr>"

definition default_task :: "rw_os \<Rightarrow> cstr \<Rightarrow> int \<Rightarrow> int \<Rightarrow> rwtask" where
  "default_task e d k j = \<lparr>sys = default_sys e d, mode = AUTO_MODE, min_free_bytes = reserve e d, dir = Some d,
     org = d @ bytes_of ''/rwcheck.org'', set_org = False, jobs = j, percent = 95, times = word_of_int k,
     count = 0, sz_begin = 0, sz_end = 0, sz_cur = 0, sz_buf = buf_size_of e\<rparr>"

definition no_test_files :: "cstr \<Rightarrow> tree \<Rightarrow> bool" where
  "no_test_files d t \<longleftrightarrow> (\<forall>s. t (d @ bytes_of ''/rwcheck.'' @ s) = None)"

lemma fs_limit_large: "64 * KB \<le> fs_limit e d"
  by (simp add: fs_limit_def FAT_MAX_SIZE_def FILE_SIZE_UNLIMITED_def KB_def MB_def GB_def mask_eq_exp_minus_1)

lemma default_auto:
  assumes "default_os e d" "1 \<le> j" "j \<le> 10" "nat j * ov \<le> unat (reserve e d)"
  shows "auto_task ov (default_task e d k j)"
proof -
  have "buf_size_of e \<noteq> 0"
    by (simp add: buf_size_of_def DEFAULT_LARGE_BUF_SIZE_def DEFAULT_SMALL_BUF_SIZE_def KB_def MB_def)
  then show ?thesis
    using assms fs_limit_large
    by (simp add: auto_task_def default_task_def default_sys_def task_wf_def MAX_JOBS_def default_os_def
        get_max_file_size_def)
qed

lemma no_test_paths: "no_test_files d t \<Longrightarrow> t (full_path (default_task e d k j) i l) = None"
proof -
  assume "no_test_files d t"
  moreover have "\<exists>s. full_path (default_task e d k j) i l = d @ bytes_of ''/rwcheck.'' @ s"
    by (simp add: full_path_def default_task_def bytes_of_def)
  ultimately show ?thesis
    by (metis no_test_files_def)
qed

lemma no_origin: "no_test_files d t \<Longrightarrow> t (org (default_task e d k j)) = None"
proof -
  assume "no_test_files d t"
  moreover have "\<exists>s. org (default_task e d k j) = d @ bytes_of ''/rwcheck.'' @ s"
    by (simp add: default_task_def bytes_of_def)
  ultimately show ?thesis
    by (metis no_test_files_def)
qed

lemma default_update:
  assumes "default_os e d"
  shows "update_sys_info e \<lparr>total_ddr = 0, free_ddr = 0, total_flash = 0, fs_max = None, sys_dir = None\<rparr> (Some d) =
      (0, default_sys e d)"
    and "update_sys_info e (default_sys e d) (Some d) = (0, default_sys e d)"
proof -
  have "get_free_mem e \<noteq> 0"
    using assms by (auto simp: default_os_def)
  then show "update_sys_info e \<lparr>total_ddr = 0, free_ddr = 0, total_flash = 0, fs_max = None, sys_dir = None\<rparr> (Some d) =
      (0, default_sys e d)" "update_sys_info e (default_sys e d) (Some d) = (0, default_sys e d)"
    using assms by (simp_all add: update_sys_info_def default_os_def default_sys_def get_total_flash_def get_fs_def
        fs_limit_def)
qed

text \<open>The arguments \<open>-t k -j j\<close>.\<close>

lemma default_args:
  assumes "default_os e d" "1 \<le> k" "k < 2 ^ 31" "1 \<le> j" "j \<le> 10"
  shows "rwcheck_main e [Opt_t (dec_of_int k), Opt_j (dec_of_int j)] t =
    map_option (\<lambda>(ret, _, t). (ret, t)) (begin_loop e (nat k) (default_task e d k j) t)"
proof -
  let ?init = "(default_task e d 1 1)\<lparr>min_free_bytes := 0, org := []\<rparr>"
  let ?parsed = "(default_task e d k j)\<lparr>min_free_bytes := 0, org := []\<rparr>"
  have init: "init_rwtask e = Some ?init"
    using default_update(1) [OF assms(1)] assms(1)
    by (simp add: init_rwtask_def default_os_def default_task_def buf_size_of_def default_sys_def)
  have k: "unat (word_of_int k :: u32) = nat k"
    using assms(2,3) by (simp add: unsigned_of_int take_bit_int_eq_self)
  then have "(word_of_int k :: u32) \<noteq> 0"
    using assms(2) by auto
  then have parse: "parse_args e t ?init [Opt_t (dec_of_int k), Opt_j (dec_of_int j)] = Some (Inr ?parsed)"
    using assms atol_dec_of_int [of k] atol_dec_of_int [of j] by (simp add: Let_def MAX_JOBS_def default_task_def)
  have "buf_size_of e < 16 * MB"
    by (simp add: buf_size_of_def DEFAULT_LARGE_BUF_SIZE_def DEFAULT_SMALL_BUF_SIZE_def KB_def MB_def)
  moreover have "length (d @ bytes_of ''/rwcheck.org'') \<le> MAX_PATH_LEN - 1"
    using assms(1) by (simp add: default_os_def bytes_of_def MAX_PATH_LEN_def)
  ultimately have "check_args e t ?parsed = Inr (default_task e d k j)"
    using default_update(2) [OF assms(1)] assms(1)
    by (simp add: check_args_def default_task_def default_os_def default_sys_def reserve_def not_le Let_def)
  then show ?thesis
    using init parse k by (simp add: rwcheck_main_def default_task_def)
qed

end
