(* ===== verification/Rw_Properties.thy ===== *)
theory Rw_Properties
  imports Rw_Laws
begin

text \<open>
  The properties of \<open>rwcheck\<close>: a test file and its checksum, the verdict of the check, the sizes, and
  whole runs, each with a witness.
\<close>

section \<open>A system for the witnesses\<close>

text \<open>A flash of a megabyte, of which the files use up what they hold.\<close>

definition held :: "tree \<Rightarrow> nat" where
  "held t = (if finite (dom t) then \<Sum>p \<in> dom t. length (the (t p)) else 1048576)"

definition sample_meminfo :: cstr where
  "sample_meminfo = bytes_of ''MemTotal:   65536 kB MemFree:   32768 kB''"


definition sample_os :: rw_os where
  "sample_os = \<lparr>free_flash = (\<lambda>t. of_nat (1048576 - held t)), room = (\<lambda>t _ n. n \<le> 1048576 - held t),
     torn = (\<lambda>_ _ _. None), cancelled = (\<lambda>t _. t), random_data = (\<lambda>_. [1, 2, 3]), removable = (\<lambda>_ _. True),
     dirs = Some, fs_magic = (\<lambda>_. 0xEF53), flash_size = (\<lambda>_. 1048576),
     meminfo = Some sample_meminfo\<rparr>"

definition sample_task :: "int \<Rightarrow> rwtask" where
  "sample_task j = \<lparr>sys = \<lparr>total_ddr = 67108864, free_ddr = 33554432, total_flash = 1048576,
       fs_max = Some FILE_SIZE_UNLIMITED, sys_dir = Some (bytes_of ''/mnt'')\<rparr>,
     mode = AUTO_MODE, min_free_bytes = 52428, dir = Some (bytes_of ''/mnt''), org = bytes_of ''/mnt/rwcheck.org'',
     set_org = False, jobs = j, percent = 95, times = 1, count = 0, sz_begin = 0, sz_end = 0, sz_cur = 0,
     sz_buf = 8388608\<rparr>"

lemma sample_jobs [simp]: "jobs (sample_task j) = j"
  by (simp add: sample_task_def)

lemma sample_free: "unat (free_flash sample_os t) = 1048576 - held t"
  using unat_of_nat_64 [of "1048576 - held t"] by (simp add: sample_os_def)

lemma held_new: "t p = None \<Longrightarrow> finite (dom t) \<Longrightarrow> held (t(p \<mapsto> c)) = held t + length c"
proof -
  assume new: "t p = None" "finite (dom t)"
  then have "(\<Sum>q \<in> dom t. length (the ((t(p \<mapsto> c)) q))) = (\<Sum>q \<in> dom t. length (the (t q)))"
    by (intro sum.cong) auto
  then show ?thesis
    using new by (simp add: held_def domIff)
qed

lemma sample_fs: "rw_fs sample_os 0"
proof -
  have "unat (free_flash sample_os (t(p \<mapsto> c))) + length c \<le> unat (free_flash sample_os t) \<and>
      unat (free_flash sample_os t) \<le> unat (free_flash sample_os (t(p \<mapsto> c))) + length c"
    if "t p = None" "length c \<le> unat (free_flash sample_os t)" for t p c
    using that held_new [of t p c] unfolding sample_free by (cases "finite (dom t)") (auto simp: held_def)
  moreover have "room sample_os t p n" if "n \<le> unat (free_flash sample_os t)" for t p n
    using that unfolding sample_free by (simp add: sample_os_def)
  ultimately show ?thesis
    by (simp add: rw_fs_def sample_os_def)
qed

lemma sample_auto: "1 \<le> j \<Longrightarrow> j \<le> 10 \<Longrightarrow> auto_task 0 (sample_task j)"
  by (simp add: auto_task_def sample_task_def task_wf_def MAX_JOBS_def bytes_of_def get_max_file_size_def
      FILE_SIZE_UNLIMITED_def KB_def mask_eq_exp_minus_1)

lemma sample_ready:
  assumes "1 \<le> j" "j \<le> 10" "t (org (sample_task j)) = None" "finite (dom t)" "held t \<le> 65536"
  shows "ready sample_os 0 (sample_task j) t"
proof -
  have "unat (min_free_bytes (sample_task j)) = 52428" "\<forall>t. random_data sample_os t \<noteq> []"
    by (simp_all add: sample_task_def sample_os_def)
  moreover have "117964 < 1048576 - held t" "1048576 - held t < 70368744177664"
    using assms(5) by linarith+
  ultimately show ?thesis
    using assms sample_fs sample_auto [of j] unfolding ready_def sample_free by simp
qed

section \<open>Test files\<close>

text \<open>
  C27: a thread of the test makes a file of the size asked for, which holds the origin file over and over
  and the checksum; the file passes the check, and it does not pass any more once it has been changed
  within two consecutive bytes.
\<close>

theorem created_file_round_trip:
  assumes "t p = None" "t (org task) = Some src" "src \<noteq> []" "sz_buf task \<noteq> 0"
    and "room e t p (unat bytes)" "2 \<le> unat bytes" "unat bytes < 2 ^ 63"
  shows "\<exists>c. sub_thread_do_create e task bytes p t = Some (0, t(p \<mapsto> c)) \<and> length c = unat bytes \<and>
    (\<forall>i < unat bytes - 2. c ! i = src ! (i mod length src)) \<and> file_ok (t(p \<mapsto> c)) p \<and>
    (\<forall>pre x y post. c = pre @ x @ post \<and> length x = length y \<and> length x \<le> 2 \<and> x \<noteq> y \<longrightarrow>
       \<not> file_ok (t(p \<mapsto> pre @ y @ post)) p)"
proof -
  let ?c = "sealed (cyc src 0 (unat bytes - 2))"
  have small: "length ?c = unat bytes" "small ?c"
    using assms(6,7) by (simp_all add: small_def)
  have ok: "file_ok (t(p \<mapsto> ?c)) p"
    using small(2) by (intro file_ok_sealed) auto
  have "?c ! i = src ! (i mod length src)" if "i < unat bytes - 2" for i
    using that by (simp add: sealed_def nth_append cyc_def)
  moreover have "\<not> file_ok (t(p \<mapsto> pre @ y @ post)) p"
    if "?c = pre @ x @ post" "length x = length y" "length x \<le> 2" "x \<noteq> y" for pre x y post
    using burst_found [of "t(p \<mapsto> ?c)" p pre x post "t(p \<mapsto> pre @ y @ post)" y] that ok small(2) by simp
  ultimately show ?thesis
    using create_file [OF assms] small(1) ok by blast
qed

theorem created_file_round_trip_witness:
  "\<exists>c. sub_thread_do_create sample_os (sample_task 1) 100 [1] [bytes_of ''/mnt/rwcheck.org'' \<mapsto> [7, 8, 9]] =
      Some (0, [bytes_of ''/mnt/rwcheck.org'' \<mapsto> [7, 8, 9], [1] \<mapsto> c]) \<and> length c = 100 \<and> c ! 4 = 8 \<and>
    file_ok [bytes_of ''/mnt/rwcheck.org'' \<mapsto> [7, 8, 9], [1] \<mapsto> c] [1]"
proof -
  let ?t = "[bytes_of ''/mnt/rwcheck.org'' \<mapsto> [7, 8, 9]]"
  have "\<exists>c. sub_thread_do_create sample_os (sample_task 1) 100 [1] ?t = Some (0, ?t([1] \<mapsto> c)) \<and>
      length c = unat (100 :: u64) \<and> (\<forall>i < unat (100 :: u64) - 2. c ! i = [7, 8, 9] ! (i mod length [7, 8, 9 :: byte])) \<and>
      file_ok (?t([1] \<mapsto> c)) [1] \<and>
      (\<forall>pre x y post. c = pre @ x @ post \<and> length x = length y \<and> length x \<le> 2 \<and> x \<noteq> y \<longrightarrow>
         \<not> file_ok (?t([1] \<mapsto> pre @ y @ post)) [1])"
    by (rule created_file_round_trip) (simp_all add: sample_task_def sample_os_def held_def bytes_of_def)
  then obtain c where c: "sub_thread_do_create sample_os (sample_task 1) 100 [1] ?t = Some (0, ?t([1] \<mapsto> c))"
    "length c = 100" "\<forall>i < 98. c ! i = [7, 8, 9] ! (i mod 3)" "file_ok (?t([1] \<mapsto> c)) [1]"
    by auto
  moreover have "c ! 4 = 8"
    using c(3) by simp
  ultimately show ?thesis
    by blast
qed

text \<open>
  The check of a flash with the files of \<open>n\<close> rounds succeeds exactly if all of them but those of the
  last round pass; it then counts the rounds.
\<close>

theorem do_check_verdict:
  assumes "task_wf task" "complete task n t" "n \<le> INT_MAX"
  shows "do_check task t = Some
    (if \<forall>k j. Suc k < n \<and> j < nat (jobs task) \<longrightarrow> file_ok t (full_path task k j)
     then (0, task\<lparr>count := n\<rparr>) else (-1, task))"
  by (rule check_verdict [OF assms])

definition two_files :: "byte list \<Rightarrow> tree" where
  "two_files c = [full_path (sample_task 1) 0 0 \<mapsto> c, full_path (sample_task 1) 1 0 \<mapsto> [1, 2, 3]]"

lemma two_files_at:
  "two_files c (full_path (sample_task 1) i 0) = (if i = 0 then Some c else if i = 1 then Some [1, 2, 3] else None)"
  using full_path_inject [of 0 "sample_task 1" 0] by (auto simp: two_files_def)

lemma two_complete: "length c < 100 \<Longrightarrow> complete (sample_task 1) 2 (two_files c)"
  by (simp add: complete_def two_files_at small_def) 

theorem do_check_verdict_witness:
  "do_check (sample_task 1) (two_files (sealed [5, 6])) = Some (0, (sample_task 1)\<lparr>count := 2\<rparr>) \<and>
   do_check (sample_task 1) (two_files [5, 6, 0, 0]) = Some (-1, sample_task 1)"
proof -
  have wf: "task_wf (sample_task 1)" "2 \<le> INT_MAX"
    using auto_taskD(1) [OF sample_auto [of 1]] by (simp_all add: INT_MAX_def)
  have "file_ok (two_files (sealed [5, 6])) (full_path (sample_task 1) 0 0)"
    by (rule file_ok_sealed [of _ _ "[5, 6]"]) (simp_all add: two_files_at small_def)
  then have good: "do_check (sample_task 1) (two_files (sealed [5, 6])) = Some (0, (sample_task 1)\<lparr>count := 2\<rparr>)"
    using do_check_verdict [OF wf(1) two_complete wf(2), of "sealed [5, 6]"] by (simp add: less_Suc_eq)
  have "\<not> check_crc16 (crc16_end (crc16_common CRC_INIT [5, 6, 0, 0]))"
    by code_simp
  then have "\<not> file_ok (two_files [5, 6, 0, 0]) (full_path (sample_task 1) 0 0)"
    by (subst file_ok_small [of _ _ "[5, 6, 0, 0]"]) (simp_all add: two_files_at small_def)
  then have "do_check (sample_task 1) (two_files [5, 6, 0, 0]) = Some (-1, sample_task 1)"
    using do_check_verdict [OF wf(1) two_complete wf(2), of "[5, 6, 0, 0]"] by auto
  then show ?thesis
    using good by blast
qed

section \<open>Sizes\<close>

text \<open>
  C28: a size that the test chooses leaves the space free that it has to, and does not exceed the largest
  file of the file system, unless the sizes go up from one that exceeds the free space.
\<close>

theorem test_size_leaves_space:
  assumes "get_test_size free_bytes task = (test_bytes, task')" "test_bytes \<noteq> 0"
    and "mode task \<noteq> UP_MODE \<or> sz_begin task \<le> free_bytes"
  shows "unat test_bytes + unat (min_free_bytes task) \<le> unat free_bytes \<and>
    test_bytes \<le> get_max_file_size (sys task)"
  by (rule test_size_bound [OF assms])

theorem test_size_leaves_space_witness:
  "get_test_size 1000000 (sample_task 1) = (499712, sample_task 1) \<and>
   unat (499712 :: u64) + unat (min_free_bytes (sample_task 1)) \<le> unat (1000000 :: u64) \<and>
   499712 \<le> get_max_file_size (sys (sample_task 1))"
proof -
  have "get_test_size 1000000 (sample_task 1) = (499712, sample_task 1)"
    by code_simp
  then show ?thesis
    using test_size_leaves_space [of 1000000 "sample_task 1" 499712 "sample_task 1"] by (simp add: sample_task_def)
qed

text \<open>
  When the sizes go up from one that exceeds the free space, the difference wraps around, and the first
  size is that one all the same.
\<close>

lemma up_mode_wraps:
  assumes "mode task = UP_MODE" "sz_cur task = 0" "min_free_bytes task < free_bytes" "free_bytes < sz_begin task"
    and "sz_begin task \<le> 2 ^ 62" "free_bytes \<le> 2 ^ 62" "get_max_file_size (sys task) = FILE_SIZE_UNLIMITED"
  shows "get_test_size free_bytes task = (sz_begin task, task\<lparr>sz_cur := sz_begin task\<rparr>)"
proof -
  have "min_free_bytes task \<le> free_bytes - sz_begin task"
    using assms(3-6) by uint_arith
  moreover have "get_task_size_up_mode free_bytes task = sz_begin task"
    using assms(2) calculation by (simp add: get_task_size_up_mode_def Let_def)
  moreover have "sz_begin task \<le> FILE_SIZE_UNLIMITED"
    using assms(5) unfolding FILE_SIZE_UNLIMITED_def by (rule order_trans) (simp add: mask_eq_exp_minus_1)
  ultimately show ?thesis
    using assms by (auto simp: get_test_size_def Let_def)
qed

section \<open>Whole runs\<close>



text \<open>
  C29: with more than one job, a good first file without the second, which an interrupted run may leave
  behind, makes every turn succeed at once: no file is created, none is counted, and the file stays.
\<close>

theorem leftover_stops_test:
  assumes "ready e ov task t" "2 \<le> jobs task" "sealed_at t (full_path task 0 0)" "t (full_path task 0 1) = None"
    and "\<forall>t. cancelled e t [] = t"
  shows "begin_loop e (Suc k) task t = Some (0, task\<lparr>count := 0\<rparr>, t)"
proof -
  have turn: "begin_turn e (task\<lparr>count := m\<rparr>) t = Some (0, task\<lparr>count := 0\<rparr>, t)" for m
    using turn_leftover [of e ov "task\<lparr>count := m\<rparr>" t] assms by simp
  then have "begin_loop e k (task\<lparr>count := 0\<rparr>) t = Some (0, task\<lparr>count := 0\<rparr>, t)"
    by (induction k) simp_all
  then show ?thesis
    using turn [of "count task"] by simp
qed

theorem leftover_stops_test_witness:
  "begin_loop sample_os 3 (sample_task 2) [full_path (sample_task 2) 0 0 \<mapsto> sealed [1, 2]] =
     Some (0, (sample_task 2)\<lparr>count := 0\<rparr>, [full_path (sample_task 2) 0 0 \<mapsto> sealed [1, 2]])"
proof -
  let ?t = "[full_path (sample_task 2) 0 0 \<mapsto> sealed [1, 2]]"
  have "org (sample_task 2) \<noteq> full_path (sample_task 2) 0 0"
    by (simp add: sample_task_def full_path_def bytes_of_def)
  then have "ready sample_os 0 (sample_task 2) ?t"
    by (intro sample_ready) (auto simp: held_def)
  moreover have "full_path (sample_task 2) 0 1 \<noteq> full_path (sample_task 2) 0 0"
    using full_path_inject [of 1 "sample_task 2" 0 0 0] by auto
  moreover have "sealed_at ?t (full_path (sample_task 2) 0 0)"
    by (auto simp: sealed_at_def small_def)
  moreover have "\<forall>t. cancelled sample_os t [] = t"
    by (simp add: sample_os_def)
  ultimately show ?thesis
    using leftover_stops_test [of sample_os 0 "sample_task 2" ?t 2] by (simp add: numeral_3_eq_3 numeral_2_eq_2)
qed

end
