(* ===== verification/Rd_Dev.thy ===== *)
theory Rd_Dev
  imports Rw_Crc
begin

text \<open>
  The device test \<open>rwdev\<close>: \<open>rwdev.c\<close>, \<open>speed.c\<close>, and its copy of \<open>crc16.c\<close>. It writes a buffer of test data
  over and over to a device, reads it back, and compares checksums. The device, the clock, memory and the
  names of files are parameters; \<open>None\<close> is an endless loop or undefined behaviour. Output, the form in
  which sizes are shown, and the value of the speed are left out. The table and the loop of the checksum
  are those of \<open>Rw_Crc\<close>: the two files have the same ones.
\<close>

unbundle bit_operations_syntax

section \<open>crc16.c\<close>

definition get_crc16_buf :: "byte list \<Rightarrow> u16" where
  "get_crc16_buf buf = NOT (crc16_common CRC_INIT buf)"

definition buf_check_crc16 :: "byte list \<Rightarrow> bool" where
  "buf_check_crc16 buf \<longleftrightarrow> get_crc16_buf buf = GOOD_CRC"

definition get_crc16_start :: u16 where "get_crc16_start = CRC_INIT"

definition get_crc16_continue :: "u16 \<Rightarrow> byte list \<Rightarrow> u16" where
  "get_crc16_continue oldcrc buf = crc16_common oldcrc buf"

definition get_crc16_end :: "u16 \<Rightarrow> u16" where "get_crc16_end oldcrc = NOT oldcrc"

definition check_crc16_by_crc :: "u16 \<Rightarrow> bool" where
  "check_crc16_by_crc crc \<longleftrightarrow> (NOT crc) AND CRC_INIT = GOOD_CRC"

section \<open>The system\<close>

datatype file_mode = Block_device | Regular_file | Other_file

text \<open>
  A write returns its count, a read its bytes or an error; both are at a position of the device. \<open>alloc\<close> is
  what \<open>malloc\<close> finds in the memory it returns; \<open>cwd_of\<close> the path that \<open>getcwd\<close> returns after \<open>chdir\<close>.
\<close>

record 'd rd_os =
  wopen :: "'d \<Rightarrow> bool \<times> 'd"
  dev_write :: "'d \<Rightarrow> nat \<Rightarrow> byte list \<Rightarrow> int \<times> 'd"
  ropen :: "'d \<Rightarrow> bool"
  dev_read :: "'d \<Rightarrow> nat \<Rightarrow> nat \<Rightarrow> byte list option \<times> 'd"
  clock :: "nat \<Rightarrow> (int \<times> int) option"
  alloc :: "nat \<Rightarrow> byte list option"
  stat_mode :: "cstr \<Rightarrow> file_mode option"
  base_name :: "cstr \<Rightarrow> cstr"
  dir_name :: "cstr \<Rightarrow> cstr"
  cwd_of :: "cstr \<Rightarrow> cstr option"
  mem_text :: "cstr option"

record 'd world =
  device :: 'd
  tick :: nat

section \<open>speed.c\<close>

text \<open>A time in milliseconds, as a 32-bit \<open>unsigned long\<close>.\<close>

definition to_ms :: "int \<times> int \<Rightarrow> u32" where
  "to_ms t = word_of_int (fst t * 1000 + snd t div 1000)"

definition speed_start :: "'d rd_os \<Rightarrow> 'd world \<Rightarrow> (int \<times> int) option \<times> 'd world" where
  "speed_start e w = (clock e (tick w), w\<lparr>tick := Suc (tick w)\<rparr>)"

text \<open>Whether the result is negative; only this is looked at.\<close>

definition speed_end :: "'d rd_os \<Rightarrow> u32 \<Rightarrow> int \<times> int \<Rightarrow> 'd world \<Rightarrow> bool \<times> 'd world" where
  "speed_end e len start w =
     (case clock e (tick w) of
        None \<Rightarrow> True
      | Some end_t \<Rightarrow> len \<noteq> 0 \<and> to_ms end_t < to_ms start,
      w\<lparr>tick := Suc (tick w)\<rparr>)"

section \<open>rwdev.c: the task\<close>

definition ACTION_WRITE :: byte where "ACTION_WRITE = 1"
definition ACTION_READ :: byte where "ACTION_READ = 2"
definition ACTION_VERIFY :: byte where "ACTION_VERIFY = 4"

text \<open>Sizes are 32-bit \<open>unsigned long\<close>s; \<open>d_size\<close> and \<open>d_data\<close> are those of the round.\<close>

record rd_task =
  d_action :: byte
  d_dev :: cstr
  d_buf :: "byte list"
  d_def_data :: bool
  d_testsize :: u32
  d_wr_crc :: u16
  d_rd_crc :: u16
  d_times :: u32
  d_datas :: "cstr list"
  d_sizes :: "u32 list"
  d_size :: u32
  d_data :: cstr

definition DEFAULT_DATA :: "byte list" where
  "DEFAULT_DATA =
     [0xFF, 0xFF, 0x00, 0xFF, 0xFF, 0xFF, 0x00, 0x00, 0xFF, 0xFF, 0xCC, 0xCC, 0xCC, 0x33, 0xCC, 0xCC,
      0xCC, 0x33, 0x33, 0xCC, 0xCC, 0xCC, 0xFF, 0xFF, 0xFF, 0xEE, 0xFF, 0xFF, 0xFF, 0xEE, 0xEE, 0xFF,
      0xFF, 0xFF, 0xDD, 0xFF, 0xFF, 0xFF, 0xDD, 0xDD, 0xFF, 0xFF, 0xFF, 0xBB, 0xFF, 0xFF, 0xFF, 0xBB,
      0xBB, 0xFF, 0xFF, 0xFF, 0x77, 0xFF, 0xFF, 0xFF, 0x77, 0x77, 0xFF, 0x77, 0xBB, 0xDD, 0xEE, 0xFF,
      0xFF, 0xFF, 0xFF, 0x00, 0xFF, 0xFF, 0xFF, 0x00, 0x00, 0xFF, 0xFF, 0xCC, 0xCC, 0xCC, 0x33, 0xCC,
      0xCC, 0xCC, 0x33, 0x33, 0xCC, 0xCC, 0xCC, 0xFF, 0xFF, 0xFF, 0xEE, 0xFF, 0xFF, 0xFF, 0xEE, 0xEE,
      0xFF, 0xFF, 0xFF, 0xDD, 0xFF, 0xFF, 0xFF, 0xDD, 0xDD, 0xFF, 0xFF, 0xFF, 0xBB, 0xFF, 0xFF, 0xFF,
      0xBB, 0xBB, 0xFF, 0xFF, 0xFF, 0x77, 0xFF, 0xFF, 0xFF, 0x77, 0x77, 0xFF, 0x77, 0xBB, 0xDD, 0xEE]"

section \<open>rwdev.c: writing, reading and verifying\<close>

partial_function (option) write_loop ::
    "'d rd_os \<Rightarrow> byte list \<Rightarrow> nat \<Rightarrow> nat \<Rightarrow> nat \<Rightarrow> 'd \<Rightarrow> (bool \<times> 'd) option" where
  "write_loop e buf bufsize rest pos d =
     (let bytes = min rest bufsize; (r, d) = dev_write e d pos (take bytes buf)
      in if r \<noteq> int bytes then Some (False, d)
         else if 0 < rest - bytes then write_loop e buf bufsize (rest - bytes) (pos + bytes) d
         else Some (True, d))"

definition do_write :: "'d rd_os \<Rightarrow> rd_task \<Rightarrow> 'd world \<Rightarrow> (int \<times> 'd world) option" where
  "do_write e task w =
     (case speed_start e w of
        (None, w) \<Rightarrow> Some (-1, w)
      | (Some start, w) \<Rightarrow>
          let (opened, d) = wopen e (device w)
          in if \<not> opened then Some (-1, w\<lparr>device := d\<rparr>)
             else do {
               (ok, d) \<leftarrow> write_loop e (d_buf task) (unat (d_size task)) (unat (d_testsize task)) 0 d;
               let w = w\<lparr>device := d\<rparr>;
               if \<not> ok then Some (-1, w)
               else
                 let (failed, w) = speed_end e (d_testsize task div 1024) start w
                 in Some (if failed then -1 else 0, w)
             })"

partial_function (option) read_loop ::
    "'d rd_os \<Rightarrow> nat \<Rightarrow> nat \<Rightarrow> nat \<Rightarrow> byte list \<Rightarrow> 'd \<Rightarrow> (bool \<times> byte list \<times> 'd) option" where
  "read_loop e bufsize rest pos buf d =
     (let bytes = min rest bufsize; (r, d) = dev_read e d pos bytes
      in case r of
           None \<Rightarrow> Some (False, buf, d)
         | Some bs \<Rightarrow>
             let buf = bs @ drop (length bs) buf
             in if length bs \<noteq> bytes then Some (False, buf, d)
                else if 0 < rest - bytes then read_loop e bufsize (rest - bytes) (pos + bytes) buf d
                else Some (True, buf, d))"

definition do_read :: "'d rd_os \<Rightarrow> rd_task \<Rightarrow> 'd world \<Rightarrow> (int \<times> rd_task \<times> 'd world) option" where
  "do_read e task w =
     (let task = task\<lparr>d_buf := replicate (unat (d_size task)) 0\<rparr>
      in case speed_start e w of
           (None, w) \<Rightarrow> Some (-1, task, w)
         | (Some start, w) \<Rightarrow>
             if \<not> ropen e (device w) then Some (-1, task, w)
             else do {
               (ok, buf, d) \<leftarrow> read_loop e (unat (d_size task)) (unat (d_testsize task)) 0 (d_buf task) (device w);
               let task = task\<lparr>d_buf := buf\<rparr>;
               let w = w\<lparr>device := d\<rparr>;
               if \<not> ok then Some (-1, task, w)
               else
                 let (failed, w) = speed_end e (d_testsize task div 1024) start w
                 in Some (if failed then -1 else 0, task, w)
             })"

partial_function (option) write_crc_loop :: "byte list \<Rightarrow> nat \<Rightarrow> nat \<Rightarrow> u16 \<Rightarrow> u16 option" where
  "write_crc_loop buf bufsize rest crc =
     (let bytes = min rest bufsize; crc = get_crc16_continue crc (take bytes buf)
      in if 0 < rest - bytes then write_crc_loop buf bufsize (rest - bytes) crc else Some crc)"

definition get_write_crc :: "rd_task \<Rightarrow> u16 option" where
  "get_write_crc task =
     map_option get_crc16_end
       (write_crc_loop (d_buf task) (unat (d_size task)) (unat (d_testsize task)) get_crc16_start)"

partial_function (option) read_crc_loop ::
    "'d rd_os \<Rightarrow> nat \<Rightarrow> nat \<Rightarrow> nat \<Rightarrow> byte list \<Rightarrow> 'd \<Rightarrow> u16 \<Rightarrow> (u16 option \<times> byte list \<times> 'd) option" where
  "read_crc_loop e bufsize rest pos buf d crc =
     (let bytes = min rest bufsize; (r, d) = dev_read e d pos bytes
      in case r of
           None \<Rightarrow> Some (None, buf, d)
         | Some bs \<Rightarrow>
             let buf = bs @ drop (length bs) buf
             in if length bs \<noteq> bytes then Some (None, buf, d)
                else
                  let crc = get_crc16_continue crc (take bytes buf)
                  in if 0 < rest - bytes then read_crc_loop e bufsize (rest - bytes) (pos + bytes) buf d crc
                     else Some (Some crc, buf, d))"

definition get_read_crc :: "'d rd_os \<Rightarrow> rd_task \<Rightarrow> 'd world \<Rightarrow> (u16 option \<times> rd_task \<times> 'd world) option" where
  "get_read_crc e task w =
     (let task = task\<lparr>d_buf := replicate (unat (d_size task)) 0\<rparr>
      in if \<not> ropen e (device w) then Some (None, task, w)
         else do {
           (crc, buf, d) \<leftarrow> read_crc_loop e (unat (d_size task)) (unat (d_testsize task)) 0 (d_buf task) (device w)
             get_crc16_start;
           Some (map_option get_crc16_end crc, task\<lparr>d_buf := buf\<rparr>, w\<lparr>device := d\<rparr>)
         })"

definition do_verify :: "'d rd_os \<Rightarrow> rd_task \<Rightarrow> 'd world \<Rightarrow> (int \<times> rd_task \<times> 'd world) option" where
  "do_verify e task w = do {
     wr_crc \<leftarrow> get_write_crc task;
     let task = task\<lparr>d_wr_crc := wr_crc\<rparr>;
     (rd_crc, task, w) \<leftarrow> get_read_crc e task w;
     Some (case rd_crc of
             None \<Rightarrow> (-1, task, w)
           | Some rd_crc \<Rightarrow>
               let task = task\<lparr>d_rd_crc := rd_crc\<rparr>
               in (if d_rd_crc task \<noteq> d_wr_crc task then -1 else 0, task, w))
   }"

section \<open>rwdev.c: the test data\<close>

text \<open>The next copy goes behind this one by the smaller of the length and what is \<^emph>\<open>left\<close> to fill.\<close>

partial_function (option) raw_loop :: "nat \<Rightarrow> byte list \<Rightarrow> nat \<Rightarrow> byte list \<Rightarrow> byte list option" where
  "raw_loop s data off buf =
     (let n = min s (length data);
          buf = take off buf @ take n data @ drop (off + n) buf;
          s = s - n;
          off = off + min s (length data)
      in if 0 < s then raw_loop s data off buf else Some buf)"

definition fill_data_raw :: "nat \<Rightarrow> byte list \<Rightarrow> byte list \<Rightarrow> byte list option" where
  "fill_data_raw n data buf = raw_loop n data 0 buf"

definition hex_index :: "byte \<Rightarrow> nat option" where
  "hex_index ch =
     (if 48 \<le> ch \<and> ch \<le> 57 then Some (unat (ch - 48))
      else if 65 \<le> ch \<and> ch \<le> 70 then Some (unat (ch - 65) + 10)
      else if 97 \<le> ch \<and> ch \<le> 102 then Some (unat (ch - 97) + 10)
      else None)"

text \<open>The digits from the last one on; \<open>None\<close> is a character that is none.\<close>

fun hex_loop :: "cstr \<Rightarrow> nat \<Rightarrow> nat \<Rightarrow> byte list \<Rightarrow> byte list option" where
  "hex_loop [] b t cdata = Some cdata"
| "hex_loop (ch # chs) b t cdata =
     (case hex_index ch of
        None \<Rightarrow> None
      | Some tmp \<Rightarrow>
          let cdata = cdata[b - 1 := cdata ! (b - 1) + of_nat (t * tmp)]
          in if t = 1 then hex_loop chs b 16 cdata else hex_loop chs (b - 1) 1 cdata)"

definition hex_data :: "cstr \<Rightarrow> byte list option" where
  "hex_data str =
     (let bytes = ((length str - 2) + 1) div 2
      in hex_loop (rev (drop 2 str)) bytes 1 (replicate bytes 0))"

definition fill_data :: "rd_task \<Rightarrow> u32 \<Rightarrow> cstr \<Rightarrow> (int \<times> rd_task) option" where
  "fill_data task sz data =
     (case hex_data data of
        None \<Rightarrow> Some (-1, task)
      | Some cdata \<Rightarrow> map_option (\<lambda>buf. (0, task\<lparr>d_buf := buf\<rparr>)) (fill_data_raw (unat sz) cdata (d_buf task)))"

section \<open>rwdev.c: the rounds\<close>

definition begin_do :: "'d rd_os \<Rightarrow> rd_task \<Rightarrow> 'd world \<Rightarrow> (int \<times> rd_task \<times> 'd world) option" where
  "begin_do e task w = do {
     (ret, w) \<leftarrow> (if d_action task AND ACTION_WRITE \<noteq> 0 then do_write e task w else Some (0, w));
     if ret \<noteq> 0 then Some (-1, task, w)
     else do {
       (ret, task, w) \<leftarrow>
         (if d_action task AND ACTION_VERIFY \<noteq> 0 \<or> d_action task AND ACTION_READ \<noteq> 0 then do_read e task w
          else Some (0, task, w));
       if ret \<noteq> 0 then Some (-1, task, w)
       else do {
         (ret, task, w) \<leftarrow> (if d_action task AND ACTION_VERIFY \<noteq> 0 then do_verify e task w else Some (0, task, w));
         Some (if ret \<noteq> 0 then -1 else 0, task, w)
       }
     }
   }"

fun data_loop :: "'d rd_os \<Rightarrow> cstr list \<Rightarrow> rd_task \<Rightarrow> 'd world \<Rightarrow> (int \<times> rd_task \<times> 'd world) option" where
  "data_loop e [] task w = Some (0, task, w)"
| "data_loop e (data # datas) task w = do {
     let task = task\<lparr>d_data := data\<rparr>;
     (ret, task) \<leftarrow> fill_data task (d_size task) data;
     if ret \<noteq> 0 then Some (-1, task, w)
     else do {
       (ret, task, w) \<leftarrow> begin_do e task w;
       if ret \<noteq> 0 then Some (-1, task, w) else data_loop e datas task w
     }
   }"

fun size_loop :: "'d rd_os \<Rightarrow> u32 list \<Rightarrow> rd_task \<Rightarrow> 'd world \<Rightarrow> (int \<times> rd_task \<times> 'd world) option" where
  "size_loop e [] task w = Some (0, task, w)"
| "size_loop e (sz # szs) task w =
     (let task = task\<lparr>d_size := sz\<rparr>
      in case alloc e (unat sz) of
           None \<Rightarrow> Some (-1, task, w)
         | Some mem \<Rightarrow> do {
             let task = task\<lparr>d_buf := mem\<rparr>;
             (ret, task, w) \<leftarrow>
               (if d_def_data task then do {
                  buf \<leftarrow> fill_data_raw (unat sz) DEFAULT_DATA (d_buf task);
                  begin_do e (task\<lparr>d_buf := buf\<rparr>) w
                }
                else data_loop e (d_datas task) task w);
             if ret \<noteq> 0 then Some (-1, task, w) else size_loop e szs task w
           })"

fun times_loop :: "'d rd_os \<Rightarrow> nat \<Rightarrow> rd_task \<Rightarrow> 'd world \<Rightarrow> (int \<times> rd_task \<times> 'd world) option" where
  "times_loop e 0 task w = Some (0, task, w)"
| "times_loop e (Suc n) task w = do {
     (ret, task, w) \<leftarrow> size_loop e (d_sizes task) task w;
     if ret \<noteq> 0 then Some (-1, task, w) else times_loop e n task w
   }"

definition begin_test :: "'d rd_os \<Rightarrow> rd_task \<Rightarrow> 'd world \<Rightarrow> (int \<times> rd_task \<times> 'd world) option" where
  "begin_test e task w = times_loop e (unat (d_times task)) task w"

section \<open>rwdev.c: the arguments\<close>

text \<open>The size, or an error; the last character of an empty string is read before its start.\<close>

definition set_size :: "cstr \<Rightarrow> (int + u32) option" where
  "set_size str =
     (if str = [] then None
      else
        let c = last str; size = (word_of_int (atol str) :: 64 word)
        in if c = 107 \<or> c = 75 then Some (Inr (ucast (size * 1024)))
           else if c = 109 \<or> c = 77 then Some (Inr (ucast (size * (1024 * 1024))))
           else if c = 103 \<or> c = 71 then Some (Inr (ucast (size * (1024 * 1024 * 1024))))
           else if is_digit c \<and> size AND (size - 1) = 0 then Some (Inr (ucast size))
           else Some (Inl (-1)))"

definition get_abs_path :: "'d rd_os \<Rightarrow> cstr \<Rightarrow> cstr option" where
  "get_abs_path e file =
     map_option (\<lambda>new. new @ (if last new = 47 then [] else [47]) @ base_name e file) (cwd_of e (dir_name e file))"

text \<open>
  The number of kilobytes behind the first word. Without one, the variable has no value; when the file
  cannot be opened, the result is 0.
\<close>

definition total_mem :: "'d rd_os \<Rightarrow> 64 word option" where
  "total_mem e =
     (case mem_text e of
        None \<Rightarrow> Some 0
      | Some file \<Rightarrow>
          let num = dropWhile is_space (dropWhile (\<lambda>c. \<not> is_space c) (dropWhile is_space file))
          in if num = [] \<or> \<not> is_digit (hd num) then None
             else Some (of_nat (min (digits_val num) (2 ^ 64 - 1))))"

datatype dev_opt = Dev_a cstr | Dev_b cstr | Dev_d cstr | Dev_s cstr | Dev_l cstr | Dev_h | Dev_bad

text \<open>One option: the code to exit with, or the changed task.\<close>

fun dev_option :: "rd_task \<Rightarrow> dev_opt \<Rightarrow> (int + rd_task) option" where
  "dev_option task (Dev_a arg) =
     Some (if atol arg = 0 then Inr (task\<lparr>d_action := d_action task OR ACTION_WRITE\<rparr>)
           else if atol arg = 1 then Inr (task\<lparr>d_action := d_action task OR ACTION_READ\<rparr>)
           else if atol arg = 2 then Inr (task\<lparr>d_action := d_action task OR ACTION_VERIFY\<rparr>)
           else Inl (-1))"
| "dev_option task (Dev_b arg) =
     map_option (\<lambda>r. case r of Inl _ \<Rightarrow> Inl (-1) | Inr n \<Rightarrow> Inr (task\<lparr>d_sizes := d_sizes task @ [n]\<rparr>)) (set_size arg)"
| "dev_option task (Dev_d arg) =
     Some (if take 2 arg \<noteq> bytes_of ''0x'' then Inl (-1) else Inr (task\<lparr>d_datas := d_datas task @ [arg]\<rparr>))"
| "dev_option task (Dev_s arg) =
     map_option (\<lambda>r. case r of Inl _ \<Rightarrow> Inl (-1) | Inr n \<Rightarrow> Inr (task\<lparr>d_testsize := n\<rparr>)) (set_size arg)"
| "dev_option task (Dev_l arg) = Some (Inr (task\<lparr>d_times := word_of_int (atol arg)\<rparr>))"
| "dev_option task Dev_h = Some (Inl 0)"
| "dev_option task Dev_bad = Some (Inl (-1))"

fun dev_options :: "rd_task \<Rightarrow> dev_opt list \<Rightarrow> (int + rd_task) option" where
  "dev_options task [] = Some (Inr task)"
| "dev_options task (opt # opts) = do {
     r \<leftarrow> dev_option task opt;
     case r of Inl ret \<Rightarrow> Some (Inl ret) | Inr task \<Rightarrow> dev_options task opts
   }"

definition check_device :: "'d rd_os \<Rightarrow> cstr \<Rightarrow> bool" where
  "check_device e path =
     (if take 4 path = bytes_of ''/dev'' then stat_mode e path = Some Block_device
      else stat_mode e path = None \<or> stat_mode e path = Some Regular_file)"

definition dev_task :: rd_task where
  "dev_task = \<lparr>d_action = 0, d_dev = [], d_buf = [], d_def_data = False, d_testsize = 0, d_wr_crc = 0, d_rd_crc = 0,
     d_times = 0, d_datas = [], d_sizes = [], d_size = 0, d_data = []\<rparr>"

text \<open>The values that were not given.\<close>

definition dev_defaults :: "'d rd_os \<Rightarrow> rd_task \<Rightarrow> rd_task option" where
  "dev_defaults e task = do {
     let task = (if d_action task = 0 then task\<lparr>d_action := ACTION_WRITE OR ACTION_READ OR ACTION_VERIFY\<rparr> else task);
     let task = (if d_sizes task = [] then task\<lparr>d_sizes := [4194304]\<rparr> else task);
     task \<leftarrow> (if d_testsize task = 0 then do {
         ddr \<leftarrow> total_mem e;
         r \<leftarrow> set_size (dec_of_nat (unat ddr) @ bytes_of ''K'');
         Some (case r of Inl _ \<Rightarrow> task | Inr n \<Rightarrow> task\<lparr>d_testsize := n\<rparr>)
       }
       else Some task);
     let task = (if d_datas task = [] then task\<lparr>d_def_data := True\<rparr> else task);
     Some (if d_times task = 0 then task\<lparr>d_times := 1\<rparr> else task)
   }"

definition rwdev_main :: "'d rd_os \<Rightarrow> dev_opt list \<Rightarrow> cstr list \<Rightarrow> 'd world \<Rightarrow> (int \<times> 'd world) option" where
  "rwdev_main e opts args w = do {
     r \<leftarrow> dev_options dev_task opts;
     case r of
       Inl ret \<Rightarrow> Some (ret, w)
     | Inr task \<Rightarrow>
         (case args of
            [file] \<Rightarrow>
              (case get_abs_path e file of
                 None \<Rightarrow> Some (-1, w)
               | Some path \<Rightarrow>
                   if \<not> check_device e path then Some (-1, w)
                   else do {
                     task \<leftarrow> dev_defaults e (task\<lparr>d_dev := path\<rparr>);
                     (ret, _, w) \<leftarrow> begin_test e task w;
                     Some (ret, w)
                   })
          | _ \<Rightarrow> Some (-1, w))
   }"

end
