(* ===== verification/Rd_Laws.thy ===== *)
theory Rd_Laws
  imports Rd_Dev Rw_Laws
begin

text \<open>
  Laws of \<open>rwdev\<close>: filling the buffer, the bytes the checksums are of, and devices that hold what they
  are given.
\<close>

section \<open>Filling the buffer\<close>

lemma cyc_whole: "length src \<le> n \<Longrightarrow> cyc src 0 n = src @ cyc src 0 (n - length src)"
  using cyc_add [of src 0 "length src" "n - length src"] cyc_mod [of "length src" src 0] cyc_same [of src] by simp

lemma cyc_part: "n \<le> length src \<Longrightarrow> cyc src 0 n = take n src"
  using cyc_take [of 0 n src] by simp

lemma cyc_cyc: "length src dvd n \<Longrightarrow> 0 < n \<Longrightarrow> cyc (cyc src 0 n) 0 m = cyc src 0 m"
  by (rule nth_equalityI) (auto simp: cyc_def mod_mod_cancel)

lemma raw_loop_end:
  "s \<le> length data \<Longrightarrow> raw_loop s data off buf = Some (take off buf @ take s data @ drop (off + s) buf)"
  by (subst raw_loop.simps) (simp add: Let_def)

lemma raw_loop_next:
  "length data < s \<Longrightarrow> raw_loop s data off buf =
    raw_loop (s - length data) data (off + min (s - length data) (length data))
      (take off buf @ data @ drop (off + length data) buf)"
  by (subst raw_loop.simps) (simp add: Let_def)

lemma raw_loop_fills:
  assumes "data \<noteq> []"
  shows "0 < s \<Longrightarrow> s \<le> length data \<or> length data dvd s \<Longrightarrow> off + s \<le> length buf \<Longrightarrow>
    raw_loop s data off buf = Some (take off buf @ cyc data 0 s @ drop (off + s) buf)"
proof (induction s arbitrary: off buf rule: less_induct)
  case (less s)
  let ?l = "length data"
  show ?case
  proof (cases "s \<le> ?l")
    case True
    then show ?thesis
      by (simp add: raw_loop_end cyc_part)
  next
    case False
    let ?buf = "take off buf @ data @ drop (off + ?l) buf"
    have dvd: "?l dvd s - ?l" "0 < s - ?l"
      using False less.prems(2) by auto
    then have "?l \<le> s - ?l"
      by (rule dvd_imp_le)
    then have "raw_loop s data off buf = raw_loop (s - ?l) data (off + ?l) ?buf"
      using False by (simp add: raw_loop_next)
    also have "\<dots> = Some (take (off + ?l) ?buf @ cyc data 0 (s - ?l) @ drop (off + ?l + (s - ?l)) ?buf)"
      using dvd less.prems(3) False assms by (intro less.IH) auto
    also have "take (off + ?l) ?buf = take off buf @ data"
      using less.prems(3) False by simp
    also have "drop (off + ?l + (s - ?l)) ?buf = drop (off + s) buf"
      using less.prems(3) False by (simp add: add.commute)
    also have "(take off buf @ data) @ cyc data 0 (s - ?l) @ drop (off + s) buf =
        take off buf @ cyc data 0 s @ drop (off + s) buf"
      using cyc_whole [of data s] False by simp
    finally show ?thesis .
  qed
qed

lemma nth_patch:
  "a + length ys \<le> i \<Longrightarrow> a + length ys \<le> length xs \<Longrightarrow>
    (take a xs @ ys @ drop (a + length ys) xs) ! i = xs ! i"
  by (auto simp: nth_append min_absorb2)

lemma raw_loop_misses:
  assumes "data \<noteq> []"
  shows "length data < s \<Longrightarrow> \<not> length data dvd s \<Longrightarrow> off + s \<le> length buf \<Longrightarrow>
    \<exists>buf'. raw_loop s data off buf = Some buf' \<and> buf' ! (off + s - 1) = buf ! (off + s - 1)"
proof (induction s arbitrary: off buf rule: less_induct)
  case (less s)
  let ?l = "length data" and ?s = "s - length data"
  let ?buf = "take off buf @ data @ drop (off + ?l) buf"
  have "s = ?s + ?l"
    using less.prems(1) by simp
  then have rest: "0 < ?s" "\<not> ?l dvd ?s" "length ?buf = length buf"
    using less.prems dvd_add_triv_right_iff [of ?l ?s] by auto
  have old: "?buf ! (off + s - 1) = buf ! (off + s - 1)"
    using less.prems nth_patch [of off data "off + s - 1" buf] by simp
  show ?case
  proof (cases "?s < ?l")
    case True
    let ?last = "take (off + ?s) ?buf @ take ?s data @ drop (off + ?s + ?s) ?buf"
    have "raw_loop ?s data (off + ?s) ?buf = Some ?last"
      using True by (intro raw_loop_end) simp
    moreover have "raw_loop s data off buf = raw_loop ?s data (off + ?s) ?buf"
      using True less.prems(1) by (simp add: raw_loop_next)
    moreover have "?last ! (off + s - 1) = ?buf ! (off + s - 1)"
      using True rest less.prems nth_patch [of "off + ?s" "take ?s data" "off + s - 1" ?buf] by simp
    ultimately show ?thesis
      using old by metis
  next
    case False
    have more: "?l < ?s"
      using False rest(2) by (cases "?l = ?s") auto
    then obtain buf' where "raw_loop ?s data (off + ?l) ?buf = Some buf'"
      "buf' ! (off + ?l + ?s - 1) = ?buf ! (off + ?l + ?s - 1)"
      using less.IH [of ?s "off + ?l" ?buf] rest less.prems assms by fastforce
    moreover have "raw_loop s data off buf = raw_loop ?s data (off + ?l) ?buf"
      using more less.prems(1) by (simp add: raw_loop_next)
    ultimately show ?thesis
      using old less.prems(1) by auto
  qed
qed

lemma raw_loop_endless: "0 < s \<Longrightarrow> raw_loop s [] off buf = None"
proof (cases "raw_loop s [] off buf")
  case (Some r)
  have "([] :: byte list) = [] \<longrightarrow> s = 0"
    by (rule raw_loop.raw_induct [where P = "\<lambda>s data off buf r. data = [] \<longrightarrow> s = 0", OF _ Some])
      (auto simp: Let_def split: if_splits, metis less_irrefl)
  then show "0 < s \<Longrightarrow> ?thesis"
    by simp
qed

section \<open>The bytes of the checksums\<close>

lemma write_crc_loop_cyc:
  assumes "length buf = bs" "0 < bs"
  shows "write_crc_loop buf bs rest crc = Some (crc16_common crc (cyc buf 0 rest))"
proof (induction rest arbitrary: crc rule: less_induct)
  case (less rest)
  show ?case
  proof (cases "rest \<le> bs")
    case True
    then show ?thesis
      using assms by (subst write_crc_loop.simps) (simp add: Let_def get_crc16_continue_def cyc_part)
  next
    case False
    then show ?thesis
      using assms less [of "rest - bs"] cyc_whole [of buf rest]
      by (subst write_crc_loop.simps) (simp add: Let_def get_crc16_continue_def crc16_append)
  qed
qed

text \<open>A device that gives its contents.\<close>

definition holds :: "'d rd_os \<Rightarrow> 'd \<Rightarrow> byte list \<Rightarrow> bool" where
  "holds e d c \<longleftrightarrow> ropen e d \<and> (\<forall>pos n. pos + n \<le> length c \<longrightarrow> dev_read e d pos n = (Some (take n (drop pos c)), d))"

lemma holdsD:
  "holds e d c \<Longrightarrow> ropen e d"
  "holds e d c \<Longrightarrow> pos + n \<le> length c \<Longrightarrow> dev_read e d pos n = (Some (take n (drop pos c)), d)"
  by (auto simp: holds_def)

lemma read_loop_step:
  assumes "holds e d c" "pos + rest \<le> length c" "length buf = bs" "0 < rest"
  shows "read_loop e bs rest pos buf d =
    (if bs < rest then read_loop e bs (rest - bs) (pos + bs) (take bs (drop pos c)) d
     else Some (True, take rest (drop pos c) @ drop rest buf, d))"
  using assms(2-) holdsD(2) [OF assms(1), of pos "min rest bs"] by (subst read_loop.simps) (simp add: Let_def)

text \<open>What a read leaves in the buffer depends on the last chunks only.\<close>

lemma read_loop_last:
  assumes "holds e d c" "length x = bs" "0 < bs"
  shows "pos + rest \<le> length c \<Longrightarrow> take rest (drop pos c) = cyc x 0 rest \<Longrightarrow> length buf = bs \<Longrightarrow> 0 < rest \<Longrightarrow>
    bs \<le> rest \<or> buf = x \<Longrightarrow> read_loop e bs rest pos buf d = Some (True, x, d)"
proof (induction rest arbitrary: pos buf rule: less_induct)
  case (less rest)
  show ?case
  proof (cases "bs < rest")
    case True
    have split: "take rest (drop pos c) = x @ cyc x 0 (rest - bs)"
      using less.prems(2) cyc_whole [of x rest] assms(2) True by simp
    have first: "take bs (drop pos c) = x"
      using arg_cong [OF split, of "take bs"] assms(2) True by simp
    have "take (rest - bs) (drop (pos + bs) c) = cyc x 0 (rest - bs)"
      using arg_cong [OF split, of "drop bs"] assms(2) True by (simp add: drop_take add.commute)
    then have "read_loop e bs (rest - bs) (pos + bs) x d = Some (True, x, d)"
      using less.IH [of "rest - bs" "pos + bs" x] less.prems True assms(2,3) by simp
    then show ?thesis
      using read_loop_step [OF assms(1) less.prems(1,3,4)] True first by simp
  next
    case False
    then have "take rest (drop pos c) = take rest x"
      using less.prems(2) assms(2) by (simp add: cyc_part)
    moreover have "take rest x @ drop rest buf = x"
      using less.prems(3,5) False assms(2) by auto
    ultimately show ?thesis
      using read_loop_step [OF assms(1) less.prems(1,3,4)] False by simp
  qed
qed

lemma read_loop_tail:
  assumes "holds e d c" "length x = bs" "0 < bs" "bs \<le> m"
  shows "pos + (k * bs + m) \<le> length c \<Longrightarrow> take m (drop (pos + k * bs) c) = cyc x 0 m \<Longrightarrow> length buf = bs \<Longrightarrow>
    read_loop e bs (k * bs + m) pos buf d = Some (True, x, d)"
proof (induction k arbitrary: pos buf)
  case 0
  then show ?case
    using read_loop_last [OF assms(1-3), of pos m buf] assms(3,4) by simp
next
  case (Suc k)
  have "read_loop e bs (k * bs + m) (pos + bs) (take bs (drop pos c)) d = Some (True, x, d)"
    using Suc.prems assms(4) by (intro Suc.IH) (simp_all add: add.assoc)
  then show ?case
    using read_loop_step [OF assms(1) Suc.prems(1,3)] assms(3,4) by (simp add: add.assoc)
qed

lemma read_crc_loop_ok:
  assumes "holds e d c" "0 < bs"
  shows "pos + rest \<le> length c \<Longrightarrow> length buf = bs \<Longrightarrow> 0 < rest \<Longrightarrow>
    \<exists>buf'. read_crc_loop e bs rest pos buf d crc = Some (Some (crc16_common crc (take rest (drop pos c))), buf', d)"
proof (induction rest arbitrary: pos buf crc rule: less_induct)
  case (less rest)
  let ?n = "min rest bs"
  have r: "dev_read e d pos ?n = (Some (take ?n (drop pos c)), d)" "length (take ?n (drop pos c)) = ?n"
    using holdsD(2) [OF assms(1), of pos ?n] less.prems(1) by simp_all
  show ?case
  proof (cases "bs < rest")
    case True
    have "take rest (drop pos c) = take bs (drop pos c) @ take (rest - bs) (drop (pos + bs) c)"
      using take_add [of bs "rest - bs" "drop pos c"] True by (simp add: add.commute)
    then show ?thesis
      using r True less.prems less.IH [of "rest - bs" "pos + bs" "take bs (drop pos c)"] assms(2)
      by (subst read_crc_loop.simps) (simp add: Let_def get_crc16_continue_def crc16_append)
  next
    case False
    then show ?thesis
      using r by (subst read_crc_loop.simps) (simp add: Let_def get_crc16_continue_def)
  qed
qed

section \<open>Reading and verifying\<close>

text \<open>A clock that works and is not set back.\<close>

definition steady :: "'d rd_os \<Rightarrow> bool" where
  "steady e \<longleftrightarrow> (\<forall>i. \<exists>t u. clock e i = Some t \<and> clock e (Suc i) = Some u \<and> to_ms t \<le> to_ms u)"

lemma steady_times:
  assumes "steady e"
  shows "\<exists>t. speed_start e w = (Some t, w\<lparr>tick := Suc (tick w)\<rparr>) \<and>
    (\<forall>len d. speed_end e len t (w\<lparr>tick := Suc (tick w), device := d\<rparr>) =
      (False, w\<lparr>tick := Suc (Suc (tick w)), device := d\<rparr>))"
proof -
  obtain t u where "clock e (tick w) = Some t" "clock e (Suc (tick w)) = Some u" "to_ms t \<le> to_ms u"
    using assms unfolding steady_def by blast
  then show ?thesis
    by (cases w) (auto simp: speed_start_def speed_end_def)
qed

text \<open>The sizes of a round: a buffer, and a test of at least one buffer.\<close>

definition sized :: "rd_task \<Rightarrow> bool" where
  "sized task \<longleftrightarrow> 0 < unat (d_size task) \<and> d_size task \<le> d_testsize task"

lemma sizedD:
  "sized task \<Longrightarrow> 0 < unat (d_size task)" "sized task \<Longrightarrow> unat (d_size task) \<le> unat (d_testsize task)"
  by (simp_all add: sized_def word_le_nat_alt)

text \<open>
  The contents that the verification reads: anything, \<open>k\<close> chunks long, and the same chunk from there on.
\<close>

definition repeats :: "rd_task \<Rightarrow> nat \<Rightarrow> byte list \<Rightarrow> byte list \<Rightarrow> bool" where
  "repeats task k x c \<longleftrightarrow> length x = unat (d_size task) \<and> unat (d_testsize task) \<le> length c \<and>
     (k + 1) * unat (d_size task) \<le> unat (d_testsize task) \<and>
     take (unat (d_testsize task) - k * unat (d_size task)) (drop (k * unat (d_size task)) c) =
       cyc x 0 (unat (d_testsize task) - k * unat (d_size task))"

lemma do_read_ok:
  assumes "steady e" "holds e (device w) c" "0 < unat (d_size task)" "repeats task k x c"
  shows "do_read e task w = Some (0, task\<lparr>d_buf := x\<rparr>, w\<lparr>tick := Suc (Suc (tick w))\<rparr>)"
proof -
  let ?b = "unat (d_size task)" and ?n = "unat (d_testsize task)"
  obtain t where t: "speed_start e w = (Some t, w\<lparr>tick := Suc (tick w)\<rparr>)"
    "\<And>len d. speed_end e len t (w\<lparr>tick := Suc (tick w), device := d\<rparr>) =
      (False, w\<lparr>tick := Suc (Suc (tick w)), device := d\<rparr>)"
    using steady_times [OF assms(1)] by blast
  have "read_loop e ?b (k * ?b + (?n - k * ?b)) 0 (replicate ?b 0) (device w) = Some (True, x, device w)"
    using assms(2-4) by (intro read_loop_tail) (auto simp: repeats_def)
  moreover have "k * ?b + (?n - k * ?b) = ?n"
    using assms(4) by (simp add: repeats_def)
  ultimately have "read_loop e ?b ?n 0 (replicate ?b 0) (device w) = Some (True, x, device w)"
    by simp
  then show ?thesis
    using t(1) t(2) [of _ "device w"] holdsD(1) [OF assms(2)] by (cases w) (simp add: do_read_def)
qed

text \<open>Nothing but the buffer, the checksums, and the size and data of the round changes.\<close>

definition same_settings :: "rd_task \<Rightarrow> rd_task \<Rightarrow> bool" where
  "same_settings task task' \<longleftrightarrow> d_sizes task' = d_sizes task \<and> d_testsize task' = d_testsize task \<and>
     d_action task' = d_action task \<and> d_def_data task' = d_def_data task \<and> d_datas task' = d_datas task"

text \<open>The verdict compares two checksums, both of what has been read.\<close>

lemma do_verify_ok:
  assumes "holds e (device w) c" "sized task" "length (d_buf task) = unat (d_size task)"
    "unat (d_testsize task) \<le> length c"
  shows "\<exists>task'. do_verify e task w =
    Some (if crc16_common CRC_INIT (take (unat (d_testsize task)) c) =
             crc16_common CRC_INIT (cyc (d_buf task) 0 (unat (d_testsize task))) then 0 else -1, task', w) \<and> same_settings task task'"
proof -
  let ?b = "unat (d_size task)" and ?n = "unat (d_testsize task)"
  have wr: "get_write_crc task = Some (NOT (crc16_common CRC_INIT (cyc (d_buf task) 0 ?n)))"
    using write_crc_loop_cyc [OF assms(3) sizedD(1) [OF assms(2)]]
    by (simp add: get_write_crc_def get_crc16_start_def get_crc16_end_def)
  obtain buf' where "read_crc_loop e ?b ?n 0 (replicate ?b 0) (device w) CRC_INIT =
      Some (Some (crc16_common CRC_INIT (take ?n c)), buf', device w)"
    using read_crc_loop_ok [OF assms(1) sizedD(1) [OF assms(2)], of 0 ?n "replicate ?b 0" CRC_INIT]
      sizedD [OF assms(2)] assms(4) by auto
  then show ?thesis
    using wr holdsD(1) [OF assms(1)]
    by (auto simp: do_verify_def get_read_crc_def get_crc16_start_def get_crc16_end_def same_settings_def)
qed

text \<open>What the verification of a round says after its read.\<close>

lemma read_verify_ok:
  assumes "steady e" "holds e (device w) c" "sized task" "repeats task k x c"
  shows "\<exists>task'. do_read e task w = Some (0, task\<lparr>d_buf := x\<rparr>, w\<lparr>tick := Suc (Suc (tick w))\<rparr>) \<and>
    do_verify e (task\<lparr>d_buf := x\<rparr>) (w\<lparr>tick := Suc (Suc (tick w))\<rparr>) = Some (if crc16_common CRC_INIT (take (unat (d_testsize task)) c) =
             crc16_common CRC_INIT (cyc x 0 (unat (d_testsize task))) then 0 else -1,
      task', w\<lparr>tick := Suc (Suc (tick w))\<rparr>) \<and> same_settings task task'"
  using do_read_ok [OF assms(1,2) sizedD(1) [OF assms(3)] assms(4)]
    do_verify_ok [of e "w\<lparr>tick := Suc (Suc (tick w))\<rparr>" c "task\<lparr>d_buf := x\<rparr>"] assms(2-4)
  by (auto simp: repeats_def sized_def same_settings_def)

section \<open>A device that stores what it is given\<close>

definition good_dev :: "'d rd_os \<Rightarrow> ('d \<Rightarrow> byte list) \<Rightarrow> nat \<Rightarrow> bool" where
  "good_dev e con cap \<longleftrightarrow>
     (\<forall>d. fst (wopen e d) \<and> con (snd (wopen e d)) = con d) \<and>
     (\<forall>d pos bs. pos \<le> length (con d) \<longrightarrow> pos + length bs \<le> cap \<longrightarrow>
        fst (dev_write e d pos bs) = int (length bs) \<and>
        con (snd (dev_write e d pos bs)) = take pos (con d) @ bs @ drop (pos + length bs) (con d)) \<and>
     (\<forall>d. holds e d (con d))"

lemma good_devD:
  assumes "good_dev e con cap"
  shows "\<exists>d'. wopen e d = (True, d') \<and> con d' = con d"
    and "pos \<le> length (con d) \<Longrightarrow> pos + length bs \<le> cap \<Longrightarrow>
      \<exists>d'. dev_write e d pos bs = (int (length bs), d') \<and>
        con d' = take pos (con d) @ bs @ drop (pos + length bs) (con d)"
    and "holds e d (con d)"
proof -
  note g = assms [unfolded good_dev_def]
  show "\<exists>d'. wopen e d = (True, d') \<and> con d' = con d"
    using g by (intro exI [of _ "snd (wopen e d)"] conjI prod_eqI) simp_all
  show "\<exists>d'. dev_write e d pos bs = (int (length bs), d') \<and>
        con d' = take pos (con d) @ bs @ drop (pos + length bs) (con d)"
    if "pos \<le> length (con d)" "pos + length bs \<le> cap"
    using g that by (intro exI [of _ "snd (dev_write e d pos bs)"] conjI prod_eqI) simp_all
  show "holds e d (con d)"
    using g by blast
qed

lemma write_loop_ok:
  assumes "good_dev e con cap" "length buf = bs" "0 < bs"
  shows "pos \<le> length (con d) \<Longrightarrow> pos + rest \<le> cap \<Longrightarrow> \<exists>d'. write_loop e buf bs rest pos d = Some (True, d') \<and>
    con d' = take pos (con d) @ cyc buf 0 rest @ drop (pos + rest) (con d)"
proof (induction rest arbitrary: pos d rule: less_induct)
  case (less rest)
  let ?n = "min rest bs"
  obtain d' where d': "dev_write e d pos (take ?n buf) = (int ?n, d')"
    "con d' = take pos (con d) @ take ?n buf @ drop (pos + ?n) (con d)"
  proof -
    have "length (take ?n buf) = ?n" "pos + length (take ?n buf) \<le> cap"
      using less.prems(2) assms(2) by simp_all
    then show ?thesis
      using good_devD(2) [OF assms(1) less.prems(1), of "take ?n buf"] that by metis
  qed
  show ?case
  proof (cases "rest \<le> bs")
    case True
    then show ?thesis
      using d' assms(2) by (subst write_loop.simps) (simp add: cyc_part)
  next
    case False
    let ?c = "take pos (con d) @ buf @ drop (pos + bs) (con d)"
    obtain d'' where d'': "write_loop e buf bs (rest - bs) (pos + bs) d' = Some (True, d'')"
      "con d'' = take (pos + bs) ?c @ cyc buf 0 (rest - bs) @ drop (pos + bs + (rest - bs)) ?c"
      using less.IH [of "rest - bs" "pos + bs" d'] d'(2) less.prems False assms(2,3) by auto
    have "take (pos + bs) ?c = take pos (con d) @ buf" "drop (pos + bs + (rest - bs)) ?c = drop (pos + rest) (con d)"
      using less.prems(1) False assms(2) by (simp_all add: add.commute)
    then have "con d'' = take pos (con d) @ cyc buf 0 rest @ drop (pos + rest) (con d)"
      using d''(2) cyc_whole [of buf rest] False assms(2) by simp
    then show ?thesis
      using d'(1) d''(1) False by (subst write_loop.simps) simp
  qed
qed

lemma do_write_ok:
  assumes "good_dev e con cap" "steady e" "sized task" "length (d_buf task) = unat (d_size task)"
    "unat (d_testsize task) \<le> cap"
  shows "\<exists>d'. do_write e task w = Some (0, w\<lparr>tick := Suc (Suc (tick w)), device := d'\<rparr>) \<and>
    con d' = cyc (d_buf task) 0 (unat (d_testsize task)) @ drop (unat (d_testsize task)) (con (device w))"
proof -
  obtain t where t: "speed_start e w = (Some t, w\<lparr>tick := Suc (tick w)\<rparr>)"
    "\<And>len d. speed_end e len t (w\<lparr>tick := Suc (tick w), device := d\<rparr>) =
      (False, w\<lparr>tick := Suc (Suc (tick w)), device := d\<rparr>)"
    using steady_times [OF assms(2)] by blast
  obtain d0 where d0: "wopen e (device w) = (True, d0)" "con d0 = con (device w)"
    using good_devD(1) [OF assms(1)] by blast
  obtain d' where d': "write_loop e (d_buf task) (unat (d_size task)) (unat (d_testsize task)) 0 d0 = Some (True, d')"
    "con d' = cyc (d_buf task) 0 (unat (d_testsize task)) @ drop (unat (d_testsize task)) (con d0)"
    using write_loop_ok [OF assms(1,4) sizedD(1) [OF assms(3)], of 0 d0 "unat (d_testsize task)"] assms(5) by auto
  then show ?thesis
    using t(1) t(2) [of _ d'] d0 by (auto simp: do_write_def)
qed

lemma cyc_drop: "k * length x \<le> n \<Longrightarrow> drop (k * length x) (cyc x 0 n) = cyc x 0 (n - k * length x)"
  by (rule nth_equalityI) (auto simp: cyc_def)

text \<open>One round with all actions.\<close>

definition all_actions :: "rd_task \<Rightarrow> bool" where
  "all_actions task \<longleftrightarrow> d_action task = ACTION_WRITE OR ACTION_READ OR ACTION_VERIFY"

lemma begin_do_ok:
  assumes "good_dev e con cap" "steady e" "sized task" "length (d_buf task) = unat (d_size task)"
    "unat (d_testsize task) \<le> cap" "all_actions task"
  shows "\<exists>task' w'. begin_do e task w = Some (0, task', w') \<and> same_settings task task' \<and>
    con (device w') = cyc (d_buf task) 0 (unat (d_testsize task)) @ drop (unat (d_testsize task)) (con (device w))"
proof -
  let ?n = "unat (d_testsize task)"
  obtain d' where d': "do_write e task w = Some (0, w\<lparr>tick := Suc (Suc (tick w)), device := d'\<rparr>)"
    "con d' = cyc (d_buf task) 0 ?n @ drop ?n (con (device w))"
    using do_write_ok [OF assms(1-5)] by blast
  let ?w = "w\<lparr>tick := Suc (Suc (tick w)), device := d'\<rparr>"
  have c: "repeats task 0 (d_buf task) (con (device ?w))" "holds e (device ?w) (con (device ?w))"
    using assms(4) sizedD(2) [OF assms(3)] good_devD(3) [OF assms(1), of d'] by (simp_all add: repeats_def d'(2))
  have read: "do_read e task ?w = Some (0, task, ?w\<lparr>tick := Suc (Suc (tick ?w))\<rparr>)"
    using do_read_ok [OF assms(2) c(2) sizedD(1) [OF assms(3)] c(1)] by simp
  obtain task' where "do_verify e task (?w\<lparr>tick := Suc (Suc (tick ?w))\<rparr>) =
      Some (0, task', ?w\<lparr>tick := Suc (Suc (tick ?w))\<rparr>)" "same_settings task task'"
    using do_verify_ok [of e "?w\<lparr>tick := Suc (Suc (tick ?w))\<rparr>" "con d'" task] c(2) assms(3,4) d'(2) by auto
  then show ?thesis
    using d' read assms(6)
    by (auto simp: begin_do_def all_actions_def ACTION_WRITE_def ACTION_READ_def ACTION_VERIFY_def)
qed

section \<open>Whole tests\<close>

lemma length_DEFAULT_DATA: "length DEFAULT_DATA = 128"
  by (simp add: DEFAULT_DATA_def)

lemma fill_default:
  assumes "length buf = n" "0 < n" "128 dvd n"
  shows "fill_data_raw n DEFAULT_DATA buf = Some (cyc DEFAULT_DATA 0 n)"
proof -
  have "DEFAULT_DATA \<noteq> []"
    using length_DEFAULT_DATA by auto
  then show ?thesis
    using raw_loop_fills [of DEFAULT_DATA n 0 buf] assms by (simp add: fill_data_raw_def length_DEFAULT_DATA)
qed

text \<open>Sizes of buffers the test is for, and memory for them.\<close>

definition sizes_ok :: "'d rd_os \<Rightarrow> u32 \<Rightarrow> u32 list \<Rightarrow> bool" where
  "sizes_ok e n szs \<longleftrightarrow> (\<forall>sz \<in> set szs. 0 < unat sz \<and> 128 dvd unat sz \<and> sz \<le> n \<and>
     (\<exists>mem. alloc e (unat sz) = Some mem \<and> length mem = unat sz))"

definition dev_stored :: "nat \<Rightarrow> byte list \<Rightarrow> byte list" where
  "dev_stored n c = cyc DEFAULT_DATA 0 n @ drop n c"

lemma dev_stored_idem [simp]: "dev_stored n (dev_stored n c) = dev_stored n c"
  by (simp add: dev_stored_def)

definition default_test :: "rd_task \<Rightarrow> bool" where
  "default_test task \<longleftrightarrow> all_actions task \<and> d_def_data task"

lemma same_settingsD:
  assumes "same_settings task task'"
  shows "d_sizes task' = d_sizes task" "d_testsize task' = d_testsize task" "default_test task' = default_test task"
  using assms by (simp_all add: same_settings_def default_test_def all_actions_def)

lemma same_settings_trans:
  "same_settings a b \<Longrightarrow> same_settings b c \<Longrightarrow> same_settings a c"
  by (simp add: same_settings_def)

lemma size_loop_ok:
  assumes "good_dev e con cap" "steady e"
  shows "default_test task \<Longrightarrow> unat (d_testsize task) \<le> cap \<Longrightarrow> sizes_ok e (d_testsize task) szs \<Longrightarrow>
    \<exists>task' w'. size_loop e szs task w = Some (0, task', w') \<and> same_settings task task' \<and>
      con (device w') = (if szs = [] then con (device w) else dev_stored (unat (d_testsize task)) (con (device w)))"
proof (induction szs arbitrary: task w)
  case Nil
  then show ?case
    by (simp add: same_settings_def)
next
  case (Cons sz szs)
  let ?n = "unat (d_testsize task)"
  obtain mem where mem: "alloc e (unat sz) = Some mem" "length mem = unat sz" "0 < unat sz" "128 dvd unat sz"
    "sz \<le> d_testsize task"
    using Cons.prems(3) by (auto simp: sizes_ok_def)
  let ?buf = "cyc DEFAULT_DATA 0 (unat sz)"
  let ?task = "task\<lparr>d_size := sz, d_buf := ?buf\<rparr>"
  have fill: "fill_data_raw (unat sz) DEFAULT_DATA mem = Some ?buf"
    using mem by (intro fill_default)
  have "cyc ?buf 0 ?n = cyc DEFAULT_DATA 0 ?n"
    using mem(3,4) by (intro cyc_cyc) (simp_all add: length_DEFAULT_DATA)
  then obtain task' w' where r: "begin_do e ?task w = Some (0, task', w')" "same_settings ?task task'"
    "con (device w') = dev_stored ?n (con (device w))"
    using begin_do_ok [OF assms, of ?task w] Cons.prems(1,2) mem(3,5)
    by (auto simp: sized_def dev_stored_def default_test_def all_actions_def)
  have same: "same_settings task task'"
    using r(2) by (simp add: same_settings_def)
  obtain task'' w'' where t: "size_loop e szs task' w' = Some (0, task'', w'')" "same_settings task' task''"
    "con (device w'') = (if szs = [] then con (device w') else dev_stored ?n (con (device w')))"
    using Cons.IH [of task' w'] Cons.prems same_settingsD [OF same] by (auto simp: sizes_ok_def)
  have "d_def_data task"
    using Cons.prems(1) by (simp add: default_test_def)
  then have "size_loop e (sz # szs) task w = Some (0, task'', w'')"
    using mem(1) fill r(1) t(1) by simp
  then show ?case
    using t(2,3) r(3) same_settings_trans [OF same t(2)] by auto
qed

lemma times_loop_ok:
  assumes "good_dev e con cap" "steady e"
  shows "default_test task \<Longrightarrow> unat (d_testsize task) \<le> cap \<Longrightarrow> sizes_ok e (d_testsize task) (d_sizes task) \<Longrightarrow>
    d_sizes task \<noteq> [] \<Longrightarrow>
    \<exists>task' w'. times_loop e k task w = Some (0, task', w') \<and>
      con (device w') = (if k = 0 then con (device w) else dev_stored (unat (d_testsize task)) (con (device w)))"
proof (induction k arbitrary: task w)
  case (Suc k)
  obtain task' w' where r: "size_loop e (d_sizes task) task w = Some (0, task', w')" "same_settings task task'"
    "con (device w') = dev_stored (unat (d_testsize task)) (con (device w))"
    using size_loop_ok [OF assms Suc.prems(1-3)] Suc.prems(4) by fastforce
  then show ?case
    using Suc.IH [of task' w'] Suc.prems same_settingsD [OF r(2)] by auto
qed simp

section \<open>The arguments\<close>

lemma atol_kb: "n < 2 ^ 31 \<Longrightarrow> atol (dec_of_nat n @ bytes_of ''K'') = int n"
proof -
  assume n: "n < 2 ^ 31"
  obtain c r where c: "dec_of_nat n = c # r"
    by (cases "dec_of_nat n") auto
  then have h: "\<not> is_space c" "c \<noteq> 45" "c \<noteq> 43"
    using dec_of_nat_hd [of n] is_digit_not by auto
  have "takeWhile is_digit (dec_of_nat n @ bytes_of ''K'') = dec_of_nat n"
    using digits_then [of 75 n "[]"] by (simp add: bytes_of_def is_digit_def word_le_nat_alt)
  moreover have takeWhile_dec: "takeWhile is_digit (dec_of_nat n) = dec_of_nat n"
    using dec_of_nat_digits by (simp add: takeWhile_eq_all_conv)
  ultimately have "digits_val (dec_of_nat n @ bytes_of ''K'') = n"
    using digits_val_dec_of_nat [of n] takeWhile_dec by (simp add: digits_val_def)
  then show ?thesis
    using n h c by (simp add: atol_def)
qed

lemma set_size_kb:
  assumes "n * 1024 < 2 ^ 32"
  shows "set_size (dec_of_nat n @ bytes_of ''K'') = Some (Inr (of_nat (n * 1024)))"
proof -
  have "atol (dec_of_nat n @ bytes_of ''K'') = int n"
    using assms by (intro atol_kb) simp
  moreover have "(ucast (of_nat m :: 64 word) :: u32) = of_nat m" if "m < 2 ^ 32" for m
    using that by (simp add: word_unat_eq_iff unsigned_ucast_eq unsigned_of_nat take_bit_nat_eq_self)
  then have "(ucast ((of_nat n :: 64 word) * 1024) :: u32) = of_nat (n * 1024)"
    using assms by (metis of_nat_mult of_nat_numeral)
  ultimately show ?thesis
    by (simp add: set_size_def bytes_of_def)
qed

end
