(* ===== verification/Rd_Properties.thy ===== *)
theory Rd_Properties
  imports Rd_Laws
begin

text \<open>
  The properties of \<open>rwdev\<close>: a run on a device that stores what it is given, what the verification cannot
  and can tell, and the filling of the buffer, each with a witness.
\<close>

section \<open>Devices for the witnesses\<close>

text \<open>A device with its contents in memory, and one that drops what is written and reads as zeros.\<close>

definition mem_dev :: "byte list rd_os" where
  "mem_dev = \<lparr>wopen = (\<lambda>d. (True, d)),
     dev_write = (\<lambda>d pos bs. (int (length bs), take pos d @ bs @ drop (pos + length bs) d)),
     ropen = (\<lambda>_. True), dev_read = (\<lambda>d pos n. (Some (take n (drop pos d)), d)), clock = (\<lambda>_. Some (0, 0)),
     alloc = (\<lambda>n. Some (replicate n 0)), stat_mode = (\<lambda>_. Some Block_device), base_name = (\<lambda>_. bytes_of ''mmcblk0''),
     dir_name = (\<lambda>_. bytes_of ''/dev''), cwd_of = Some, mem_text = Some (bytes_of ''MemTotal: 65536 kB'')\<rparr>"

definition zero_dev :: "unit rd_os" where
  "zero_dev = \<lparr>wopen = (\<lambda>d. (True, d)), dev_write = (\<lambda>d pos bs. (int (length bs), d)),
     ropen = (\<lambda>_. True), dev_read = (\<lambda>d pos n. (Some (replicate n 0), d)), clock = (\<lambda>_. Some (0, 0)),
     alloc = (\<lambda>n. Some (replicate n 0)), stat_mode = (\<lambda>_. Some Block_device), base_name = (\<lambda>_. bytes_of ''mmcblk0''),
     dir_name = (\<lambda>_. bytes_of ''/dev''), cwd_of = Some, mem_text = Some (bytes_of ''MemTotal: 65536 kB'')\<rparr>"

definition small_task :: "byte \<Rightarrow> rd_task" where
  "small_task action = dev_task\<lparr>d_action := action, d_buf := [1, 2, 3, 4], d_size := 4, d_testsize := 12\<rparr>"

lemma samples_steady: "steady mem_dev" "steady zero_dev"
  by (simp_all add: steady_def mem_dev_def zero_dev_def)

lemma small_sized: "sized (small_task action)"
  by (simp add: sized_def small_task_def)

lemma mem_dev_holds: "holds mem_dev d d"
  by (simp add: holds_def mem_dev_def)

lemma mem_dev_good: "good_dev mem_dev (\<lambda>d. d) cap"
  using mem_dev_holds by (simp add: good_dev_def mem_dev_def holds_def)

section \<open>A run\<close>

text \<open>
  C30: without options, on a device that stores what it is given, with a clock that is not set back and
  memory for the buffer, the program succeeds, and the device then holds the default data over and over for
  as many bytes as the system has memory.
\<close>

theorem device_test_passes:
  assumes "good_dev e con cap" "steady e" "get_abs_path e file = Some path" "check_device e path"
    and "total_mem e = Some kb" "4096 \<le> unat kb" "unat kb * 1024 < 2 ^ 32" "unat kb * 1024 \<le> cap"
    and "alloc e 4194304 = Some mem" "length mem = 4194304"
  shows "\<exists>w'. rwdev_main e [] [file] w = Some (0, w') \<and>
    con (device w') = cyc DEFAULT_DATA 0 (unat kb * 1024) @ drop (unat kb * 1024) (con (device w))"
proof -
  let ?task = "dev_task\<lparr>d_dev := path, d_action := ACTION_WRITE OR ACTION_READ OR ACTION_VERIFY,
    d_sizes := [4194304], d_testsize := of_nat (unat kb * 1024), d_def_data := True, d_times := 1\<rparr>"
  have size: "unat (of_nat (unat kb * 1024) :: u32) = unat kb * 1024"
    using assms(7) by (simp add: unat_of_nat take_bit_nat_eq_self del: of_nat_mult)
  have task: "dev_defaults e (dev_task\<lparr>d_dev := path\<rparr>) = Some ?task"
    using assms(5) set_size_kb [OF assms(7)] by (simp add: dev_defaults_def dev_task_def)
  have "sizes_ok e (d_testsize ?task) (d_sizes ?task)"
    using assms(6,9,10) size by (simp add: sizes_ok_def word_le_nat_alt)
  then obtain task' w' where "times_loop e 1 ?task w = Some (0, task', w')"
    "con (device w') = dev_stored (unat kb * 1024) (con (device w))"
    using times_loop_ok [OF assms(1,2), of ?task 1 w] assms(8) size
    by (auto simp: default_test_def all_actions_def)
  moreover have "unat (d_times ?task) = 1"
    by simp
  ultimately have "begin_test e ?task w = Some (0, task', w')"
    by (simp only: begin_test_def)
  then show ?thesis
    using task assms(3,4) \<open>con (device w') = _\<close> by (simp add: rwdev_main_def dev_stored_def)
qed

theorem device_test_passes_witness:
  "\<exists>w'. rwdev_main mem_dev [] [bytes_of ''/dev/mmcblk0''] \<lparr>device = [7], tick = 0\<rparr> = Some (0, w') \<and>
     device w' = cyc DEFAULT_DATA 0 67108864"
proof -
  have "\<exists>w'. rwdev_main mem_dev [] [bytes_of ''/dev/mmcblk0''] \<lparr>device = [7], tick = 0\<rparr> = Some (0, w') \<and>
     device w' = cyc DEFAULT_DATA 0 (unat (65536 :: 64 word) * 1024) @ drop (unat (65536 :: 64 word) * 1024) [7]"
    using device_test_passes [OF mem_dev_good samples_steady(1), of "bytes_of ''/dev/mmcblk0''"
        "bytes_of ''/dev/mmcblk0''" 65536 67108864 "replicate 4194304 0" "\<lparr>device = [7], tick = 0\<rparr>"]
    by (simp add: get_abs_path_def mem_dev_def check_device_def total_mem_def bytes_of_def digits_val_def
        is_digit_def is_space_def)
  then show ?thesis
    by simp
qed

section \<open>The verification\<close>

lemma write_loop_dropped:
  assumes "\<forall>pos bs. dev_write e d pos bs = (int (length bs), d)" "length buf = bs" "0 < bs"
  shows "write_loop e buf bs rest pos d = Some (True, d)"
proof (induction rest arbitrary: pos rule: less_induct)
  case (less rest)
  then show ?case
    using assms by (subst write_loop.simps) (simp add: Let_def)
qed

lemma do_write_dropped:
  assumes "steady e" "sized task" "length (d_buf task) = unat (d_size task)"
    and "wopen e (device w) = (True, device w)"
    and "\<forall>pos bs. dev_write e (device w) pos bs = (int (length bs), device w)"
  shows "do_write e task w = Some (0, w\<lparr>tick := Suc (Suc (tick w))\<rparr>)"
proof -
  obtain t where t: "speed_start e w = (Some t, w\<lparr>tick := Suc (tick w)\<rparr>)"
    "\<And>len d. speed_end e len t (w\<lparr>tick := Suc (tick w), device := d\<rparr>) =
      (False, w\<lparr>tick := Suc (Suc (tick w)), device := d\<rparr>)"
    using steady_times [OF assms(1)] by blast
  then show ?thesis
    using t(2) [of _ "device w"] assms(4) write_loop_dropped [OF assms(5,3) sizedD(1) [OF assms(2)]]
    by (cases w) (simp add: do_write_def)
qed

text \<open>
  C31: the verification compares two checksums of what it has read. A device that drops everything that is
  written passes a round with all actions if it reads as any one chunk over and over, whatever the buffer
  was filled with.
\<close>

theorem dropped_writes_verify:
  assumes "steady e" "sized task" "all_actions task" "length (d_buf task) = unat (d_size task)"
    and "wopen e (device w) = (True, device w)"
    and "\<forall>pos bs. dev_write e (device w) pos bs = (int (length bs), device w)"
    and "holds e (device w) (cyc x 0 (unat (d_testsize task)))" "length x = unat (d_size task)"
  shows "\<exists>task'. begin_do e task w = Some (0, task', w\<lparr>tick := tick w + 4\<rparr>)"
proof -
  let ?w = "w\<lparr>tick := Suc (Suc (tick w))\<rparr>" and ?n = "unat (d_testsize task)"
  have "repeats task 0 x (cyc x 0 ?n)" "holds e (device ?w) (cyc x 0 ?n)"
    using assms(7,8) sizedD(2) [OF assms(2)] by (simp_all add: repeats_def)
  from read_verify_ok [OF assms(1) this(2) assms(2) this(1)]
  show ?thesis
    using assms(3) do_write_dropped [OF assms(1,2,4-6)]
    by (auto simp: begin_do_def all_actions_def ACTION_WRITE_def ACTION_READ_def ACTION_VERIFY_def
        eval_nat_numeral)
qed

theorem dropped_writes_verify_witness:
  "\<exists>task'. begin_do zero_dev (small_task 7) \<lparr>device = (), tick = 0\<rparr> = Some (0, task', \<lparr>device = (), tick = 4\<rparr>) \<and>
     d_buf (small_task 7) = [1, 2, 3, 4]"
proof -
  have "cyc (replicate 4 0) 0 12 = replicate 12 (0 :: byte)"
    by (rule nth_equalityI) (simp_all add: cyc_def)
  then have "holds zero_dev () (cyc (replicate 4 0) 0 12)"
    by (auto simp: holds_def zero_dev_def min_def)
  moreover have "all_actions (small_task 7)"
    by (simp add: all_actions_def small_task_def ACTION_WRITE_def ACTION_READ_def ACTION_VERIFY_def)
  ultimately show ?thesis
    using dropped_writes_verify [OF samples_steady(2) small_sized, of 7 "\<lparr>device = (), tick = 0\<rparr>" "replicate 4 0"]
    by (simp add: small_task_def zero_dev_def)
qed

text \<open>
  C32: what the verification does tell: if the device reads as one chunk over and over, except for a change
  within two consecutive bytes before the last full chunk, it fails.
\<close>

theorem changed_chunk_fails:
  assumes "steady e" "sized task" "d_action task = ACTION_READ OR ACTION_VERIFY" "length x = unat (d_size task)"
    and "pre @ z @ post = cyc x 0 (unat (d_testsize task))" "holds e (device w) (pre @ y @ post)"
    and "length y = length z" "length z \<le> 2" "y \<noteq> z"
    and "length (pre @ z) \<le> k * unat (d_size task)" "(k + 1) * unat (d_size task) \<le> unat (d_testsize task)"
  shows "\<exists>task' w'. begin_do e task w = Some (-1, task', w')"
proof -
  let ?b = "unat (d_size task)" and ?n = "unat (d_testsize task)"
  have len: "length (pre @ z @ post) = ?n"
    using assms(5) by simp
  have "drop (k * ?b) (pre @ y @ post) = drop (k * ?b) (pre @ z @ post)"
    using assms(7,10) by simp
  also have "\<dots> = cyc x 0 (?n - k * ?b)"
    using assms(4,5,11) cyc_drop [of k x ?n] by simp
  finally have "repeats task k x (pre @ y @ post)"
    using assms(4,7,11) len by (simp add: repeats_def)
  from read_verify_ok [OF assms(1,6,2) this]
  moreover have "crc16_common CRC_INIT (take ?n (pre @ y @ post)) \<noteq> crc16_common CRC_INIT (cyc x 0 ?n)"
  proof -
    have "length (pre @ y @ post) = ?n"
      using len assms(7) by simp
    then show ?thesis
      using crc16_poly.burst [of z y CRC_INIT pre post] assms(5,7-9) by (auto simp: crc16_ref)
  qed
  ultimately show ?thesis
    using assms(3) by (auto simp: begin_do_def ACTION_WRITE_def ACTION_READ_def ACTION_VERIFY_def)
qed

theorem changed_chunk_fails_witness:
  "\<exists>task' w'. begin_do mem_dev (small_task 6) \<lparr>device = [1, 2, 3, 4, 1, 9, 3, 4, 1, 2, 3, 4], tick = 0\<rparr> =
     Some (-1, task', w')"
proof -
  have "cyc [1, 2, 3, 4 :: byte] 0 12 = [1, 2, 3, 4, 1] @ [2] @ [3, 4, 1, 2, 3, 4]"
    by (simp add: cyc_def upt_rec)
  then show ?thesis
    using changed_chunk_fails [OF samples_steady(1) small_sized, of 6 "[1, 2, 3, 4]" "[1, 2, 3, 4, 1]" "[2]"
        "[3, 4, 1, 2, 3, 4]" "\<lparr>device = [1, 2, 3, 4, 1, 9, 3, 4, 1, 2, 3, 4], tick = 0\<rparr>" "[9]" 2]
      mem_dev_holds
    by (simp add: small_task_def ACTION_READ_def ACTION_VERIFY_def)
qed

section \<open>The test data\<close>

text \<open>
  C33: the buffer is filled with the data over and over if it is not longer than the data or a multiple of
  it; else its last byte is never written; and data without a byte, \<open>0x\<close>, makes the filling endless.
\<close>

theorem fill_data_raw_cases:
  assumes "length buf = n" "0 < n"
  shows "(data \<noteq> [] \<and> (n \<le> length data \<or> length data dvd n) \<longrightarrow>
      fill_data_raw n data buf = Some (cyc data 0 n)) \<and>
    (data \<noteq> [] \<and> length data < n \<and> \<not> length data dvd n \<longrightarrow>
      (\<exists>buf'. fill_data_raw n data buf = Some buf' \<and> buf' ! (n - 1) = buf ! (n - 1))) \<and>
    (data = [] \<longrightarrow> fill_data_raw n data buf = None)"
  using raw_loop_fills [of data n 0 buf] raw_loop_misses [of data n 0 buf] raw_loop_endless [of n 0 buf] assms
  by (auto simp: fill_data_raw_def)

theorem fill_data_raw_cases_witness:
  "fill_data_raw 6 [1, 2, 3] [0, 0, 0, 0, 0, 0] = Some [1, 2, 3, 1, 2, 3] \<and>
   (\<exists>buf'. fill_data_raw 4 [1, 2, 3] [0, 0, 0, 9] = Some buf' \<and> buf' ! 3 = 9) \<and>
   fill_data_raw 2 [] [0, 0] = None"
  using fill_data_raw_cases [of "[0, 0, 0, 0, 0, 0]" 6 "[1, 2, 3]"]
    fill_data_raw_cases [of "[0, 0, 0, 9]" 4 "[1, 2, 3]"] fill_data_raw_cases [of "[0, 0]" 2 "[]"]
  by (simp add: cyc_def upt_rec numeral_3_eq_3 [symmetric])

text \<open>The check of a buffer that carries its own checksum never succeeds on good data.\<close>

lemma buf_check_rejects_good: "\<not> buf_check_crc16 (data @ le16 (get_crc16_buf data))"
proof -
  have "crc16_common CRC_INIT (data @ le16 (get_crc16_buf data)) = GOOD_CRC"
    by (simp add: crc16_append get_crc16_buf_def crc16_residue)
  then show ?thesis
    by (simp add: buf_check_crc16_def get_crc16_buf_def GOOD_CRC_def)
qed

end
