(* ===== verification/Im_Threads.thy ===== *)
theory Im_Threads
  imports Step_Bounds
begin

text \<open>
  \<open>parallel_insmod\<close>: four threads load kernel modules from a list that is grouped by the height of the
  modules in their graph of dependencies, and wait for one group before they start with the next. The
  steps of the threads are a relation; what the program may not do in the middle of a step is done under
  one of its two mutexes. \<open>line_len\<close> is taken for the size of the buffer of \<open>getline\<close>, although it has no
  value.
\<close>

section \<open>The list of modules\<close>

definition NUM_THREAD :: nat where "NUM_THREAD = 4"

text \<open>A line with its terminator, as \<open>getline\<close> returns it.\<close>

definition is_height :: "cstr \<Rightarrow> bool" where
  "is_height line \<longleftrightarrow> take 6 line = bytes_of ''Height''"

text \<open>The name for \<open>insmod\<close>: the line behind its first character, in a buffer of 1024 bytes.\<close>

definition insmod_name :: "cstr \<Rightarrow> cstr \<Rightarrow> cstr" where
  "insmod_name module_path line = take 1023 (module_path @ bytes_of ''/'' @ drop 1 line)"

text \<open>The height of a line: the number of groups that have begun before it.\<close>

definition level :: "cstr list \<Rightarrow> nat \<Rightarrow> nat" where
  "level lines k = length (filter is_height (take k lines))"

section \<open>The threads\<close>

text \<open>
  \<open>Im_new\<close> is a thread that \<open>main\<close> has not created yet, \<open>Im_top\<close> the head of the loop of \<open>insmod_thread\<close>, \<open>Im_get\<close> the label \<open>again\<close> with \<open>lock\<close> held, \<open>Im_barrier\<close> and
  \<open>Im_wait\<close> the loop around \<open>pthread_cond_wait\<close>, \<open>Im_got\<close> has read the line of a module, \<open>Im_fork\<close> and \<open>Im_reap\<close> are
  before \<open>vfork\<close> and \<open>wait\<close>, and \<open>Im_put\<close> before \<open>put_module\<close>.
\<close>

datatype im_pc = Im_new | Im_top | Im_get | Im_barrier | Im_wait | Im_got nat | Im_fork nat | Im_reap | Im_put | Im_done

text \<open>What the outside world sees; modules are the numbers of their lines.\<close>

datatype im_event = Im_start nat | Im_end nat

record im_state =
  pos :: nat
  lock :: "nat option"
  pc :: "nat \<Rightarrow> im_pc"
  insmoding :: nat
  cur_height :: nat
  running :: "nat set"
  zombies :: "nat set"
  exited :: bool
  events :: "im_event list"

definition im_init :: im_state where
  "im_init = \<lparr>pos = 0, lock = None, pc = (\<lambda>_. Im_new), insmoding = 0, cur_height = 0, running = {}, zombies = {},
     exited = False, events = []\<rparr>"

abbreviation goto :: "im_state \<Rightarrow> nat \<Rightarrow> im_pc \<Rightarrow> im_state" where
  "goto s t p \<equiv> s\<lparr>pc := (pc s)(t := p)\<rparr>"

section \<open>get\_module and put\_module\<close>

text \<open>The line that is read at \<open>again\<close>, or the end of the file; \<open>lock\<close> is held.\<close>

definition get_line :: "cstr list \<Rightarrow> nat \<Rightarrow> im_state \<Rightarrow> im_state" where
  "get_line lines t s =
     (if length lines \<le> pos s then (goto s t Im_done)\<lparr>lock := None\<rparr>
      else if is_height (lines ! pos s) then (goto s t Im_barrier)\<lparr>pos := pos s + 1\<rparr>
      else (goto s t (Im_got (pos s)))\<lparr>pos := pos s + 1\<rparr>)"

text \<open>The condition of the loop around \<open>pthread_cond_wait\<close>, under \<open>mutex\<close>.\<close>

definition check_barrier :: "nat \<Rightarrow> im_state \<Rightarrow> im_state" where
  "check_barrier t s =
     (if insmoding s \<noteq> 0 then goto s t Im_wait
      else (goto s t Im_get)\<lparr>cur_height := cur_height s + 1\<rparr>)"

definition count_module :: "nat \<Rightarrow> nat \<Rightarrow> im_state \<Rightarrow> im_state" where
  "count_module t k s = (goto s t (Im_fork k))\<lparr>insmoding := insmoding s + 1, lock := None\<rparr>"

definition put_count :: "im_state \<Rightarrow> nat" where
  "put_count s = (if insmoding s \<noteq> 0 then insmoding s - 1 else 0)"

definition put_module :: "nat \<Rightarrow> im_state \<Rightarrow> im_state" where
  "put_module t s = (goto s t Im_top)\<lparr>insmoding := put_count s\<rparr>"

section \<open>Steps\<close>

text \<open>
  \<open>main\<close>'s loop around \<open>pthread_create\<close>, a thread's own step, the waking of a waiting thread by another one's \<open>put_module\<close>, a spurious wake-up,
  the end of a child, or a \<open>pthread_create\<close> or a \<open>vfork\<close> that fails, which ends the program. \<open>wait\<close> returns for any child of the
  process, or at once if there is none.
\<close>

datatype im_label = Im_create nat | Im_create_fails nat | Im_thread nat | Im_signal nat nat | Im_spurious nat | Im_child nat | Im_fork_fails nat

inductive im_step :: "cstr list \<Rightarrow> im_label \<Rightarrow> im_state \<Rightarrow> im_state \<Rightarrow> bool" for lines where
  im_create: "\<not> exited s \<Longrightarrow> t < NUM_THREAD \<Longrightarrow> pc s t = Im_new \<Longrightarrow> \<forall>u < t. pc s u \<noteq> Im_new \<Longrightarrow>
    im_step lines (Im_create t) s (goto s t Im_top)"
| im_create_fails: "\<not> exited s \<Longrightarrow> t < NUM_THREAD \<Longrightarrow> pc s t = Im_new \<Longrightarrow> \<forall>u < t. pc s u \<noteq> Im_new \<Longrightarrow>
    im_step lines (Im_create_fails t) s (s\<lparr>exited := True\<rparr>)"
| im_lock: "\<not> exited s \<Longrightarrow> t < NUM_THREAD \<Longrightarrow> pc s t = Im_top \<Longrightarrow> lock s = None \<Longrightarrow>
    im_step lines (Im_thread t) s ((goto s t Im_get)\<lparr>lock := Some t\<rparr>)"
| im_line: "\<not> exited s \<Longrightarrow> t < NUM_THREAD \<Longrightarrow> pc s t = Im_get \<Longrightarrow> im_step lines (Im_thread t) s (get_line lines t s)"
| im_check: "\<not> exited s \<Longrightarrow> t < NUM_THREAD \<Longrightarrow> pc s t = Im_barrier \<Longrightarrow> im_step lines (Im_thread t) s (check_barrier t s)"
| im_spurious: "\<not> exited s \<Longrightarrow> t < NUM_THREAD \<Longrightarrow> pc s t = Im_wait \<Longrightarrow> im_step lines (Im_spurious t) s (goto s t Im_barrier)"
| im_count: "\<not> exited s \<Longrightarrow> t < NUM_THREAD \<Longrightarrow> pc s t = Im_got k \<Longrightarrow> im_step lines (Im_thread t) s (count_module t k s)"
| im_fork: "\<not> exited s \<Longrightarrow> t < NUM_THREAD \<Longrightarrow> pc s t = Im_fork k \<Longrightarrow>
    im_step lines (Im_thread t) s ((goto s t Im_reap)\<lparr>running := insert k (running s), events := events s @ [Im_start k]\<rparr>)"
| im_fork_fails: "\<not> exited s \<Longrightarrow> t < NUM_THREAD \<Longrightarrow> pc s t = Im_fork k \<Longrightarrow>
    im_step lines (Im_fork_fails t) s (s\<lparr>exited := True\<rparr>)"
| im_child: "\<not> exited s \<Longrightarrow> k \<in> running s \<Longrightarrow> im_step lines (Im_child k) s
    (s\<lparr>running := running s - {k}, zombies := insert k (zombies s), events := events s @ [Im_end k]\<rparr>)"
| im_reap: "\<not> exited s \<Longrightarrow> t < NUM_THREAD \<Longrightarrow> pc s t = Im_reap \<Longrightarrow> k \<in> zombies s \<Longrightarrow>
    im_step lines (Im_thread t) s ((goto s t Im_put)\<lparr>zombies := zombies s - {k}\<rparr>)"
| im_no_child: "\<not> exited s \<Longrightarrow> t < NUM_THREAD \<Longrightarrow> pc s t = Im_reap \<Longrightarrow> running s = {} \<Longrightarrow> zombies s = {} \<Longrightarrow>
    im_step lines (Im_thread t) s (goto s t Im_put)"
| im_put: "\<not> exited s \<Longrightarrow> t < NUM_THREAD \<Longrightarrow> pc s t = Im_put \<Longrightarrow>
    put_count s \<noteq> 0 \<or> (\<forall>u < NUM_THREAD. pc s u \<noteq> Im_wait) \<Longrightarrow> im_step lines (Im_thread t) s (put_module t s)"
| im_signal: "\<not> exited s \<Longrightarrow> t < NUM_THREAD \<Longrightarrow> pc s t = Im_put \<Longrightarrow> put_count s = 0 \<Longrightarrow> u < NUM_THREAD \<Longrightarrow> pc s u = Im_wait \<Longrightarrow>
    im_step lines (Im_signal t u) s (goto (put_module t s) u Im_barrier)"

section \<open>Counting threads\<close>

fun cnt :: "(im_pc \<Rightarrow> bool) \<Rightarrow> (nat \<Rightarrow> im_pc) \<Rightarrow> nat \<Rightarrow> nat" where
  "cnt P f 0 = 0"
| "cnt P f (Suc n) = cnt P f n + (if P (f n) then 1 else 0)"

lemma cnt_other: "n \<le> t \<Longrightarrow> cnt P (f(t := p)) n = cnt P f n"
  by (induction n) auto

lemma cnt_upd: "t < n \<Longrightarrow> cnt P (f(t := p)) n + (if P (f t) then 1 else 0) = cnt P f n + (if P p then 1 else 0)"
proof (induction n)
  case (Suc n)
  then show ?case
    using cnt_other [of n n P f p] by (cases "t = n") (auto simp del: fun_upd_apply simp: fun_upd_same fun_upd_other)
qed simp

lemma cnt_pos: "0 < cnt P f n \<longleftrightarrow> (\<exists>t < n. P (f t))"
  by (induction n) (auto simp: less_Suc_eq)

lemma cnt_zero: "cnt P f n = 0 \<longleftrightarrow> (\<forall>t < n. \<not> P (f t))"
  using cnt_pos [of P f n] by auto

fun ranks :: "(im_pc \<Rightarrow> nat) \<Rightarrow> (nat \<Rightarrow> im_pc) \<Rightarrow> nat \<Rightarrow> nat" where
  "ranks r f 0 = 0"
| "ranks r f (Suc n) = ranks r f n + r (f n)"

lemma ranks_other: "n \<le> t \<Longrightarrow> ranks r (f(t := p)) n = ranks r f n"
  by (induction n) auto

lemma ranks_upd: "t < n \<Longrightarrow> ranks r (f(t := p)) n + r (f t) = ranks r f n + r p"
proof (induction n)
  case (Suc n)
  then show ?case
    using ranks_other [of n n r f p] by (cases "t = n") (auto simp del: fun_upd_apply simp: fun_upd_same fun_upd_other)
qed simp

section \<open>The invariant\<close>

definition holding :: "im_pc \<Rightarrow> bool" where
  "holding p \<longleftrightarrow> p = Im_get \<or> p = Im_barrier \<or> p = Im_wait \<or> (\<exists>k. p = Im_got k)"

definition busy :: "im_pc \<Rightarrow> bool" where
  "busy p \<longleftrightarrow> (\<exists>k. p = Im_fork k) \<or> p = Im_reap \<or> p = Im_put"

lemma pc_kinds [simp]:
  "\<not> holding Im_new" "\<not> busy Im_new" "\<not> holding Im_top" "holding Im_get" "holding Im_barrier" "holding Im_wait" "holding (Im_got k)"
  "\<not> holding (Im_fork k)" "\<not> holding Im_reap" "\<not> holding Im_put" "\<not> holding Im_done"
  "\<not> busy Im_top" "\<not> busy Im_get" "\<not> busy Im_barrier" "\<not> busy Im_wait" "\<not> busy (Im_got k)"
  "busy (Im_fork k)" "busy Im_reap" "busy Im_put" "\<not> busy Im_done"
  by (simp_all add: holding_def busy_def)

text \<open>The module line that a thread has and has not started.\<close>

fun line_of :: "im_pc \<Rightarrow> nat option" where
  "line_of (Im_got k) = Some k"
| "line_of (Im_fork k) = Some k"
| "line_of _ = None"

definition has_line :: "(nat \<Rightarrow> im_pc) \<Rightarrow> nat \<Rightarrow> bool" where
  "has_line f k \<longleftrightarrow> (\<exists>t < NUM_THREAD. line_of (f t) = Some k)"

lemma has_lineI: "t < NUM_THREAD \<Longrightarrow> line_of (f t) = Some k \<Longrightarrow> has_line f k"
  by (auto simp: has_line_def)

definition one_thread_each :: "(nat \<Rightarrow> im_pc) \<Rightarrow> bool" where
  "one_thread_each f \<longleftrightarrow> (\<forall>t < NUM_THREAD. \<forall>u < NUM_THREAD. line_of (f t) \<noteq> None \<longrightarrow> line_of (f t) = line_of (f u) \<longrightarrow> t = u)"

lemma has_line_same [simp]: "line_of (f t) = line_of p \<Longrightarrow> has_line (f(t := p)) = has_line f"
  by (intro ext) (auto simp: has_line_def)

lemma line_of_same: "line_of (f t) = line_of p \<Longrightarrow> line_of ((f(t := p)) u) = line_of (f u)"
  by simp

lemma one_thread_same [simp]: "line_of (f t) = line_of p \<Longrightarrow> one_thread_each (f(t := p)) = one_thread_each f"
  unfolding one_thread_each_def by (simp only: line_of_same)

lemma has_line_new: "line_of (f t) = None \<Longrightarrow> line_of p = Some k \<Longrightarrow> t < NUM_THREAD \<Longrightarrow>
  has_line (f(t := p)) j \<longleftrightarrow> has_line f j \<or> j = k"
  unfolding has_line_def by (metis (mono_tags, lifting) fun_upd_apply option.distinct(1) option.inject)

lemma one_thread_new: "one_thread_each f \<Longrightarrow> \<not> has_line f k \<Longrightarrow> line_of p = Some k \<Longrightarrow> one_thread_each (f(t := p))"
  by (auto simp: one_thread_each_def has_line_def)

lemma has_line_gone:
  assumes "one_thread_each f" "line_of (f t) = Some k" "line_of p = None" "t < NUM_THREAD"
  shows "has_line (f(t := p)) j \<longleftrightarrow> has_line f j \<and> j \<noteq> k"
proof
  assume "has_line (f(t := p)) j"
  then obtain u where u: "u < NUM_THREAD" "line_of ((f(t := p)) u) = Some j"
    by (auto simp: has_line_def)
  then have "u \<noteq> t" "line_of (f u) = Some j"
    using assms(3) by (auto split: if_splits)
  then show "has_line f j \<and> j \<noteq> k"
    using assms u(1) unfolding has_line_def one_thread_each_def by (metis option.distinct(1))
next
  assume "has_line f j \<and> j \<noteq> k"
  then obtain u where u: "u < NUM_THREAD" "line_of (f u) = Some j" "j \<noteq> k"
    by (auto simp: has_line_def)
  then have "u \<noteq> t"
    using assms(2) by auto
  then show "has_line (f(t := p)) j"
    using u unfolding has_line_def by (intro exI [of _ u]) simp
qed

lemma one_thread_gone: "one_thread_each f \<Longrightarrow> line_of p = None \<Longrightarrow> one_thread_each (f(t := p))"
  by (auto simp: one_thread_each_def)

text \<open>The thread that has read a line with a height and waits for the modules before it.\<close>

definition at_barrier :: "im_pc \<Rightarrow> bool" where
  "at_barrier p \<longleftrightarrow> p = Im_barrier \<or> p = Im_wait"

lemma at_barrier_kinds [simp]:
  "\<not> at_barrier Im_new" "\<not> at_barrier Im_top" "\<not> at_barrier Im_get" "at_barrier Im_barrier" "at_barrier Im_wait"
  "\<not> at_barrier (Im_got k)" "\<not> at_barrier (Im_fork k)" "\<not> at_barrier Im_reap" "\<not> at_barrier Im_put" "\<not> at_barrier Im_done"
  by (simp_all add: at_barrier_def)

definition pending :: "(nat \<Rightarrow> im_pc) \<Rightarrow> bool" where
  "pending f \<longleftrightarrow> (\<exists>t < NUM_THREAD. at_barrier (f t))"

lemma pendingI: "t < NUM_THREAD \<Longrightarrow> at_barrier (f t) \<Longrightarrow> pending f"
  by (auto simp: pending_def)

lemma pending_same: "at_barrier (f t) = at_barrier p \<Longrightarrow> pending (f(t := p)) = pending f"
  by (auto simp: pending_def)

definition is_module :: "cstr list \<Rightarrow> nat \<Rightarrow> bool" where
  "is_module lines k \<longleftrightarrow> k < length lines \<and> \<not> is_height (lines ! k)"

definition inv_lock :: "im_state \<Rightarrow> bool" where
  "inv_lock s \<longleftrightarrow> (\<forall>t. lock s = Some t \<longrightarrow> t < NUM_THREAD) \<and> (\<forall>t < NUM_THREAD. holding (pc s t) \<longleftrightarrow> lock s = Some t)"

definition inv_count :: "im_state \<Rightarrow> bool" where
  "inv_count s \<longleftrightarrow> insmoding s = cnt busy (pc s) NUM_THREAD \<and> finite (running s) \<and> finite (zombies s) \<and>
     running s \<inter> zombies s = {} \<and> card (running s \<union> zombies s) = cnt (\<lambda>p. p = Im_reap) (pc s) NUM_THREAD"

definition inv_wait :: "im_state \<Rightarrow> bool" where
  "inv_wait s \<longleftrightarrow> (\<forall>t < NUM_THREAD. pc s t = Im_wait \<longrightarrow> insmoding s \<noteq> 0)"

text \<open>A thread ends when the file has been read.\<close>

definition inv_done :: "cstr list \<Rightarrow> im_state \<Rightarrow> bool" where
  "inv_done lines s \<longleftrightarrow> (\<forall>t < NUM_THREAD. pc s t = Im_done \<longrightarrow> length lines \<le> pos s)"

text \<open>What has been started and has ended, and who has the modules that have not been started.\<close>

definition inv_mods :: "cstr list \<Rightarrow> im_state \<Rightarrow> bool" where
  "inv_mods lines s \<longleftrightarrow>
     (\<forall>k. has_line (pc s) k \<longrightarrow> is_module lines k \<and> k < pos s) \<and> one_thread_each (pc s) \<and>
     (\<forall>k. Im_start k \<in> set (events s) \<longleftrightarrow> is_module lines k \<and> k < pos s \<and> \<not> has_line (pc s) k) \<and>
     (\<forall>k. k \<in> running s \<longleftrightarrow> Im_start k \<in> set (events s) \<and> Im_end k \<notin> set (events s)) \<and>
     (\<forall>k. k \<in> zombies s \<longrightarrow> Im_end k \<in> set (events s)) \<and>
     (\<forall>k. Im_end k \<in> set (events s) \<longrightarrow> Im_start k \<in> set (events s)) \<and>
     distinct (events s)"

definition inv_height :: "cstr list \<Rightarrow> im_state \<Rightarrow> bool" where
  "inv_height lines s \<longleftrightarrow>
     pos s \<le> length lines \<and>
     cur_height s + (if pending (pc s) then 1 else 0) = level lines (pos s) \<and>
     (pending (pc s) \<longrightarrow> 0 < pos s \<and> is_height (lines ! (pos s - 1))) \<and>
     (\<forall>j. is_module lines j \<longrightarrow> level lines j < cur_height s \<longrightarrow> Im_end j \<in> set (events s))"

definition ordered :: "cstr list \<Rightarrow> im_event list \<Rightarrow> bool" where
  "ordered lines ev \<longleftrightarrow> (\<forall>pre k post. ev = pre @ Im_start k # post \<longrightarrow>
     (\<forall>j. is_module lines j \<longrightarrow> level lines j < level lines k \<longrightarrow> Im_end j \<in> set pre))"

lemma ordered_snoc:
  "ordered lines ev \<Longrightarrow> (\<And>k j. e = Im_start k \<Longrightarrow> is_module lines j \<Longrightarrow> level lines j < level lines k \<Longrightarrow> Im_end j \<in> set ev) \<Longrightarrow>
   ordered lines (ev @ [e])"
  unfolding ordered_def
proof (intro allI impI)
  fix pre k post j
  assume o: "\<forall>pre k post. ev = pre @ Im_start k # post \<longrightarrow>
     (\<forall>j. is_module lines j \<longrightarrow> level lines j < level lines k \<longrightarrow> Im_end j \<in> set pre)"
    and e: "\<And>k j. e = Im_start k \<Longrightarrow> is_module lines j \<Longrightarrow> level lines j < level lines k \<Longrightarrow> Im_end j \<in> set ev"
    and ev: "ev @ [e] = pre @ Im_start k # post" and j: "is_module lines j" "level lines j < level lines k"
  show "Im_end j \<in> set pre"
  proof (cases post rule: rev_cases)
    case Nil
    then show ?thesis
      using ev e [of k j] j by simp
  next
    case (snoc ys y)
    then show ?thesis
      using ev o j by auto
  qed
qed

lemma level_Suc: "k < length lines \<Longrightarrow> level lines (Suc k) = level lines k + (if is_height (lines ! k) then 1 else 0)"
  by (simp add: level_def take_Suc_conv_app_nth)

lemma level_mono: "j \<le> k \<Longrightarrow> level lines j \<le> level lines k"
proof -
  assume "j \<le> k"
  then have "take k lines = take j lines @ drop j (take k lines)"
    by (metis append_take_drop_id min.absorb2 min.commute take_take)
  then show ?thesis
    unfolding level_def by (metis filter_append le_add1 length_append)
qed

section \<open>The steps keep the invariant\<close>

lemma lock_kept: "im_step lines a s s' \<Longrightarrow> inv_lock s \<Longrightarrow> inv_lock s'"
  by (induction rule: im_step.induct)
    (auto simp: inv_lock_def get_line_def check_barrier_def count_module_def put_module_def split: if_splits)

lemma one_holder: "inv_lock s \<Longrightarrow> t < NUM_THREAD \<Longrightarrow> u < NUM_THREAD \<Longrightarrow> holding (pc s t) \<Longrightarrow> holding (pc s u) \<Longrightarrow> t = u"
  by (auto simp: inv_lock_def)

lemma wait_kept: "im_step lines a s s' \<Longrightarrow> inv_lock s \<Longrightarrow> inv_wait s \<Longrightarrow> inv_wait s'"
proof (induction rule: im_step.induct)
  case (im_signal s t u)
  then have "pc s v \<noteq> Im_wait" if "v < NUM_THREAD" "v \<noteq> u" for v
    using one_holder [of s v u] that by auto
  then show ?case
    using im_signal by (auto simp: inv_wait_def put_module_def)
qed (auto simp: inv_wait_def get_line_def check_barrier_def count_module_def put_module_def split: if_splits)

lemma cnt_set:
  "t < NUM_THREAD \<Longrightarrow> cnt P (f(t := p)) NUM_THREAD =
    cnt P f NUM_THREAD + (if P p then 1 else 0) - (if P (f t) then 1 else 0)"
  using cnt_upd [of t NUM_THREAD P f p] by auto

lemma count_kept:
  "im_step lines a s s' \<Longrightarrow> inv_mods lines s \<Longrightarrow> inv_count s \<Longrightarrow> inv_count s'"
proof (induction rule: im_step.induct)
  case (im_fork s t k)
  then have "has_line (pc s) k"
    by (auto intro: has_lineI)
  then have "k \<notin> running s \<union> zombies s"
    using im_fork by (auto simp: inv_mods_def)
  then show ?case
    using im_fork by (auto simp: inv_count_def cnt_set)
next
  case (im_child s k)
  then have "running s - {k} \<union> insert k (zombies s) = running s \<union> zombies s"
    by auto
  then show ?case
    using im_child by (auto simp: inv_count_def)
next
  case (im_reap s t k)
  then have "running s \<union> (zombies s - {k}) = running s \<union> zombies s - {k}" "k \<in> running s \<union> zombies s"
    by (auto simp: inv_count_def)
  then show ?case
    using im_reap by (auto simp: inv_count_def cnt_set)
next
  case (im_signal s t u)
  then have "t \<noteq> u"
    by auto
  then show ?case
    using im_signal by (auto simp: inv_count_def cnt_set put_module_def put_count_def)
qed (auto simp: inv_count_def get_line_def check_barrier_def count_module_def put_module_def put_count_def cnt_set
    split: if_splits)

lemma is_module_less_Suc:
  "is_module lines k \<and> k < Suc n \<longleftrightarrow> is_module lines k \<and> k < n \<or> k = n \<and> is_module lines n"
  by (auto simp: less_Suc_eq)

lemma mods_goto: "line_of (pc s t) = line_of p \<Longrightarrow> inv_mods lines (goto s t p) = inv_mods lines s"
  by (simp add: inv_mods_def)

text \<open>What the locks and the counts are does not matter.\<close>

lemma mods_same:
  assumes "inv_mods lines s" and same: "pos s' = pos s" "pc s' = pc s" "running s' = running s" "zombies s' = zombies s"
    "events s' = events s"
  shows "inv_mods lines s'"
  using assms(1) unfolding inv_mods_def same .

lemma mods_step:
  assumes "inv_mods lines s" "line_of (pc s t) = line_of p" "pos s' = pos s" "pc s' = (pc s)(t := p)"
    "running s' = running s" "zombies s' = zombies s" "events s' = events s"
  shows "inv_mods lines s'"
  using mods_same [of lines "goto s t p" s'] mods_goto [of s t p lines] assms by simp

lemma mods_child:
  assumes "inv_mods lines s" "k \<in> running s"
  shows "inv_mods lines (s\<lparr>running := running s - {k}, zombies := insert k (zombies s), events := events s @ [Im_end k]\<rparr>)"
  using assms by (auto simp: inv_mods_def)

lemma mods_zombie: "inv_mods lines s \<Longrightarrow> inv_mods lines (s\<lparr>zombies := zombies s - {k}\<rparr>)"
  unfolding inv_mods_def by auto

lemma mods_kept: "im_step lines a s s' \<Longrightarrow> inv_mods lines s \<Longrightarrow> inv_mods lines s'"
proof (induction rule: im_step.induct)
  case (im_line s t)
  show ?case
  proof (cases "is_module lines (pos s)")
    case True
    then have new: "\<not> has_line (pc s) (pos s)" "line_of (pc s t) = None"
      using im_line by (auto simp: inv_mods_def)
    show ?thesis
      using im_line True has_line_new [of "pc s" t "Im_got (pos s)" "pos s"] new(2) one_thread_new [OF _ new(1)]
      by (auto simp: inv_mods_def get_line_def is_module_def less_Suc_eq)
  next
    case False
    then have "is_module lines k \<and> k < Suc (pos s) \<longleftrightarrow> is_module lines k \<and> k < pos s" for k
      by (auto simp: less_Suc_eq)
    then show ?thesis
      using im_line False by (auto simp: inv_mods_def get_line_def is_module_def)
  qed
next
  case (im_fork s t k)
  have one: "one_thread_each (pc s)" "line_of (pc s t) = Some k"
    using im_fork by (simp_all add: inv_mods_def)
  have k: "has_line (pc s) k" "Im_start k \<notin> set (events s)" "Im_end k \<notin> set (events s)"
    using im_fork has_lineI [of t "pc s" k] by (auto simp: inv_mods_def)
  show ?case
    using im_fork k has_line_gone [OF one, of Im_reap] one_thread_gone [OF one(1), of Im_reap t]
    by (auto simp: inv_mods_def)
next
  case (im_child s k)
  then show ?case
    by (simp add: mods_child)
next
  case (im_reap s t k)
  then show ?case
    using mods_zombie [of lines "goto s t Im_put" k] by (simp add: mods_goto)
next
  case (im_signal s t u)
  then have "inv_mods lines (goto s t Im_top)" "t \<noteq> u"
    by (auto simp: mods_goto)
  then show ?case
    by (rule_tac mods_step [of lines "goto s t Im_top" u Im_barrier]) (simp_all add: im_signal put_module_def)
next
  case (im_check s t)
  then show ?case
    using mods_step [of lines s t Im_wait "check_barrier t s"] mods_step [of lines s t Im_get "check_barrier t s"]
    by (cases "insmoding s = 0") (simp_all add: check_barrier_def)
next
  case (im_create s t)
  then show ?case
    by (simp add: mods_goto)
next
  case (im_create_fails s t)
  then show ?case
    by (auto intro: mods_same)
next
  case (im_fork_fails s t)
  then show ?case
    by (auto intro: mods_same)
next
  case (im_lock s t)
  then show ?case
    by (simp add: mods_step [of lines s t "Im_get"])
next
  case (im_spurious s t)
  then show ?case
    by (simp add: mods_step [of lines s t "Im_barrier"])
next
  case (im_count s t k)
  then show ?case
    by (simp add: mods_step [of lines s t "Im_fork k"] count_module_def)
next
  case (im_no_child s t)
  then show ?case
    by (simp add: mods_step [of lines s t "Im_put"])
next
  case (im_put s t)
  then show ?case
    by (simp add: mods_step [of lines s t "Im_top"] put_module_def)
qed

section \<open>Groups in their order\<close>

lemma height_step:
  assumes "inv_height lines s" "pos s' = pos s" "cur_height s' = cur_height s" "pending (pc s') = pending (pc s)"
    "set (events s) \<subseteq> set (events s')"
  shows "inv_height lines s'"
  using assms unfolding inv_height_def by auto

lemma only_pending:
  "inv_lock s \<Longrightarrow> t < NUM_THREAD \<Longrightarrow> holding (pc s t) \<Longrightarrow> pending ((pc s)(t := p)) = at_barrier p"
proof -
  assume a: "inv_lock s" "t < NUM_THREAD" "holding (pc s t)"
  have "\<not> at_barrier (pc s u)" if "u < NUM_THREAD" "u \<noteq> t" for u
    using one_holder [OF a(1), of u t] a that by (auto simp: at_barrier_def)
  then show ?thesis
    using a(2) by (auto simp: pending_def)
qed

text \<open>When nothing is being loaded, everything has been loaded but what the file still holds.\<close>

lemma none_running: "inv_count s \<Longrightarrow> insmoding s = 0 \<Longrightarrow> running s = {}"
proof -
  assume a: "inv_count s" "insmoding s = 0"
  then have "cnt (\<lambda>p. p = Im_reap) (pc s) NUM_THREAD = 0"
    by (auto simp: inv_count_def cnt_zero)
  then show ?thesis
    using a by (auto simp: inv_count_def)
qed

lemma all_ended:
  assumes "inv_lock s" "inv_count s" "inv_mods lines s" "t < NUM_THREAD" "pc s t = Im_barrier" "insmoding s = 0"
    "is_module lines j" "j < pos s"
  shows "Im_end j \<in> set (events s)"
proof -
  have "\<not> has_line (pc s) j"
  proof
    assume "has_line (pc s) j"
    then obtain u where u: "u < NUM_THREAD" "line_of (pc s u) = Some j"
      by (auto simp: has_line_def)
    have "\<not> busy (pc s u)"
      using assms(2,6) u(1) by (auto simp: inv_count_def cnt_zero)
    then have "holding (pc s u)"
      using u(2) by (cases "pc s u") auto
    then show False
      using one_holder [OF assms(1,4) u(1)] assms(5) u(2) by auto
  qed
  then show ?thesis
    using assms none_running [of s] by (auto simp: inv_mods_def)
qed

lemma level_read:
  assumes "inv_height lines s" "is_module lines k" "k < pos s"
  shows "level lines k \<le> cur_height s"
proof (cases "pending (pc s)")
  case True
  then have p: "0 < pos s" "is_height (lines ! (pos s - 1))" "pos s \<le> length lines" "cur_height s + 1 = level lines (pos s)"
    using assms(1) by (auto simp: inv_height_def)
  then have "level lines (pos s) = level lines (pos s - 1) + 1"
    using level_Suc [of "pos s - 1" lines] by simp
  moreover have "level lines k \<le> level lines (pos s - 1)"
    using assms(3) by (intro level_mono) simp
  ultimately show ?thesis
    using p by simp
next
  case False
  then show ?thesis
    using assms level_mono [of k "pos s" lines] by (auto simp: inv_height_def)
qed

lemma height_kept:
  "im_step lines a s s' \<Longrightarrow> inv_lock s \<Longrightarrow> inv_count s \<Longrightarrow> inv_mods lines s \<Longrightarrow> inv_height lines s \<Longrightarrow> inv_height lines s'"
proof (induction rule: im_step.induct)
  case (im_line s t)
  have "\<not> pending (pc s)"
    using only_pending [of s t Im_get] pending_same [of "pc s" t Im_get] im_line by simp
  then show ?case
    using im_line only_pending [of s t] level_Suc [of "pos s" lines]
    by (auto simp: inv_height_def get_line_def)
next
  case (im_check s t)
  show ?case
  proof (cases "insmoding s = 0")
    case True
    have "pending (pc s)"
      using im_check by (auto intro: pendingI)
    then have l: "level lines (pos s) = cur_height s + 1"
      using im_check by (simp add: inv_height_def)
    have "Im_end j \<in> set (events s)" if "is_module lines j" "level lines j < cur_height s + 1" for j
    proof -
      have "j < pos s"
        using that l level_mono [of "pos s" j lines] by (cases "j < pos s") auto
      then show ?thesis
        using all_ended [of s lines t j] im_check True that by simp
    qed
    then show ?thesis
      using im_check True l only_pending [of s t Im_get] by (simp add: inv_height_def check_barrier_def)
  next
    case False
    then show ?thesis
      using im_check pending_same [of "pc s" t Im_wait]
      by (rule_tac height_step [of lines s]) (simp_all add: check_barrier_def)
  qed
next
  case (im_signal s t u)
  have "pending ((pc s)(t := Im_top, u := Im_barrier)) = pending ((pc s)(t := Im_top))"
    using im_signal(3,6) by (intro pending_same) auto
  also have "\<dots> = pending (pc s)"
    using im_signal(3) by (intro pending_same) simp
  finally have p: "pending ((pc s)(t := Im_top, u := Im_barrier)) = pending (pc s)" .
  show ?case
    by (rule height_step [OF im_signal(10)]) (simp_all add: p put_module_def)
qed (rule height_step; auto simp: pending_same count_module_def put_module_def)+

text \<open>A module is started when everything of the groups before it has ended.\<close>

lemma ordered_kept:
  "im_step lines a s s' \<Longrightarrow> inv_mods lines s \<Longrightarrow> inv_height lines s \<Longrightarrow> ordered lines (events s) \<Longrightarrow> ordered lines (events s')"
proof (induction rule: im_step.induct)
  case (im_fork s t k)
  have k: "is_module lines k" "k < pos s"
    using im_fork has_lineI [of t "pc s" k] by (auto simp: inv_mods_def)
  have "Im_end j \<in> set (events s)" if "is_module lines j" "level lines j < level lines k" for j
    using level_read [OF im_fork(5) k] im_fork(5) that by (simp add: inv_height_def)
  then show ?case
    using im_fork by (auto intro: ordered_snoc)
next
  case (im_child s k)
  then show ?case
    by (auto intro: ordered_snoc)
qed (simp_all add: get_line_def check_barrier_def count_module_def put_module_def)

lemma done_kept: "im_step lines a s s' \<Longrightarrow> inv_done lines s \<Longrightarrow> inv_done lines s'"
  by (induction rule: im_step.induct)
    (auto simp: inv_done_def get_line_def check_barrier_def count_module_def put_module_def split: if_splits)

definition im_inv :: "cstr list \<Rightarrow> im_state \<Rightarrow> bool" where
  "im_inv lines s \<longleftrightarrow> inv_lock s \<and> inv_count s \<and> inv_wait s \<and> inv_mods lines s \<and> inv_height lines s \<and>
     inv_done lines s \<and> ordered lines (events s)"

lemma im_inv_kept: "im_step lines a s s' \<Longrightarrow> im_inv lines s \<Longrightarrow> im_inv lines s'"
  using lock_kept [of lines a s s'] wait_kept [of lines a s s'] count_kept [of lines a s s'] mods_kept [of lines a s s']
    height_kept [of lines a s s'] ordered_kept [of lines a s s'] done_kept [of lines a s s']
  by (simp add: im_inv_def)

lemma im_inv_init: "im_inv lines im_init"
  by (simp add: im_inv_def im_init_def inv_lock_def inv_count_def inv_wait_def inv_mods_def inv_height_def ordered_def
      inv_done_def cnt_zero has_line_def one_thread_each_def pending_def level_def)

section \<open>Somebody can always go on\<close>

text \<open>The steps of the program and of its children that nothing fails in.\<close>

fun plain_step :: "im_label \<Rightarrow> bool" where
  "plain_step (Im_create_fails t) = False"
| "plain_step (Im_spurious t) = False"
| "plain_step (Im_fork_fails t) = False"
| "plain_step _ = True"

definition im_stuck :: "cstr list \<Rightarrow> im_state \<Rightarrow> bool" where
  "im_stuck lines s \<longleftrightarrow> (\<forall>a s'. im_step lines a s s' \<longrightarrow> \<not> plain_step a)"

lemma stuckD: "im_stuck lines s \<Longrightarrow> im_step lines a s s' \<Longrightarrow> plain_step a \<Longrightarrow> False"
  by (auto simp: im_stuck_def)

lemma none_new:
  assumes "im_stuck lines s" "\<not> exited s" "t < NUM_THREAD"
  shows "pc s t \<noteq> Im_new"
  using assms(3)
proof (induction t rule: less_induct)
  case (less t)
  show ?case
  proof
    assume "pc s t = Im_new"
    then have "im_step lines (Im_create t) s (goto s t Im_top)"
      using less assms(2) by (intro im_create) auto
    then show False
      using stuckD [OF assms(1), of "Im_create t"] by simp
  qed
qed

lemma none_put: "im_stuck lines s \<Longrightarrow> \<not> exited s \<Longrightarrow> t < NUM_THREAD \<Longrightarrow> pc s t \<noteq> Im_put"
proof
  assume a: "im_stuck lines s" "\<not> exited s" "t < NUM_THREAD" "pc s t = Im_put"
  show False
  proof (cases "put_count s \<noteq> 0 \<or> (\<forall>u < NUM_THREAD. pc s u \<noteq> Im_wait)")
    case True
    then show False
      using stuckD [OF a(1) im_put [OF a(2-4)]] by simp
  next
    case False
    then obtain u where "u < NUM_THREAD" "pc s u = Im_wait" "put_count s = 0"
      by auto
    then show False
      using stuckD [OF a(1) im_signal [OF a(2-4)]] by simp
  qed
qed

lemma none_reap: "im_stuck lines s \<Longrightarrow> \<not> exited s \<Longrightarrow> t < NUM_THREAD \<Longrightarrow> pc s t \<noteq> Im_reap"
proof
  assume a: "im_stuck lines s" "\<not> exited s" "t < NUM_THREAD" "pc s t = Im_reap"
  have r: "running s = {}"
    using stuckD [OF a(1) im_child [OF a(2)]] by fastforce
  show False
  proof (cases "zombies s = {}")
    case True
    then show False
      using stuckD [OF a(1) im_no_child [OF a(2-4) r]] by simp
  next
    case False
    then obtain k where "k \<in> zombies s"
      by auto
    then show False
      using stuckD [OF a(1) im_reap [OF a(2-4)]] by simp
  qed
qed

lemma stuck_idle:
  assumes "im_stuck lines s" "\<not> exited s" "t < NUM_THREAD"
  shows "pc s t \<in> {Im_top, Im_wait, Im_done}"
proof (cases "pc s t")
  case Im_get
  then show ?thesis
    using stuckD [OF assms(1) im_line [OF assms(2,3)]] by simp
next
  case Im_barrier
  then show ?thesis
    using stuckD [OF assms(1) im_check [OF assms(2,3)]] by simp
next
  case (Im_got k)
  then show ?thesis
    using stuckD [OF assms(1) im_count [OF assms(2,3)]] by simp
next
  case (Im_fork k)
  then show ?thesis
    using stuckD [OF assms(1) im_fork [OF assms(2,3)]] by simp
qed (use none_new [OF assms] none_put [OF assms] none_reap [OF assms] in simp_all)

lemma stuck_done:
  assumes "im_inv lines s" "im_stuck lines s" "\<not> exited s" "t < NUM_THREAD"
  shows "pc s t = Im_done"
proof -
  have "insmoding s = 0"
    using assms(1) stuck_idle [OF assms(2,3)] unfolding im_inv_def inv_count_def
    by (auto simp: cnt_zero) fastforce
  then have idle: "pc s u \<in> {Im_top, Im_done}" if "u < NUM_THREAD" for u
    using stuck_idle [OF assms(2,3) that] assms(1) that by (auto simp: im_inv_def inv_wait_def)
  then have "lock s = None"
    using assms(1) unfolding im_inv_def inv_lock_def
    by (cases "lock s") (auto, fastforce)
  then show ?thesis
    using idle [OF assms(4)] stuckD [OF assms(2) im_lock [OF assms(3,4)]] by auto
qed

text \<open>Then every module of the list has been started, and has ended.\<close>

lemma stuck_all:
  assumes "im_inv lines s" "im_stuck lines s" "\<not> exited s" "is_module lines k"
  shows "Im_start k \<in> set (events s) \<and> Im_end k \<in> set (events s)"
proof -
  have d: "pc s t = Im_done" if "t < NUM_THREAD" for t
    using stuck_done [OF assms(1-3) that] .
  have z: "0 < NUM_THREAD"
    by (simp add: NUM_THREAD_def)
  have "length lines \<le> pos s"
    using assms(1) d [OF z] z unfolding im_inv_def inv_done_def by blast
  then have "k < pos s" "\<not> has_line (pc s) k"
    using assms(4) d by (auto simp: is_module_def has_line_def)
  moreover have "running s = {}"
    using stuckD [OF assms(2) im_child [OF assms(3)]] by fastforce
  ultimately show ?thesis
    using assms(1,4) by (auto simp: im_inv_def inv_mods_def)
qed

section \<open>The threads come to an end\<close>

fun pc_rank :: "im_pc \<Rightarrow> nat" where
  "pc_rank Im_new = 3"
| "pc_rank Im_top = 2"
| "pc_rank Im_get = 1"
| "pc_rank Im_barrier = 3"
| "pc_rank Im_wait = 2"
| "pc_rank (Im_got k) = 8"
| "pc_rank (Im_fork k) = 7"
| "pc_rank Im_reap = 5"
| "pc_rank Im_put = 4"
| "pc_rank Im_done = 0"

definition im_rank :: "cstr list \<Rightarrow> im_state \<Rightarrow> nat" where
  "im_rank lines s = 8 * (length lines - pos s) + ranks pc_rank (pc s) NUM_THREAD + card (running s)"

lemma ranks_set: "t < NUM_THREAD \<Longrightarrow> ranks r (f(t := p)) NUM_THREAD + r (f t) = ranks r f NUM_THREAD + r p"
  by (rule ranks_upd)

lemma rank_lowers:
  "im_step lines a s s' \<Longrightarrow> plain_step a \<Longrightarrow> im_inv lines s \<Longrightarrow> im_rank lines s' < im_rank lines s"
proof (induction rule: im_step.induct)
  case (im_line s t)
  then show ?case
    using ranks_set [of t pc_rank "pc s" Im_done] ranks_set [of t pc_rank "pc s" Im_barrier]
      ranks_set [of t pc_rank "pc s" "Im_got (pos s)"] Suc_diff_Suc [of "pos s" "length lines"]
    by (cases "length lines \<le> pos s") (auto simp: im_rank_def get_line_def)
next
  case (im_fork s t k)
  then have "k \<notin> running s" "finite (running s)"
    using has_lineI [of t "pc s" k] by (auto simp: im_inv_def inv_mods_def inv_count_def)
  then show ?case
    using im_fork ranks_set [of t pc_rank "pc s" Im_reap] by (simp add: im_rank_def)
next
  case (im_child s k)
  then have "0 < card (running s)" "finite (running s)"
    by (auto simp: im_inv_def inv_count_def card_gt_0_iff)
  then show ?case
    using im_child by (simp add: im_rank_def)
next
  case (im_signal s t u)
  then have "t \<noteq> u"
    by auto
  then show ?case
    using im_signal ranks_set [of t pc_rank "pc s" Im_top] ranks_set [of u pc_rank "(pc s)(t := Im_top)" Im_barrier]
    by (simp add: im_rank_def put_module_def)
next
  case (im_check s t)
  then show ?case
    using ranks_set [of t pc_rank "pc s" Im_wait] ranks_set [of t pc_rank "pc s" Im_get]
    by (simp add: im_rank_def check_barrier_def)
next
  case (im_create s t)
  then show ?case
    using ranks_set [of t pc_rank "pc s" Im_top] by (simp add: im_rank_def)
next
  case (im_lock s t)
  then show ?case
    using ranks_set [of t pc_rank "pc s" Im_get] by (simp add: im_rank_def)
next
  case (im_count s t k)
  then show ?case
    using ranks_set [of t pc_rank "pc s" "Im_fork k"] by (simp add: im_rank_def count_module_def)
next
  case (im_reap s t k)
  then show ?case
    using ranks_set [of t pc_rank "pc s" Im_put] by (simp add: im_rank_def)
next
  case (im_no_child s t)
  then show ?case
    using ranks_set [of t pc_rank "pc s" Im_put] by (simp add: im_rank_def)
next
  case (im_put s t)
  then show ?case
    using ranks_set [of t pc_rank "pc s" Im_top] by (simp add: im_rank_def put_module_def)
qed simp_all

lemma exited_plain: "im_step lines a s s' \<Longrightarrow> plain_step a \<Longrightarrow> exited s' = exited s"
  by (induction rule: im_step.induct) (auto simp: get_line_def check_barrier_def count_module_def put_module_def)

text \<open>The interface of the bounded steps, on the threads.\<close>

interpretation insmod: bounded_steps "im_step lines" plain_step "\<lambda>s. im_inv lines s \<and> \<not> exited s" "im_rank lines"
  for lines
  by unfold_locales (auto simp: exited_plain im_inv_kept rank_lowers)

lemma init_rank: "im_rank lines im_init = 8 * length lines + 12"
  by (simp add: im_rank_def im_init_def NUM_THREAD_def eval_nat_numeral)

end
