(* ===== verification/Im_Properties.thy ===== *)
theory Im_Properties
  imports Im_Threads
begin

text \<open>
  The properties of \<open>parallel_insmod\<close>: the order of the modules under every interleaving, and that the
  threads come to an end with everything loaded. The witnesses run a schedule with two threads on a list of
  two groups.
\<close>

section \<open>Running a schedule\<close>

text \<open>The step that a label allows, of the child with the lowest number where \<open>wait\<close> has a choice.\<close>

definition thread_step :: "cstr list \<Rightarrow> nat \<Rightarrow> im_state \<Rightarrow> im_state option" where
  "thread_step lines t s = (case pc s t of
     Im_top \<Rightarrow> if lock s = None then Some ((goto s t Im_get)\<lparr>lock := Some t\<rparr>) else None
   | Im_get \<Rightarrow> Some (get_line lines t s)
   | Im_barrier \<Rightarrow> Some (check_barrier t s)
   | Im_got k \<Rightarrow> Some (count_module t k s)
   | Im_fork k \<Rightarrow> Some ((goto s t Im_reap)\<lparr>running := insert k (running s), events := events s @ [Im_start k]\<rparr>)
   | Im_reap \<Rightarrow> if zombies s \<noteq> {} then Some ((goto s t Im_put)\<lparr>zombies := zombies s - {Min (zombies s)}\<rparr>)
       else if running s = {} then Some (goto s t Im_put) else None
   | Im_put \<Rightarrow> if put_count s \<noteq> 0 \<or> list_all (\<lambda>u. pc s u \<noteq> Im_wait) [0..<NUM_THREAD] then Some (put_module t s) else None
   | _ \<Rightarrow> None)"

fun label_step :: "cstr list \<Rightarrow> im_label \<Rightarrow> im_state \<Rightarrow> im_state option" where
  "label_step lines (Im_create t) s =
     (if t < NUM_THREAD \<and> pc s t = Im_new \<and> list_all (\<lambda>u. pc s u \<noteq> Im_new) [0..<t] then Some (goto s t Im_top) else None)"
| "label_step lines (Im_thread t) s = (if t < NUM_THREAD then thread_step lines t s else None)"
| "label_step lines (Im_signal t u) s =
     (if t < NUM_THREAD \<and> pc s t = Im_put \<and> put_count s = 0 \<and> u < NUM_THREAD \<and> pc s u = Im_wait
      then Some (goto (put_module t s) u Im_barrier) else None)"
| "label_step lines (Im_child k) s =
     (if k \<in> running s then Some (s\<lparr>running := running s - {k}, zombies := insert k (zombies s),
        events := events s @ [Im_end k]\<rparr>) else None)"
| "label_step lines a s = None"

fun im_run :: "cstr list \<Rightarrow> im_label list \<Rightarrow> im_state \<Rightarrow> im_state option" where
  "im_run lines [] s = Some s"
| "im_run lines (a # as) s = Option.bind (label_step lines a s) (im_run lines as)"

lemma thread_step_sound:
  assumes "thread_step lines t s = Some s'" "\<not> exited s" "t < NUM_THREAD" "finite (zombies s)"
  shows "im_step lines (Im_thread t) s s'"
proof (cases "pc s t")
  case Im_reap
  then show ?thesis
    using assms by (auto simp: thread_step_def split: if_splits intro: im_step.intros Min_in)
qed (use assms in \<open>auto simp: thread_step_def list_all_iff split: if_splits intro: im_step.intros\<close>)

lemma label_step_sound:
  "label_step lines a s = Some s' \<Longrightarrow> \<not> exited s \<Longrightarrow> finite (zombies s) \<Longrightarrow> im_step lines a s s' \<and> plain_step a"
  by (cases a) (auto simp: list_all_iff split: if_splits intro: im_step.intros thread_step_sound)

lemma im_run_sound:
  "im_run lines as s = Some s' \<Longrightarrow> im_inv lines s \<Longrightarrow> \<not> exited s \<Longrightarrow>
   steps (im_step lines) as s s' \<and> list_all plain_step as \<and> \<not> exited s'"
proof (induction as arbitrary: s)
  case Nil
  then show ?case
    by (simp add: steps_nil)
next
  case (Cons a as)
  then obtain s1 where s1: "label_step lines a s = Some s1" "im_run lines as s1 = Some s'"
    by (auto simp: bind_eq_Some_conv)
  have "im_step lines a s s1" "plain_step a"
    using label_step_sound [OF s1(1)] Cons.prems by (auto simp: im_inv_def inv_count_def)
  then show ?case
    using Cons.IH [OF s1(2)] im_inv_kept [of lines a s s1] exited_plain [of lines a s s1] Cons.prems steps_cons
    by fastforce
qed

section \<open>The order of the modules\<close>

text \<open>
  C34: Whatever the threads, the children and the failing calls do in whatever order: a module is
  started only if it stands in the list and has not been started before, and only when every module of
  the groups before its own has ended.
\<close>

theorem modules_in_order:
  assumes "steps (im_step lines) as im_init s" "events s = pre @ Im_start k # post"
  shows "is_module lines k \<and> Im_start k \<notin> set pre \<and>
    (\<forall>j. is_module lines j \<longrightarrow> level lines j < level lines k \<longrightarrow> Im_end j \<in> set pre)"
proof -
  have "im_inv lines s"
    using steps_invariant [OF assms(1), of "im_inv lines"] im_inv_init im_inv_kept by blast
  then have "ordered lines (events s)" "distinct (events s)" "is_module lines k"
    using assms(2) by (auto simp: im_inv_def inv_mods_def)
  then show ?thesis
    using assms(2) unfolding ordered_def by auto
qed

text \<open>Two modules and one that needs them; the second thread waits at the barrier.\<close>

definition two_groups :: "cstr list" where
  "two_groups = map bytes_of [''Height 1:'', ''xa.ko'', ''xb.ko'', ''Height 2:'', ''xc.ko'']"

definition schedule :: "im_label list" where
  "schedule = map Im_create [0, 1, 2, 3] @ map Im_thread [0, 0, 0, 0, 0, 0, 1, 1, 1, 1] @ [Im_child 1] @
     map Im_thread [1, 1] @ map Im_thread [2, 2, 2] @ [Im_child 2, Im_thread 0, Im_signal 0 2] @
     map Im_thread [2, 2, 2, 2] @ [Im_child 4, Im_thread 2, Im_thread 2]"

lemma schedule_events:
  "\<exists>s. im_run two_groups schedule im_init = Some s \<and> pos s = 5 \<and>
     events s = [Im_start 1, Im_start 2, Im_end 1, Im_end 2] @ Im_start 4 # [Im_end 4]"
  by (simp add: schedule_def im_init_def thread_step_def get_line_def check_barrier_def count_module_def put_module_def
      put_count_def NUM_THREAD_def two_groups_def is_height_def bytes_of_def upt_rec)

theorem modules_in_order_witness:
  "\<exists>as s. steps (im_step two_groups) as im_init s \<and> Im_end 1 \<in> set (take 4 (events s)) \<and> Im_end 2 \<in> set (take 4 (events s)) \<and>
     events s ! 4 = Im_start 4"
proof -
  obtain s where s: "im_run two_groups schedule im_init = Some s"
    "events s = [Im_start 1, Im_start 2, Im_end 1, Im_end 2] @ Im_start 4 # [Im_end 4]"
    using schedule_events by auto
  have "steps (im_step two_groups) schedule im_init s"
    using im_run_sound [OF s(1) im_inv_init] by (simp add: im_init_def)
  moreover from modules_in_order [OF this s(2)]
  have "Im_end 1 \<in> set (take 4 (events s)) \<and> Im_end 2 \<in> set (take 4 (events s))"
    using s(2) by (simp add: is_module_def level_def two_groups_def is_height_def bytes_of_def)
  ultimately show ?thesis
    using s(2) by (intro exI [of _ schedule] exI [of _ s]) simp
qed

section \<open>The end\<close>

text \<open>All threads have returned, and every module of the list has been started and has ended.\<close>

definition all_loaded :: "cstr list \<Rightarrow> im_state \<Rightarrow> bool" where
  "all_loaded lines s \<longleftrightarrow> (\<forall>t < NUM_THREAD. pc s t = Im_done) \<and>
     (\<forall>k. is_module lines k \<longrightarrow> Im_start k \<in> set (events s) \<and> Im_end k \<in> set (events s))"

text \<open>
  C35: The threads do not block one another for ever: from every state that is reached without a
  failing call, spurious wake-ups included, the steps of the threads and children can be continued until
  all threads have returned, they stop nowhere else, and then every module of the list has been loaded.
  Without spurious wake-ups at most eight steps for each line and twelve more are possible altogether.
\<close>

theorem insmod_terminates:
  assumes "steps (im_step lines) as im_init s" "\<not> exited s"
  shows "(list_all plain_step as \<longrightarrow> length as \<le> 8 * length lines + 12) \<and>
    (im_stuck lines s \<longrightarrow> all_loaded lines s) \<and>
    (\<exists>bs s'. steps (im_step lines) bs s s' \<and> list_all plain_step bs \<and> all_loaded lines s')"
proof -
  have inv: "im_inv lines s"
    using steps_invariant [OF assms(1), of "im_inv lines"] im_inv_init im_inv_kept by blast
  have rest: "all_loaded lines s'" if "im_inv lines s'" "\<not> exited s'" "im_stuck lines s'" for s'
    using stuck_done [OF that(1,3,2)] stuck_all [OF that(1,3,2)] by (auto simp: all_loaded_def)
  have "\<not> exited im_init"
    by (simp add: im_init_def)
  then have "list_all plain_step as \<longrightarrow> length as \<le> 8 * length lines + 12"
    using insmod.bounded [OF assms(1)] im_inv_init [of lines] by (auto simp: init_rank)
  moreover obtain bs s' where "steps (im_step lines) bs s s'" "list_all plain_step bs" "im_inv lines s' \<and> \<not> exited s'"
    "\<forall>a s''. im_step lines a s' s'' \<longrightarrow> \<not> plain_step a"
    using insmod.comes_to_rest [of lines s] inv assms(2) by blast
  moreover from this have "all_loaded lines s'"
    by (intro rest) (auto simp: im_stuck_def)
  ultimately show ?thesis
    using rest [OF inv assms(2)] by blast
qed

theorem insmod_terminates_witness:
  "\<exists>as s bs s'. steps (im_step two_groups) as im_init s \<and> length as = 30 \<and> length as \<le> 8 * length two_groups + 12 \<and>
     steps (im_step two_groups) bs s s' \<and> all_loaded two_groups s'"
proof -
  obtain s where "im_run two_groups schedule im_init = Some s"
    using schedule_events by auto
  then have s: "steps (im_step two_groups) schedule im_init s" "\<not> exited s" "list_all plain_step schedule"
    using im_run_sound [of two_groups schedule im_init s] im_inv_init by (simp_all add: im_init_def)
  moreover obtain bs s' where "steps (im_step two_groups) bs s s'" "all_loaded two_groups s'"
    "length schedule \<le> 8 * length two_groups + 12"
    using insmod_terminates [OF s(1,2)] s(3) by blast
  moreover have "length schedule = 30"
    by (simp add: schedule_def)
  ultimately show ?thesis
    by blast
qed

text \<open>
  The name that \<open>insmod\<close> is given keeps the end of its line, here the one that \<open>modparse.py\<close> writes.
\<close>

lemma name_keeps_line_end:
  assumes "length path + length name < 1021"
  shows "insmod_name path (9 # name @ [13, 10]) = path @ [47] @ name @ [13, 10]"
  using assms by (simp add: insmod_name_def bytes_of_def)

end
