(* ===== verification/Uev_Monitor.thy ===== *)
theory Uev_Monitor
  imports C_Prelude
begin

text \<open>
  The monitor of the kernel's events for the watchdogs of remote processors
  (\<^verbatim>\<open>uevent-monitor-for-rproc_wdt\<close>): the parser of a datagram and the loop around \<open>recv\<close>. A position in the
  buffer is the rest of the buffer behind it, \<open>None\<close> a read behind its end. A string field is the string it
  points to; the buffer does not change until it has been shown.
\<close>

section \<open>The fields of a message\<close>

record uevent_msg =
  seqnum :: int
  sub_system :: cstr
  action :: cstr
  dev_path :: cstr
  event :: cstr
  reset_type :: cstr
  timeout_ms :: int
  try_times :: int
  timeout_cnt :: int

text \<open>The type and the offset of an entry of the table: which field it sets.\<close>

datatype uevent_slot =
  TYPE_INT "int \<Rightarrow> uevent_msg \<Rightarrow> uevent_msg"
| TYPE_STR "cstr \<Rightarrow> uevent_msg \<Rightarrow> uevent_msg"

definition match_table :: "(uevent_slot \<times> cstr) list" where
  "match_table = [
     (TYPE_INT (\<lambda>v u. u\<lparr>seqnum := v\<rparr>), bytes_of ''SEQNUM=''),
     (TYPE_STR (\<lambda>v u. u\<lparr>sub_system := v\<rparr>), bytes_of ''SUBSYSTEM=''),
     (TYPE_STR (\<lambda>v u. u\<lparr>action := v\<rparr>), bytes_of ''ACTION=''),
     (TYPE_STR (\<lambda>v u. u\<lparr>dev_path := v\<rparr>), bytes_of ''DEVPATH=''),
     (TYPE_STR (\<lambda>v u. u\<lparr>event := v\<rparr>), bytes_of ''EVENT=''),
     (TYPE_STR (\<lambda>v u. u\<lparr>reset_type := v\<rparr>), bytes_of ''RESET_TYPE=''),
     (TYPE_INT (\<lambda>v u. u\<lparr>timeout_ms := v\<rparr>), bytes_of ''TIMEOUT_MS=''),
     (TYPE_INT (\<lambda>v u. u\<lparr>try_times := v\<rparr>), bytes_of ''TRY_TIMES=''),
     (TYPE_INT (\<lambda>v u. u\<lparr>timeout_cnt := v\<rparr>), bytes_of ''TIMEOUT_CNT='')]"

definition clean_uevent :: uevent_msg where
  "clean_uevent = \<lparr>seqnum = -1, sub_system = [], action = [], dev_path = [], event = [], reset_type = [],
     timeout_ms = -1, try_times = -1, timeout_cnt = -1\<rparr>"

section \<open>The parser\<close>

text \<open>Whether \<open>strncmp(msg, str, strlen(str))\<close> is 0, for a string without a NUL.\<close>

fun match_key :: "byte list \<Rightarrow> cstr \<Rightarrow> bool option" where
  "match_key m [] = Some True"
| "match_key [] (x # s) = None"
| "match_key (c # m) (x # s) = (if c \<noteq> x then Some False else match_key m s)"

definition set_slot :: "uevent_slot \<Rightarrow> byte list \<Rightarrow> uevent_msg \<Rightarrow> uevent_msg option" where
  "set_slot sl m u = do {
     v \<leftarrow> c_str m;
     Some (case sl of TYPE_INT f \<Rightarrow> f (atol v) u | TYPE_STR f \<Rightarrow> f v u)
   }"

text \<open>The loop over the table: the fields and the number of bytes that matched.\<close>

fun parse_item_in :: "(uevent_slot \<times> cstr) list \<Rightarrow> byte list \<Rightarrow> uevent_msg \<Rightarrow> (uevent_msg \<times> nat) option" where
  "parse_item_in [] m u = Some (u, 0)"
| "parse_item_in ((sl, str) # tab) m u = do {
     hit \<leftarrow> match_key m str;
     if hit then do {
       u' \<leftarrow> set_slot sl (drop (length str) m) u;
       Some (u', length str)
     } else parse_item_in tab m u
   }"

definition parse_item :: "byte list \<Rightarrow> uevent_msg \<Rightarrow> (uevent_msg \<times> nat) option" where
  "parse_item = parse_item_in match_table"

text \<open>\<open>while (*msg++);\<close>\<close>

fun skip_string :: "byte list \<Rightarrow> byte list option" where
  "skip_string [] = None"
| "skip_string (c # m) = (if c = 0 then Some m else skip_string m)"

lemma skip_string_shorter: "skip_string m = Some m' \<Longrightarrow> length m' < length m"
  by (induction m) (auto split: if_splits)

function parse_uevent :: "byte list \<Rightarrow> uevent_msg \<Rightarrow> uevent_msg option" where
  "parse_uevent m u =
     (case m of
        [] \<Rightarrow> None
      | c # _ \<Rightarrow>
          if c = 0 then Some u
          else (case parse_item m u of
                  None \<Rightarrow> None
                | Some (u', n) \<Rightarrow>
                    (case skip_string (drop n m) of
                       None \<Rightarrow> None
                     | Some m' \<Rightarrow> parse_uevent m' u')))"
  by pat_completeness auto
termination
proof (relation "measure (\<lambda>(m, u). length m)", goal_cases)
  case (2 m u c r p u' n m')
  then have "length m' < length (drop n m)"
    by (auto dest: skip_string_shorter)
  then show ?case
    by simp
qed simp

declare parse_uevent.simps [simp del]

section \<open>The loop\<close>

text \<open>The loop over \<open>strchr(path, '/')\<close>.\<close>

function path_to_name :: "cstr \<Rightarrow> cstr" where
  "path_to_name path = (case dropWhile (\<lambda>c. c \<noteq> 47) path of [] \<Rightarrow> path | c # r \<Rightarrow> path_to_name r)"
  by pat_completeness auto
termination
proof (relation "measure length", goal_cases)
  case (2 path c r)
  then have "length (c # r) \<le> length path"
    by (metis length_dropWhile_le)
  then show ?case
    by simp
qed simp

declare path_to_name.simps [simp del]

text \<open>The values of the line that \<open>show_uevent\<close> prints.\<close>

definition show_uevent :: "uevent_msg \<Rightarrow> uevent_msg" where
  "show_uevent u = u\<lparr>dev_path := path_to_name (dev_path u)\<rparr>"

definition UEVENT_MSG_LEN :: nat where "UEVENT_MSG_LEN = 2048"

text \<open>
  What \<open>socket\<close>, \<open>setsockopt\<close> and \<open>bind\<close> return: the descriptor or the error of \<open>open_uevent_socket\<close>, and the
  descriptors that it closes.
\<close>

definition open_uevent_socket :: "int \<Rightarrow> int \<Rightarrow> int \<Rightarrow> int \<times> int list" where
  "open_uevent_socket fd set_ret bind_ret =
     (let closed = (if 0 < fd then [fd] else [])
      in if fd < 0 then (fd, closed)
         else if set_ret \<noteq> 0 then (set_ret, closed)
         else if bind_ret < 0 then (bind_ret, closed)
         else (fd, []))"

text \<open>
  A call of \<open>recv\<close>: a datagram, cut to the size of the buffer, \<open>EAGAIN\<close>, or another error.
\<close>

datatype uevent_recv = Uev_data "byte list" | Uev_again | Uev_error

text \<open>What one turn shows; the buffer of two more bytes has been cleared. \<open>args\<close> are the subsystems asked for.\<close>

definition shown :: "cstr list \<Rightarrow> byte list \<Rightarrow> uevent_msg list option" where
  "shown args d =
     (let bs = take UEVENT_MSG_LEN d
      in if length bs = UEVENT_MSG_LEN then Some []
         else do {
           u \<leftarrow> parse_uevent (bs @ replicate (UEVENT_MSG_LEN + 2 - length bs) 0) clean_uevent;
           Some (if args \<noteq> [] \<and> sub_system u \<notin> set args then [] else [show_uevent u])
         })"

text \<open>The result is what is shown, and the exit status if the loop ends.\<close>

fun monitor :: "cstr list \<Rightarrow> uevent_recv list \<Rightarrow> (uevent_msg list \<times> int option) option" where
  "monitor args [] = Some ([], None)"
| "monitor args (Uev_data d # es) = do {
     us \<leftarrow> shown args d;
     (vs, st) \<leftarrow> monitor args es;
     Some (us @ vs, st)
   }"
| "monitor args (Uev_again # es) = monitor args es"
| "monitor args (Uev_error # es) = Some ([], Some 0)"

text \<open>\<open>main\<close>, with the results of the calls that open the socket.\<close>

definition uevent_main :: "cstr list \<Rightarrow> int \<times> int \<times> int \<Rightarrow> uevent_recv list \<Rightarrow> (uevent_msg list \<times> int option) option" where
  "uevent_main args sock es = (case sock of (fd, set_ret, bind_ret) \<Rightarrow>
     if fst (open_uevent_socket fd set_ret bind_ret) < 0 then Some ([], Some (-1)) else monitor args es)"

section \<open>What a datagram means\<close>

text \<open>The strings before the first empty one; the last one may lack its NUL.\<close>

function nul_strings :: "byte list \<Rightarrow> cstr list" where
  "nul_strings d =
     (if d = [] \<or> hd d = 0 then []
      else takeWhile (\<lambda>c. c \<noteq> 0) d # nul_strings (drop 1 (dropWhile (\<lambda>c. c \<noteq> 0) d)))"
  by pat_completeness auto
termination
proof (relation "measure length", goal_cases)
  case (2 d)
  have "length (dropWhile (\<lambda>c. c \<noteq> 0) d) \<le> length d"
    by (rule length_dropWhile_le)
  moreover have "d \<noteq> []"
    using 2 by simp
  ultimately show ?case
    by (cases d) auto
qed simp

declare nul_strings.simps [simp del]

text \<open>A string sets the field of the first key that it begins with.\<close>

definition set_item :: "cstr \<Rightarrow> uevent_msg \<Rightarrow> uevent_msg" where
  "set_item s u =
     (case find (\<lambda>(sl, str). take (length str) s = str) match_table of
        None \<Rightarrow> u
      | Some (TYPE_INT f, str) \<Rightarrow> f (atol (drop (length str) s)) u
      | Some (TYPE_STR f, str) \<Rightarrow> f (drop (length str) s) u)"

definition meaning :: "byte list \<Rightarrow> uevent_msg" where
  "meaning d = fold set_item (nul_strings d) clean_uevent"

definition lines_of :: "cstr list \<Rightarrow> byte list \<Rightarrow> uevent_msg list" where
  "lines_of args d =
     (if UEVENT_MSG_LEN \<le> length d then []
      else if args \<noteq> [] \<and> sub_system (meaning d) \<notin> set args then []
      else [show_uevent (meaning d)])"

section \<open>The parser does what a datagram means\<close>

lemma match_key_string:
  "0 \<notin> set str \<Longrightarrow> match_key (s @ 0 # r) str = Some (take (length str) s = str)"
  by (induction "s @ 0 # r" str arbitrary: s rule: match_key.induct) (auto simp: Cons_eq_append_conv)

lemma drop_string: "take (length str) s = str \<Longrightarrow> drop (length str) (s @ 0 # r) = drop (length str) s @ 0 # r"
proof -
  assume "take (length str) s = str"
  then have "length str \<le> length s"
    by (metis length_take min.cobounded1)
  then show ?thesis
    by simp
qed

text \<open>One item at the start of a longer buffer.\<close>

lemma parse_item_string:
  assumes "0 \<notin> set s" "\<forall>(sl, str) \<in> set tab. 0 \<notin> set str"
  shows "\<exists>n \<le> length s. parse_item_in tab (s @ 0 # r) u =
    Some (case find (\<lambda>(sl, str). take (length str) s = str) tab of
        None \<Rightarrow> u
      | Some (TYPE_INT f, str) \<Rightarrow> f (atol (drop (length str) s)) u
      | Some (TYPE_STR f, str) \<Rightarrow> f (drop (length str) s) u, n)"
  using assms(2)
proof (induction tab)
  case (Cons e tab)
  obtain sl str where e: "e = (sl, str)"
    by (cases e)
  show ?case
  proof (cases "take (length str) s = str")
    case True
    then have n: "length str \<le> length s"
      by (metis length_take min.cobounded1)
    have "c_str (drop (length str) (s @ 0 # r)) = Some (drop (length str) s)"
      using assms(1) c_str_append [of "drop (length str) s" r] drop_string [OF True] by (auto dest: in_set_dropD)
    then show ?thesis
      using Cons.prems e True n match_key_string [of str s r]
      by (intro exI [of _ "length str"]) (auto simp: set_slot_def split: uevent_slot.split)
  next
    case False
    then show ?thesis
      using Cons e match_key_string [of str s r] by auto
  qed
qed simp

lemma table_strings: "\<forall>(sl, str) \<in> set match_table. 0 \<notin> set str"
  by (simp add: match_table_def bytes_of_def)

lemma skip_string_append: "0 \<notin> set s \<Longrightarrow> skip_string (s @ 0 # r) = Some r"
  by (induction s) auto

lemma parse_uevent_string:
  assumes "s \<noteq> []" "0 \<notin> set s"
  shows "parse_uevent (s @ 0 # r) u = parse_uevent r (set_item s u)"
proof -
  obtain n where n: "n \<le> length s" "parse_item (s @ 0 # r) u = Some (set_item s u, n)"
    using parse_item_string [OF assms(2) table_strings] unfolding parse_item_def set_item_def by blast
  have "skip_string (drop n (s @ 0 # r)) = Some r"
    using n(1) assms(2) skip_string_append [of "drop n s" r] by (auto dest: in_set_dropD)
  moreover obtain c t where "s = c # t" "c \<noteq> 0"
    using assms by (cases s) auto
  ultimately show ?thesis
    using n(2) by (subst parse_uevent.simps) simp
qed

lemma parse_uevent_end: "parse_uevent (0 # r) u = Some u"
  by (subst parse_uevent.simps) simp

lemma parse_uevent_datagram:
  "2 \<le> k \<Longrightarrow> parse_uevent (d @ replicate k 0) u = Some (fold set_item (nul_strings d) u)"
proof (induction d arbitrary: u rule: nul_strings.induct)
  case (1 d)
  obtain k' where k': "k = Suc k'" "0 < k'"
    using 1(2) by (cases k) auto
  show ?case
  proof (cases "d = [] \<or> hd d = 0")
    case True
    then obtain r where "d @ replicate k 0 = 0 # r"
      using k' by (cases d) auto
    then show ?thesis
      using True parse_uevent_end [of r u] by (simp add: nul_strings.simps [of d])
  next
    case False
    let ?s = "takeWhile (\<lambda>c. c \<noteq> 0) d"
    let ?t = "dropWhile (\<lambda>c. c \<noteq> 0) d"
    have s: "?s \<noteq> []" "0 \<notin> set ?s"
      using False by (cases d; auto dest: set_takeWhileD)+
    have step: "parse_uevent (d @ replicate k 0) u = parse_uevent (drop 1 ?t @ replicate m 0) (set_item ?s u)"
      if "?t @ replicate k 0 = 0 # drop 1 ?t @ replicate m 0" for m
      using parse_uevent_string [OF s] that by (metis append.assoc takeWhile_dropWhile_id)
    show ?thesis
    proof (cases "?t = []")
      case True
      obtain k'' where "k' = Suc k''"
        using k'(2) by (cases k') auto
      then have "parse_uevent (d @ replicate k 0) u = Some (set_item ?s u)"
        using step [of k'] True k' parse_uevent_end by simp
      moreover have "nul_strings d = [?s]"
        using True False nul_strings.simps [of d] nul_strings.simps [of "[]"] by (simp only: drop_Nil) simp
      ultimately show ?thesis
        by simp
    next
      case t: False
      then have "hd ?t = 0"
        using hd_dropWhile [of "\<lambda>c. c \<noteq> 0" d] by simp
      then have "?t = 0 # drop 1 ?t"
        using t by (cases ?t) auto
      then have "parse_uevent (d @ replicate k 0) u = parse_uevent (drop 1 ?t @ replicate k 0) (set_item ?s u)"
        using step [of k] by (metis append_Cons)
      then show ?thesis
        using 1(1) [OF False, of "set_item ?s u"] 1(2) False by (simp add: nul_strings.simps [of d])
    qed
  qed
qed

lemma shown_lines: "shown args d = Some (lines_of args d)"
proof (cases "UEVENT_MSG_LEN \<le> length d")
  case False
  then show ?thesis
    using parse_uevent_datagram [of "UEVENT_MSG_LEN + 2 - length d" d clean_uevent]
    by (simp add: shown_def lines_of_def meaning_def Let_def)
qed (simp add: shown_def lines_of_def Let_def)

end
