(* ===== verification/Uev_Properties.thy ===== *)
theory Uev_Properties
  imports Uev_Monitor
begin

text \<open>
  The properties of the event monitor: what it shows for any datagrams, and that the fields of an event
  of a watchdog come through.
\<close>

section \<open>Any datagrams\<close>

fun recv_lines :: "cstr list \<Rightarrow> uevent_recv \<Rightarrow> uevent_msg list" where
  "recv_lines args (Uev_data d) = lines_of args d"
| "recv_lines args e = []"

text \<open>
  C36: Whatever the kernel sends, the parser stays within the buffer and comes to its end: the monitor shows,
  for every datagram below 2048 bytes whose subsystem was asked for, one line with the values that its
  strings up to the first empty one give, the last of each key; it drops longer datagrams, goes on after
  \<open>EAGAIN\<close>, and ends with status 0 at another error.
\<close>

theorem monitor_shows_meanings:
  "monitor args es =
     Some (concat (map (recv_lines args) (takeWhile (\<lambda>e. e \<noteq> Uev_error) es)), if Uev_error \<in> set es then Some 0 else None)"
  by (induction es rule: monitor.induct) (auto simp: shown_lines)

section \<open>An event of a watchdog\<close>

definition uevent_bytes :: "cstr list \<Rightarrow> byte list" where
  "uevent_bytes ss = concat (map (\<lambda>s. s @ [0]) ss)"

text \<open>The strings of the example in \<open>main.c\<close>, behind the header \<open>change@...\<close>.\<close>

definition rproc_strings :: "cstr \<Rightarrow> uevent_msg \<Rightarrow> cstr list" where
  "rproc_strings hdr u =
     [hdr, bytes_of ''ACTION='' @ action u, bytes_of ''DEVPATH='' @ dev_path u, bytes_of ''SUBSYSTEM='' @ sub_system u,
      bytes_of ''EVENT='' @ event u, bytes_of ''RESET_TYPE='' @ reset_type u,
      bytes_of ''TIMEOUT_MS='' @ dec_of_int (timeout_ms u), bytes_of ''TRY_TIMES='' @ dec_of_int (try_times u),
      bytes_of ''TIMEOUT_CNT='' @ dec_of_int (timeout_cnt u), bytes_of ''SEQNUM='' @ dec_of_int (seqnum u)]"

lemma nul_strings_bytes: "\<forall>s \<in> set ss. s \<noteq> [] \<and> 0 \<notin> set s \<Longrightarrow> nul_strings (uevent_bytes ss) = ss"
proof (induction ss)
  case Nil
  then show ?case
    by (simp add: uevent_bytes_def nul_strings.simps)
next
  case (Cons s ss)
  have s: "s \<noteq> []" "0 \<notin> set s" "hd s \<noteq> 0"
    using Cons.prems by (auto dest: hd_in_set)
  have "takeWhile (\<lambda>c. c \<noteq> 0) (s @ 0 # r) = s \<and> dropWhile (\<lambda>c. c \<noteq> 0) (s @ 0 # r) = 0 # r" for r
    using s(2) by (auto simp: takeWhile_append dropWhile_append)
  then show ?case
    using Cons s by (subst nul_strings.simps) (simp add: uevent_bytes_def)
qed

lemma dec_of_int_no_nul: "0 \<notin> set (dec_of_int i)"
  using dec_of_nat_digits is_digit_not unfolding dec_of_int_def by (auto split: if_splits)

lemma set_items:
  "set_item (bytes_of ''ACTION='' @ v) u = u\<lparr>action := v\<rparr>"
  "set_item (bytes_of ''DEVPATH='' @ v) u = u\<lparr>dev_path := v\<rparr>"
  "set_item (bytes_of ''SUBSYSTEM='' @ v) u = u\<lparr>sub_system := v\<rparr>"
  "set_item (bytes_of ''EVENT='' @ v) u = u\<lparr>event := v\<rparr>"
  "set_item (bytes_of ''RESET_TYPE='' @ v) u = u\<lparr>reset_type := v\<rparr>"
  "set_item (bytes_of ''TIMEOUT_MS='' @ v) u = u\<lparr>timeout_ms := atol v\<rparr>"
  "set_item (bytes_of ''TRY_TIMES='' @ v) u = u\<lparr>try_times := atol v\<rparr>"
  "set_item (bytes_of ''TIMEOUT_CNT='' @ v) u = u\<lparr>timeout_cnt := atol v\<rparr>"
  "set_item (bytes_of ''SEQNUM='' @ v) u = u\<lparr>seqnum := atol v\<rparr>"
  by (simp_all add: set_item_def match_table_def bytes_of_def)

lemma table_keys: "\<forall>(sl, str) \<in> set match_table. str \<noteq> [] \<and> hd str < 97"
  by (simp add: match_table_def bytes_of_def)

lemma set_item_header:
  assumes "97 \<le> c"
  shows "set_item (c # hdr) u = u"
proof -
  have "take (length str) (c # hdr) \<noteq> str" if "(sl, str) \<in> set match_table" for sl str
  proof -
    have "str \<noteq> []" "hd str < 97"
      using table_keys that by auto
    then show ?thesis
      using assms by (cases str) auto
  qed
  then have "find (\<lambda>(sl, str). take (length str) (c # hdr) = str) match_table = None"
    by (auto simp: find_None_iff)
  then show ?thesis
    by (simp add: set_item_def)
qed

text \<open>
  C37: An event of a watchdog, with the kernel's header in lower case, whose strings fit the buffer and
  whose numbers are not negative and fit an \<open>int\<close>, is shown with the values it was sent with, if its
  subsystem was asked for or none was; otherwise it is not shown.
\<close>

theorem rproc_event_comes_through:
  assumes "97 \<le> c" "0 \<notin> set hdr"
    and "\<forall>s \<in> {action u, dev_path u, sub_system u, event u, reset_type u}. 0 \<notin> set s"
    and "\<forall>i \<in> {timeout_ms u, try_times u, timeout_cnt u, seqnum u}. 0 \<le> i \<and> i < 2 ^ 31"
    and "length (uevent_bytes (rproc_strings (c # hdr) u)) < 2048"
  shows "monitor args [Uev_data (uevent_bytes (rproc_strings (c # hdr) u))] =
    Some (if args = [] \<or> sub_system u \<in> set args then [show_uevent u] else [], None)"
proof -
  have c: "c \<noteq> 0"
    using assms(1) by (auto simp: word_le_nat_alt)
  have "nul_strings (uevent_bytes (rproc_strings (c # hdr) u)) = rproc_strings (c # hdr) u"
    using assms(2,3) c dec_of_int_no_nul
    by (intro nul_strings_bytes) (auto simp: rproc_strings_def bytes_of_def)
  then have "meaning (uevent_bytes (rproc_strings (c # hdr) u)) = u"
    using assms(1,4) atol_dec_of_int
    by (simp add: meaning_def rproc_strings_def set_items set_item_header clean_uevent_def)
  then show ?thesis
    using assms(5) by (simp add: shown_lines lines_of_def UEVENT_MSG_LEN_def)
qed

text \<open>The example in \<open>main.c\<close>.\<close>

definition example_event :: uevent_msg where
  "example_event = \<lparr>seqnum = 1737, sub_system = bytes_of ''rproc_wdt'', action = bytes_of ''change'',
     dev_path = bytes_of ''/devices/platform/remoteproc0-wdt'', event = bytes_of ''WDT_RUNING'',
     reset_type = bytes_of ''rst_core'', timeout_ms = 6000, try_times = 0, timeout_cnt = 0\<rparr>"

theorem rproc_event_comes_through_witness:
  "\<exists>d. monitor [bytes_of ''rproc_wdt''] [Uev_data d] = Some ([show_uevent example_event], None) \<and>
     dev_path (show_uevent example_event) = bytes_of ''remoteproc0-wdt''"
proof -
  have "length (dec_of_int 6000) = 4" "length (dec_of_int 1737) = 4" "length (dec_of_int 0) = 1"
    by (simp_all add: dec_of_int_def dec_of_nat.simps)
  then have "monitor [bytes_of ''rproc_wdt''] [Uev_data (uevent_bytes (rproc_strings (99 # bytes_of ''hange@/devices'') example_event))] =
    Some (if [bytes_of ''rproc_wdt''] = [] \<or> sub_system example_event \<in> set [bytes_of ''rproc_wdt''] then [show_uevent example_event] else [], None)"
    by (intro rproc_event_comes_through) (simp_all add: example_event_def bytes_of_def uevent_bytes_def rproc_strings_def)
  moreover have "dev_path (show_uevent example_event) = bytes_of ''remoteproc0-wdt''"
    by (simp add: show_uevent_def example_event_def bytes_of_def path_to_name.simps)
  ultimately show ?thesis
    by (auto simp: example_event_def)
qed

text \<open>A datagram of the size of the buffer or more is not shown, whatever it holds.\<close>

lemma long_datagram_dropped: "2048 \<le> length d \<Longrightarrow> shown args d = Some []"
  by (simp add: shown_lines lines_of_def UEVENT_MSG_LEN_def)

end
