(* ===== verification/Oss_Storage.thy ===== *)
theory Oss_Storage
  imports C_Prelude
begin

text \<open>
  The secure storage example of OP-TEE (\<^verbatim>\<open>optee-secure-storage\<close>): the commands of the trusted application
  (\<^verbatim>\<open>storage.c\<close>, \<^verbatim>\<open>ta_entry.c\<close>), the client library (\<^verbatim>\<open>libstorage.c\<close>) and the program (\<^verbatim>\<open>demo.c\<close>). The storage
  of the trusted environment is a parameter. \<open>None\<close> is undefined behaviour.
\<close>

section \<open>Constants\<close>

definition TEE_SUCCESS :: u32 where "TEE_SUCCESS = 0"
definition TEE_ERROR_GENERIC :: u32 where "TEE_ERROR_GENERIC = 0xFFFF0000"
definition TEE_ERROR_BAD_PARAMETERS :: u32 where "TEE_ERROR_BAD_PARAMETERS = 0xFFFF0006"
definition TEE_ERROR_OUT_OF_MEMORY :: u32 where "TEE_ERROR_OUT_OF_MEMORY = 0xFFFF000C"

definition TEE_STORAGE_PRIVATE_REE :: u32 where "TEE_STORAGE_PRIVATE_REE = 0x80000000"
definition TEE_STORAGE_PRIVATE_RPMB :: u32 where "TEE_STORAGE_PRIVATE_RPMB = 0x80000100"

text \<open>Read, write and write meta.\<close>

definition access_flags :: u32 where "access_flags = 2 OR 1 OR 4"

section \<open>The trusted environment\<close>

text \<open>
  The persistent objects of the GlobalPlatform interface, of which the sources use these calls: the result,
  the handle or the data, and the new state. \<open>shared_memory\<close> is what the memory for an output holds before.
\<close>

record 'k tee_core =
  TEE_Malloc :: "nat \<Rightarrow> bool"
  TEE_CreatePersistentObject :: "u32 \<Rightarrow> byte list \<Rightarrow> u32 \<Rightarrow> u32 \<Rightarrow> byte list \<Rightarrow> 'k \<Rightarrow> u32 \<times> u32 \<times> 'k"
  TEE_OpenPersistentObject :: "u32 \<Rightarrow> byte list \<Rightarrow> u32 \<Rightarrow> 'k \<Rightarrow> u32 \<times> u32 \<times> 'k"
  TEE_SeekObjectData :: "u32 \<Rightarrow> 'k \<Rightarrow> u32 \<times> 'k"
  TEE_ReadObjectData :: "u32 \<Rightarrow> nat \<Rightarrow> 'k \<Rightarrow> u32 \<times> byte list \<times> 'k"
  TEE_WriteObjectData :: "u32 \<Rightarrow> byte list \<Rightarrow> 'k \<Rightarrow> u32 \<times> 'k"
  TEE_CloseAndDelete :: "u32 \<Rightarrow> 'k \<Rightarrow> 'k"
  shared_memory :: "nat \<Rightarrow> byte list"
  TEEC_InitializeContext :: u32
  TEEC_OpenSession :: u32
  TEEC_CloseSession :: "'k \<Rightarrow> 'k"

text \<open>The parameters of a command with their types.\<close>

datatype tee_param =
  TEE_NONE
| VALUE_INPUT u32 u32
| VALUE_INOUT u32 u32
| MEMREF_INPUT "byte list"
| MEMREF_OUTPUT "byte list"

section \<open>The trusted application\<close>

text \<open>The types of the parameters are not looked at by this command alone: others are undefined behaviour.\<close>

definition ta_storage_cmd_create :: "'k tee_core \<Rightarrow> tee_param list \<Rightarrow> 'k \<Rightarrow> (u32 \<times> tee_param list \<times> 'k) option" where
  "ta_storage_cmd_create T ps k = (case ps of
     [MEMREF_INPUT name, VALUE_INOUT flags b, VALUE_INPUT ref storage, MEMREF_INPUT init] \<Rightarrow>
       if \<not> TEE_Malloc T (length name) then Some (TEE_ERROR_OUT_OF_MEMORY, ps, k)
       else (case TEE_CreatePersistentObject T storage name flags ref init k of (res, h, k') \<Rightarrow>
         Some (res, [MEMREF_INPUT name, VALUE_INOUT flags h, VALUE_INPUT ref storage, MEMREF_INPUT init], k'))
   | _ \<Rightarrow> None)"

definition ta_storage_cmd_open :: "'k tee_core \<Rightarrow> tee_param list \<Rightarrow> 'k \<Rightarrow> u32 \<times> tee_param list \<times> 'k" where
  "ta_storage_cmd_open T ps k = (case ps of
     [MEMREF_INPUT name, VALUE_INOUT flags b, VALUE_INPUT storage c, TEE_NONE] \<Rightarrow>
       if \<not> TEE_Malloc T (length name) then (TEE_ERROR_OUT_OF_MEMORY, ps, k)
       else (case TEE_OpenPersistentObject T storage name flags k of (res, h, k') \<Rightarrow>
         (res, [MEMREF_INPUT name, VALUE_INOUT flags h, VALUE_INPUT storage c, TEE_NONE], k'))
   | _ \<Rightarrow> (TEE_ERROR_BAD_PARAMETERS, ps, k))"

text \<open>A seek that fails is reported, and the command goes on.\<close>

definition ta_storage_cmd_read :: "'k tee_core \<Rightarrow> tee_param list \<Rightarrow> 'k \<Rightarrow> u32 \<times> tee_param list \<times> 'k" where
  "ta_storage_cmd_read T ps k = (case ps of
     [MEMREF_OUTPUT buf, VALUE_INOUT obj b, TEE_NONE, TEE_NONE] \<Rightarrow>
       (case TEE_SeekObjectData T obj k of (_, k1) \<Rightarrow>
        case TEE_ReadObjectData T obj (length buf) k1 of (res, bs, k2) \<Rightarrow>
          (res, [MEMREF_OUTPUT (bs @ drop (length bs) buf), VALUE_INOUT obj (of_nat (length bs)), TEE_NONE, TEE_NONE], k2))
   | _ \<Rightarrow> (TEE_ERROR_BAD_PARAMETERS, ps, k))"

text \<open>
  This one seeks before it looks at the types. The handle is the first word of the second parameter,
  which is a value only if its type says so.
\<close>

fun first_word :: "tee_param \<Rightarrow> u32 option" where
  "first_word (VALUE_INPUT a b) = Some a"
| "first_word (VALUE_INOUT a b) = Some a"
| "first_word p = None"

definition ta_storage_cmd_write :: "'k tee_core \<Rightarrow> tee_param list \<Rightarrow> 'k \<Rightarrow> (u32 \<times> tee_param list \<times> 'k) option" where
  "ta_storage_cmd_write T ps k = do {
     obj \<leftarrow> first_word (ps ! 1);
     let k1 = snd (TEE_SeekObjectData T obj k);
     Some (case ps of
         [MEMREF_INPUT data, VALUE_INPUT a b, TEE_NONE, TEE_NONE] \<Rightarrow>
           (case TEE_WriteObjectData T obj data k1 of (res, k2) \<Rightarrow> (res, ps, k2))
       | _ \<Rightarrow> (TEE_ERROR_BAD_PARAMETERS, ps, k1))
   }"

definition ta_storage_cmd_unlink :: "'k tee_core \<Rightarrow> tee_param list \<Rightarrow> 'k \<Rightarrow> u32 \<times> tee_param list \<times> 'k" where
  "ta_storage_cmd_unlink T ps k = (case ps of
     [VALUE_INPUT obj b, TEE_NONE, TEE_NONE, TEE_NONE] \<Rightarrow> (TEE_SUCCESS, ps, TEE_CloseAndDelete T obj k)
   | _ \<Rightarrow> (TEE_ERROR_BAD_PARAMETERS, ps, k))"

datatype storage_cmd = CMD_OPEN | CMD_READ | CMD_WRITE | CMD_UNLINK | CMD_CREATE | CMD_other

fun TA_InvokeCommandEntryPoint :: "'k tee_core \<Rightarrow> storage_cmd \<Rightarrow> tee_param list \<Rightarrow> 'k \<Rightarrow> (u32 \<times> tee_param list \<times> 'k) option" where
  "TA_InvokeCommandEntryPoint T CMD_CREATE ps k = ta_storage_cmd_create T ps k"
| "TA_InvokeCommandEntryPoint T CMD_OPEN ps k = Some (ta_storage_cmd_open T ps k)"
| "TA_InvokeCommandEntryPoint T CMD_READ ps k = Some (ta_storage_cmd_read T ps k)"
| "TA_InvokeCommandEntryPoint T CMD_WRITE ps k = ta_storage_cmd_write T ps k"
| "TA_InvokeCommandEntryPoint T CMD_UNLINK ps k = Some (ta_storage_cmd_unlink T ps k)"
| "TA_InvokeCommandEntryPoint T CMD_other ps k = Some (TEE_ERROR_BAD_PARAMETERS, ps, k)"

section \<open>The client library\<close>

text \<open>The result, what \<open>obj\<close> points to afterwards, and the state.\<close>

definition handle_of :: "u32 \<Rightarrow> tee_param list \<Rightarrow> u32 \<Rightarrow> u32" where
  "handle_of res ps obj = (if res = TEE_SUCCESS then (case ps ! 1 of VALUE_INOUT a b \<Rightarrow> b | _ \<Rightarrow> obj) else obj)"

definition optee_fs_create :: "'k tee_core \<Rightarrow> byte list \<Rightarrow> u32 \<Rightarrow> u32 \<Rightarrow> u32 \<Rightarrow> 'k \<Rightarrow> (u32 \<times> u32 \<times> 'k) option" where
  "optee_fs_create T name flags obj storage k = do {
     (res, ps, k') \<leftarrow> TA_InvokeCommandEntryPoint T CMD_CREATE
       [MEMREF_INPUT name, VALUE_INOUT flags 0, VALUE_INPUT 0 storage, MEMREF_INPUT []] k;
     Some (res, handle_of res ps obj, k')
   }"

definition optee_fs_open :: "'k tee_core \<Rightarrow> byte list \<Rightarrow> u32 \<Rightarrow> u32 \<Rightarrow> u32 \<Rightarrow> 'k \<Rightarrow> (u32 \<times> u32 \<times> 'k) option" where
  "optee_fs_open T name flags obj storage k = do {
     (res, ps, k') \<leftarrow> TA_InvokeCommandEntryPoint T CMD_OPEN
       [MEMREF_INPUT name, VALUE_INOUT flags 0, VALUE_INPUT storage 0, TEE_NONE] k;
     Some (res, handle_of res ps obj, k')
   }"

text \<open>The result, the buffer of \<open>n\<close> bytes, the count, and the state.\<close>

definition optee_fs_read :: "'k tee_core \<Rightarrow> u32 \<Rightarrow> nat \<Rightarrow> u32 \<Rightarrow> 'k \<Rightarrow> (u32 \<times> byte list \<times> u32 \<times> 'k) option" where
  "optee_fs_read T obj n count k = do {
     (res, ps, k') \<leftarrow> TA_InvokeCommandEntryPoint T CMD_READ
       [MEMREF_OUTPUT (shared_memory T n), VALUE_INOUT obj 0, TEE_NONE, TEE_NONE] k;
     Some (res, (case ps ! 0 of MEMREF_OUTPUT bs \<Rightarrow> bs | _ \<Rightarrow> []), handle_of res ps count, k')
   }"

definition optee_fs_write :: "'k tee_core \<Rightarrow> u32 \<Rightarrow> byte list \<Rightarrow> 'k \<Rightarrow> (u32 \<times> 'k) option" where
  "optee_fs_write T obj data k = do {
     (res, ps, k') \<leftarrow> TA_InvokeCommandEntryPoint T CMD_WRITE [MEMREF_INPUT data, VALUE_INPUT obj 0, TEE_NONE, TEE_NONE] k;
     Some (res, k')
   }"

definition optee_fs_unlink :: "'k tee_core \<Rightarrow> u32 \<Rightarrow> 'k \<Rightarrow> (u32 \<times> 'k) option" where
  "optee_fs_unlink T obj k = do {
     (res, ps, k') \<leftarrow> TA_InvokeCommandEntryPoint T CMD_UNLINK [VALUE_INPUT obj 0, TEE_NONE, TEE_NONE, TEE_NONE] k;
     Some (res, k')
   }"

section \<open>The program\<close>

datatype op_flag = OP_FLAG_READ | OP_FLAG_WRITE | OP_FLAG_DELETE | OP_FLAG_CREATE

definition op_of :: "cstr \<Rightarrow> op_flag option" where
  "op_of cmd =
     (if cmd = bytes_of ''-r'' then Some OP_FLAG_READ
      else if cmd = bytes_of ''-w'' then Some OP_FLAG_WRITE
      else if cmd = bytes_of ''-d'' then Some OP_FLAG_DELETE
      else if cmd = bytes_of ''-c'' then Some OP_FLAG_CREATE
      else None)"

definition storage_of :: "cstr \<Rightarrow> u32 option" where
  "storage_of type =
     (if type = bytes_of ''ree_fs'' then Some TEE_STORAGE_PRIVATE_REE
      else if type = bytes_of ''rpmb_fs'' then Some TEE_STORAGE_PRIVATE_RPMB
      else None)"

text \<open>\<open>rand() % 0xFF\<close> for each of the 256 bytes.\<close>

definition random_data :: "(nat \<Rightarrow> nat) \<Rightarrow> byte list" where
  "random_data rand = map (\<lambda>i. of_nat (rand i mod 255)) [0..<256]"

text \<open>The data that is shown with its count.\<close>

type_synonym dump = "(u32 \<times> byte list) option"

definition run_op :: "'k tee_core \<Rightarrow> (nat \<Rightarrow> nat) \<Rightarrow> op_flag \<Rightarrow> u32 \<Rightarrow> 'k \<Rightarrow> (u32 \<times> dump \<times> 'k) option" where
  "run_op T rand opflag obj k = (case opflag of
     OP_FLAG_READ \<Rightarrow> do {
       (ret, buf, count, k') \<leftarrow> optee_fs_read T obj 256 0 k;
       Some (ret, if ret \<noteq> TEE_SUCCESS then None else Some (count, buf), k')
     }
   | OP_FLAG_WRITE \<Rightarrow> do {
       (ret, k') \<leftarrow> optee_fs_write T obj (random_data rand) k;
       Some (ret, if ret \<noteq> TEE_SUCCESS then None else Some (256, random_data rand), k')
     }
   | OP_FLAG_DELETE \<Rightarrow> do {
       (ret, k') \<leftarrow> optee_fs_unlink T obj k;
       Some (ret, None, k')
     }
   | OP_FLAG_CREATE \<Rightarrow> Some (-1, None, k))"

text \<open>
  \<open>file\<close> is the memory at \<open>argv[3]\<close>: the name, its NUL and what the environment holds behind it. The name that is
  used is as long as a pointer. A session that cannot be opened is closed all the same.
\<close>

definition storage_main :: "'k tee_core \<Rightarrow> nat \<Rightarrow> (nat \<Rightarrow> nat) \<Rightarrow> nat \<Rightarrow> cstr \<Rightarrow> cstr \<Rightarrow> byte list \<Rightarrow> 'k \<Rightarrow> (u32 \<times> dump \<times> 'k) option" where
  "storage_main T ptr_size rand argc type cmd file k =
     (if argc \<noteq> 4 then Some (-1, None, k)
      else case (storage_of type, op_of cmd) of
        (Some storageID, Some opflag) \<Rightarrow>
          if TEEC_InitializeContext T \<noteq> TEE_SUCCESS then Some (-1, None, k)
          else if TEEC_OpenSession T \<noteq> TEE_SUCCESS then None
          else do {
            file_name \<leftarrow> slice file 0 ptr_size;
            (ret, obj, k1) \<leftarrow> optee_fs_open T file_name access_flags 0 storageID k;
            (ret', out, k2) \<leftarrow>
              (if ret \<noteq> TEE_SUCCESS then
                 if opflag = OP_FLAG_CREATE then do {
                   (ret, obj, k2) \<leftarrow> optee_fs_create T file_name access_flags 0 storageID k1;
                   Some (ret, None, k2)
                 } else Some (ret, None, k1)
               else if opflag = OP_FLAG_CREATE then Some (ret, None, k1)
               else run_op T rand opflag obj k1);
            Some (ret', out, TEEC_CloseSession T k2)
          }
      | _ \<Rightarrow> Some (-1, None, k))"

section \<open>A storage that works\<close>

text \<open>
  What the documentation of the interface promises for objects that nobody else has open: \<open>view\<close> is the
  data of the objects by storage and name, \<open>opened\<close> the open handles with their object and position.
\<close>

type_synonym 'k objects = "'k \<Rightarrow> u32 \<times> byte list \<rightharpoonup> byte list"
type_synonym 'k handles = "'k \<Rightarrow> u32 \<rightharpoonup> (u32 \<times> byte list) \<times> nat"

definition open_works :: "'k tee_core \<Rightarrow> 'k objects \<Rightarrow> 'k handles \<Rightarrow> bool" where
  "open_works T view opened \<longleftrightarrow> (\<forall>st name fl k res h k'.
     opened k = Map.empty \<longrightarrow> TEE_OpenPersistentObject T st name fl k = (res, h, k') \<longrightarrow>
     view k' = view k \<and> (if view k (st, name) = None then res \<noteq> TEE_SUCCESS \<and> opened k' = Map.empty
       else res = TEE_SUCCESS \<and> opened k' = [h \<mapsto> ((st, name), 0)]))"

definition create_works :: "'k tee_core \<Rightarrow> 'k objects \<Rightarrow> 'k handles \<Rightarrow> bool" where
  "create_works T view opened \<longleftrightarrow> (\<forall>st name fl init k res h k'.
     opened k = Map.empty \<longrightarrow> view k (st, name) = None \<longrightarrow> length name \<le> 64 \<longrightarrow>
     TEE_CreatePersistentObject T st name fl 0 init k = (res, h, k') \<longrightarrow>
     res = TEE_SUCCESS \<and> view k' = (view k)((st, name) \<mapsto> init))"

definition seek_works :: "'k tee_core \<Rightarrow> 'k objects \<Rightarrow> 'k handles \<Rightarrow> bool" where
  "seek_works T view opened \<longleftrightarrow> (\<forall>h k ob p. opened k h = Some (ob, p) \<longrightarrow>
     view (snd (TEE_SeekObjectData T h k)) = view k \<and> opened (snd (TEE_SeekObjectData T h k)) h = Some (ob, 0))"

definition read_works :: "'k tee_core \<Rightarrow> 'k objects \<Rightarrow> 'k handles \<Rightarrow> bool" where
  "read_works T view opened \<longleftrightarrow> (\<forall>h k ob d n res bs k'. opened k h = Some (ob, 0) \<longrightarrow> view k ob = Some d \<longrightarrow>
     TEE_ReadObjectData T h n k = (res, bs, k') \<longrightarrow> res = TEE_SUCCESS \<and> bs = take n d \<and> view k' = view k)"

definition write_works :: "'k tee_core \<Rightarrow> 'k objects \<Rightarrow> 'k handles \<Rightarrow> bool" where
  "write_works T view opened \<longleftrightarrow> (\<forall>h k ob d bs res k'. opened k h = Some (ob, 0) \<longrightarrow> view k ob = Some d \<longrightarrow>
     TEE_WriteObjectData T h bs k = (res, k') \<longrightarrow>
     res = TEE_SUCCESS \<and> view k' = (view k)(ob \<mapsto> bs @ drop (length bs) d))"

definition delete_works :: "'k tee_core \<Rightarrow> 'k objects \<Rightarrow> 'k handles \<Rightarrow> bool" where
  "delete_works T view opened \<longleftrightarrow> (\<forall>h k ob p. opened k h = Some (ob, p) \<longrightarrow>
     view (TEE_CloseAndDelete T h k) = (view k)(ob := None))"

definition tee_works :: "'k tee_core \<Rightarrow> 'k objects \<Rightarrow> 'k handles \<Rightarrow> bool" where
  "tee_works T view opened \<longleftrightarrow>
     TEEC_InitializeContext T = TEE_SUCCESS \<and> TEEC_OpenSession T = TEE_SUCCESS \<and> (\<forall>n \<le> 64. TEE_Malloc T n) \<and>
     (\<forall>n. length (shared_memory T n) = n) \<and>
     open_works T view opened \<and> create_works T view opened \<and> seek_works T view opened \<and> read_works T view opened \<and>
     write_works T view opened \<and> delete_works T view opened \<and>
     (\<forall>k. view (TEEC_CloseSession T k) = view k \<and> opened (TEEC_CloseSession T k) = Map.empty)"

section \<open>What the program does to the objects\<close>

text \<open>A map from storages and keys to data, and what each option does to it: status, data shown, new map.\<close>

fun key_op :: "op_flag \<Rightarrow> byte list \<Rightarrow> byte list \<Rightarrow> byte list option \<Rightarrow> bool \<times> dump \<times> byte list option" where
  "key_op OP_FLAG_CREATE data fill None = (True, None, Some [])"
| "key_op OP_FLAG_CREATE data fill (Some d) = (True, None, Some d)"
| "key_op OP_FLAG_READ data fill (Some d) =
     (True, Some (of_nat (length (take 256 d)), take 256 d @ drop (length (take 256 d)) fill), Some d)"
| "key_op OP_FLAG_WRITE data fill (Some d) = (True, Some (256, data), Some (data @ drop 256 d))"
| "key_op OP_FLAG_DELETE data fill (Some d) = (True, None, None)"
| "key_op op data fill None = (False, None, None)"

lemma length_random_data [simp]: "length (random_data rand) = 256"
  by (simp add: random_data_def)

lemma run_op_works:
  assumes "tee_works T view opened" "opened k = [h \<mapsto> (ob, 0)]" "view k ob = Some d" "op \<noteq> OP_FLAG_CREATE"
  shows "\<exists>k'. run_op T rand op h k = Some (TEE_SUCCESS, fst (snd (key_op op (random_data rand) (shared_memory T 256) (Some d))), k') \<and>
    view k' = (view k)(ob := snd (snd (key_op op (random_data rand) (shared_memory T 256) (Some d))))"
proof -
  obtain res k1 where seek: "TEE_SeekObjectData T h k = (res, k1)"
    by fastforce
  have h: "opened k h = Some (ob, 0)"
    using assms(2) by simp
  then have k1: "view k1 = view k" "opened k1 h = Some (ob, 0)" "view k1 ob = Some d"
    using assms(1,3) seek unfolding tee_works_def seek_works_def by (metis snd_conv)+
  show ?thesis
  proof (cases op)
    case OP_FLAG_READ
    obtain res2 bs k2 where rd: "TEE_ReadObjectData T h 256 k1 = (res2, bs, k2)"
      using prod_cases3 by blast
    have "res2 = TEE_SUCCESS \<and> bs = take 256 d \<and> view k2 = view k1"
      using assms(1) k1(2,3) rd unfolding tee_works_def read_works_def by blast
    moreover have "length (shared_memory T 256) = 256"
      using assms(1) by (simp add: tee_works_def)
    ultimately show ?thesis
      using OP_FLAG_READ seek rd k1 fun_upd_idem [of "view k" ob "Some d"] assms(3)
      by (simp add: run_op_def optee_fs_read_def ta_storage_cmd_read_def handle_of_def)
  next
    case OP_FLAG_WRITE
    obtain res2 k2 where wr: "TEE_WriteObjectData T h (random_data rand) k1 = (res2, k2)"
      by fastforce
    have "res2 = TEE_SUCCESS \<and> view k2 = (view k1)(ob \<mapsto> random_data rand @ drop (length (random_data rand)) d)"
      using assms(1) k1(2,3) wr unfolding tee_works_def write_works_def by blast
    then show ?thesis
      using OP_FLAG_WRITE seek wr k1
      by (simp add: run_op_def optee_fs_write_def ta_storage_cmd_write_def)
  next
    case OP_FLAG_DELETE
    have "view (TEE_CloseAndDelete T h k) = (view k)(ob := None)"
      using assms(1) h unfolding tee_works_def delete_works_def by blast
    then show ?thesis
      using OP_FLAG_DELETE
      by (simp add: run_op_def optee_fs_unlink_def ta_storage_cmd_unlink_def)
  qed (use assms in simp)
qed

end
