(* ===== verification/Oss_Properties.thy ===== *)
theory Oss_Properties
  imports Oss_Storage
begin




section \<open>A storage in memory\<close>





text \<open>Two names that share their first bytes are the same file.\<close>

lemma name_prefix_only:
  assumes "ptr_size \<le> length file" "ptr_size \<le> length file'" "take ptr_size file = take ptr_size file'"
  shows "storage_main T ptr_size rand argc type cmd file k = storage_main T ptr_size rand argc type cmd file' k"
proof -
  have same: "slice file 0 ptr_size = slice file' 0 ptr_size"
    using assms by (simp add: slice_def)
  show ?thesis
    unfolding storage_main_def same ..
qed

end
