(* ===== verification/Tt_Json.thy ===== *)
theory Tt_Json
  imports C_Prelude
begin

text \<open>
  The configuration of the test framework \<^verbatim>\<open>tinatest\<close>: the values that \<^verbatim>\<open>mjson.c\<close> takes from a parsed JSON
  tree, and the environments that \<^verbatim>\<open>task.c\<close> loads from it. The parser is json-c's; its tree is a parameter.
  Strings hold no NUL. \<open>None\<close> is undefined behaviour.
\<close>

section \<open>Trees and values\<close>

datatype json =
  JNull
| JBoolean bool
| JDouble
| JInt int
| JObject "(cstr \<times> json) list"
| JArray "json list"
| JString cstr

text \<open>\<open>union mdata\<close> with its type; of doubles only the type matters.\<close>

datatype mvalue =
  m_null
| m_boolean bool
| m_double
| m_int int
| m_object
| m_array "cstr list"
| m_string cstr
| m_error

definition ARRAY_MAX :: nat where "ARRAY_MAX = 30"

text \<open>The strings of an array are stored into \<open>m_array\<close> one by one, without a look at its size.\<close>

fun mjson_get_array_from_obj :: "json list \<Rightarrow> cstr list \<Rightarrow> mvalue option" where
  "mjson_get_array_from_obj [] got = Some (m_array got)"
| "mjson_get_array_from_obj (JString s # js) got =
     (if ARRAY_MAX \<le> length got then None else mjson_get_array_from_obj js (got @ [s]))"
| "mjson_get_array_from_obj (j # js) got = Some m_error"

definition clamp_int :: "int \<Rightarrow> int" where
  "clamp_int i = max (- (2 ^ 31)) (min (2 ^ 31 - 1) i)"

text \<open>For an object that is not \<open>NULL\<close>, which is json-c's form of \<open>null\<close>.\<close>

fun mjson_get_value_from_obj :: "json \<Rightarrow> mvalue option" where
  "mjson_get_value_from_obj JNull = Some m_null"
| "mjson_get_value_from_obj (JBoolean b) = Some (m_boolean b)"
| "mjson_get_value_from_obj JDouble = Some m_double"
| "mjson_get_value_from_obj (JInt i) = Some (m_int (clamp_int i))"
| "mjson_get_value_from_obj (JObject kvs) = Some m_object"
| "mjson_get_value_from_obj (JArray js) = mjson_get_array_from_obj js []"
| "mjson_get_value_from_obj (JString s) = Some (m_string s)"

section \<open>Paths\<close>

definition not_null :: "json \<Rightarrow> json option" where
  "not_null j = (if j = JNull then None else Some j)"

text \<open>The path without one leading slash; the key is cut to 1023 bytes.\<close>

function mjson_fetch_key :: "cstr \<Rightarrow> json option \<Rightarrow> json option" where
  "mjson_fetch_key keypath obj =
     (let pre = (if keypath \<noteq> [] \<and> hd keypath = 47 then tl keypath else keypath);
          nxt = dropWhile (\<lambda>c. c \<noteq> 47) pre;
          key = take 1023 (takeWhile (\<lambda>c. c \<noteq> 47) pre)
      in case obj of
           Some (JObject kvs) \<Rightarrow>
             (case map_of kvs key of
                None \<Rightarrow> None
              | Some v \<Rightarrow> if nxt \<noteq> [] then mjson_fetch_key nxt (not_null v) else not_null v)
         | _ \<Rightarrow> None)"
  by pat_completeness auto
termination
proof (relation "measure (\<lambda>(p, obj). length p)", goal_cases)
  case (2 keypath obj pre nxt key j kvs v)
  have "length nxt \<le> length pre"
    using 2(2) length_dropWhile_le [of "\<lambda>c. c \<noteq> 47" pre] by simp
  moreover have "length nxt < length keypath"
  proof (cases "keypath \<noteq> [] \<and> hd keypath = 47")
    case True
    then show ?thesis
      using 2(1) \<open>length nxt \<le> length pre\<close> by (cases keypath) auto
  next
    case False
    then obtain c r where "keypath = c # r" "c \<noteq> 47" "pre = keypath"
      using 2(1,2,7) by (cases keypath) auto
    then show ?thesis
      using 2(2) length_dropWhile_le [of "\<lambda>c. c \<noteq> 47" r] by simp
  qed
  ultimately show ?case
    by simp
qed simp

declare mjson_fetch_key.simps [simp del]

definition fetch_obj :: "json \<Rightarrow> cstr \<Rightarrow> json option" where
  "fetch_obj root keypath = (if keypath = [47] then not_null root else mjson_fetch_key keypath (Some root))"

definition mjson_fetch :: "json \<Rightarrow> cstr \<Rightarrow> mvalue option" where
  "mjson_fetch root keypath = (case fetch_obj root keypath of
     None \<Rightarrow> Some m_error
   | Some j \<Rightarrow> mjson_get_value_from_obj j)"

text \<open>1, 0, or -1 if there is no boolean at the path.\<close>

definition mjson_fetch_boolean :: "json \<Rightarrow> cstr \<Rightarrow> int option" where
  "mjson_fetch_boolean root keypath = do {
     v \<leftarrow> mjson_fetch root keypath;
     Some (case v of m_boolean b \<Rightarrow> of_bool b | _ \<Rightarrow> -1)
   }"

definition mjson_fetch_string :: "json \<Rightarrow> cstr \<Rightarrow> cstr option option" where
  "mjson_fetch_string root keypath = do {
     v \<leftarrow> mjson_fetch root keypath;
     Some (case v of m_string s \<Rightarrow> Some s | _ \<Rightarrow> None)
   }"

definition mjson_fetch_array :: "json \<Rightarrow> cstr \<Rightarrow> cstr list option" where
  "mjson_fetch_array root keypath = do {
     v \<leftarrow> mjson_fetch root keypath;
     Some (case v of m_array ss \<Rightarrow> take ARRAY_MAX ss | _ \<Rightarrow> [])
   }"

text \<open>
  \<open>mjson_foreach\<close>: the keys and values in their order. A \<open>null\<close> leaves the value of the entry before it, and at
  the first one a variable without a value; a node that is no object is dereferenced as one.
\<close>

fun entry_values :: "mvalue option \<Rightarrow> (cstr \<times> json) list \<Rightarrow> (cstr \<times> mvalue) list option" where
  "entry_values prev [] = Some []"
| "entry_values prev ((k, v) # kvs) = do {
     m \<leftarrow> (if v = JNull then prev else mjson_get_value_from_obj v);
     ms \<leftarrow> entry_values (Some m) kvs;
     Some ((k, m) # ms)
   }"

definition mjson_foreach :: "json \<Rightarrow> cstr \<Rightarrow> (cstr \<times> mvalue) list option" where
  "mjson_foreach root keypath = (case fetch_obj root keypath of
     None \<Rightarrow> Some []
   | Some (JObject kvs) \<Rightarrow> entry_values None kvs
   | Some _ \<Rightarrow> None)"

section \<open>Environments\<close>

record global_env =
  collectd :: bool
  outlog :: bool
  run_cnt_up_to :: int
  tinatest_run_time_sec :: int

record local_env =
  date :: bool
  resource :: bool
  real_time_log :: bool
  run_times_max :: int
  run_alone :: bool
  run_parallel :: bool
  may_reboot :: bool
  testcase_run_once_time_sec :: int
  testcase_run_time_sec :: int
  timeout_as_failed :: bool
  exit_once_failed :: bool
  exit_tinatest_when_fail :: bool

text \<open>Seconds, minutes, hours, days; \<open>None\<close> where an \<open>int\<close> overflows.\<close>

definition int_ok :: "int \<Rightarrow> int option" where
  "int_ok i = (if - (2 ^ 31) \<le> i \<and> i < 2 ^ 31 then Some i else None)"

fun convert_from :: "int list \<Rightarrow> cstr list \<Rightarrow> int \<Rightarrow> int option" where
  "convert_from (u # us) (s # ss) sec = do {
     x \<leftarrow> int_ok (atol s * u);
     sec' \<leftarrow> int_ok (sec + x);
     convert_from us ss sec'
   }"
| "convert_from us ss sec = Some sec"

definition task_convert_time :: "cstr list \<Rightarrow> int option" where
  "task_convert_time ss = map_option (\<lambda>sec. max sec 0) (convert_from [1, 60, 60 * 60, 24 * 60 * 60] ss 0)"

text \<open>The environment and 1 if the entry is known and has its type.\<close>

definition task_load_global_env_do :: "global_env \<Rightarrow> cstr \<Rightarrow> mvalue \<Rightarrow> (global_env \<times> int) option" where
  "task_load_global_env_do g key v = (case v of
     m_int i \<Rightarrow>
       if key = bytes_of ''run_cnt_up_to'' then Some (if 0 < i then g\<lparr>run_cnt_up_to := i\<rparr> else g, 1) else Some (g, 0)
   | m_array ss \<Rightarrow>
       if key = bytes_of ''tinatest_run_time'' then do {
         sec \<leftarrow> task_convert_time ss;
         Some (g\<lparr>tinatest_run_time_sec := sec\<rparr>, 1)
       } else Some (g, 0)
   | _ \<Rightarrow> Some (g, 0))"

definition task_load_local_env_do :: "local_env \<Rightarrow> cstr \<Rightarrow> mvalue \<Rightarrow> (local_env \<times> int) option" where
  "task_load_local_env_do l key v = (case v of
     m_boolean b \<Rightarrow> Some
       (if key = bytes_of ''date'' then (l\<lparr>date := b\<rparr>, 1)
        else if key = bytes_of ''resource'' then (l\<lparr>resource := b\<rparr>, 1)
        else if key = bytes_of ''real_time_log'' then (l\<lparr>real_time_log := b\<rparr>, 1)
        else if key = bytes_of ''run_alone'' then (l\<lparr>run_alone := b\<rparr>, 1)
        else if key = bytes_of ''may_reboot'' then (l\<lparr>may_reboot := b\<rparr>, 1)
        else if key = bytes_of ''run_parallel'' then (l\<lparr>run_parallel := b\<rparr>, 1)
        else if key = bytes_of ''timeout_as_failed'' then (l\<lparr>timeout_as_failed := b\<rparr>, 1)
        else if key = bytes_of ''exit_once_failed'' then (l\<lparr>exit_once_failed := b\<rparr>, 1)
        else if key = bytes_of ''exit_tinatest_when_failed''
             then (l\<lparr>exit_tinatest_when_fail := b, run_alone := b\<rparr>, 1)
        else (l, 0))
   | m_int i \<Rightarrow> Some
       (if key = bytes_of ''run_times'' then (if 0 < i then l\<lparr>run_times_max := i\<rparr> else l, 1) else (l, 0))
   | m_array ss \<Rightarrow>
       if key = bytes_of ''testcase_run_once_time'' then do {
         sec \<leftarrow> task_convert_time ss;
         Some (l\<lparr>testcase_run_once_time_sec := sec\<rparr>, 1)
       }
       else if key = bytes_of ''testcase_run_time'' then do {
         sec \<leftarrow> task_convert_time ss;
         Some (l\<lparr>testcase_run_time_sec := sec\<rparr>, 1)
       }
       else Some (l, 0)
   | _ \<Rightarrow> Some (l, 0))"

fun load_entries :: "('e \<Rightarrow> cstr \<Rightarrow> mvalue \<Rightarrow> ('e \<times> int) option) \<Rightarrow> 'e \<Rightarrow> (cstr \<times> mvalue) list \<Rightarrow> ('e \<times> int) option" where
  "load_entries f e [] = Some (e, 0)"
| "load_entries f e ((k, v) # r) = do {
     (e1, a) \<leftarrow> f e k v;
     (e2, b) \<leftarrow> load_entries f e1 r;
     Some (e2, a + b)
   }"

definition task_load_global_env :: "json \<Rightarrow> global_env \<Rightarrow> cstr \<Rightarrow> (global_env \<times> int) option" where
  "task_load_global_env root g keypath = mjson_foreach root keypath \<bind> load_entries task_load_global_env_do g"

definition task_load_local_env :: "json \<Rightarrow> local_env \<Rightarrow> cstr \<Rightarrow> (local_env \<times> int) option" where
  "task_load_local_env root l keypath = mjson_foreach root keypath \<bind> load_entries task_load_local_env_do l"

definition default_global_env :: global_env where
  "default_global_env = \<lparr>collectd = False, outlog = False, run_cnt_up_to = 10,
     tinatest_run_time_sec = 356 * 24 * 60 * 60\<rparr>"

definition default_local_env :: local_env where
  "default_local_env = \<lparr>date = False, resource = False, real_time_log = False, run_times_max = 1, run_alone = False,
     run_parallel = False, may_reboot = False, testcase_run_once_time_sec = 24 * 60 * 60,
     testcase_run_time_sec = 24 * 60 * 60, timeout_as_failed = False, exit_once_failed = False,
     exit_tinatest_when_fail = False\<rparr>"

definition task_init_sysenv :: "json \<Rightarrow> (global_env \<times> local_env) option" where
  "task_init_sysenv root = do {
     (g, _) \<leftarrow> task_load_global_env root default_global_env (bytes_of ''/sys/global/limit'');
     (l1, _) \<leftarrow> task_load_local_env root default_local_env (bytes_of ''/sys/local/limit'');
     (l2, _) \<leftarrow> task_load_local_env root l1 (bytes_of ''/sys/local/info'');
     c \<leftarrow> mjson_fetch root (bytes_of ''/sys/global/info/collectd'');
     out \<leftarrow> mjson_fetch root (bytes_of ''/sys/global/info/outlog'');
     Some (g\<lparr>collectd := (c = m_object), outlog := (out = m_object)\<rparr>, l2)
   }"

end
