(* ===== verification/Tt_Task.thy ===== *)
theory Tt_Task
  imports Tt_Json
begin

text \<open>
  The list of test cases of \<^verbatim>\<open>tinatest\<close> (\<^verbatim>\<open>task.c\<close>, \<^verbatim>\<open>shmem.c\<close>): walking the tree for nodes with a command, and
  what a task holds. Allocations succeed.
\<close>

section \<open>Tasks\<close>

datatype task_status = TASK_END | TASK_WAIT | TASK_RUN

datatype task_input = TASK_NO_INPUT | TASK_STDIN "cstr list" | TASK_FSTDIN cstr

text \<open>The arrays have an element for each time the test case is to run.\<close>

record task =
  status :: task_status
  killed :: "int list"
  pid :: "int list"
  pid_limit :: int
  logpath :: "cstr option"
  input :: task_input
  res_result :: "int list"
  run_times :: nat
  rebooted_times :: nat
  command :: cstr
  keypath :: cstr
  shmem :: nat
  env :: local_env

text \<open>The tasks, and the names in the shared memory.\<close>

record task_list =
  tasks :: "task list"
  probes :: "cstr list"

section \<open>Shared memory\<close>

text \<open>
  The segment has a page: it is made before the tasks are counted. The entry of a test case has five bytes,
  behind one byte of the program's own; one behind the segment is undefined behaviour. The result is the
  number of the entry.
\<close>

definition SHM_SIZE :: nat where "SHM_SIZE = 4096"

fun position :: "cstr \<Rightarrow> cstr list \<Rightarrow> nat option" where
  "position k [] = None"
| "position k (x # xs) = (if k = x then Some 0 else map_option Suc (position k xs))"

definition shmem_probe :: "cstr \<Rightarrow> cstr list \<Rightarrow> (nat \<times> cstr list) option" where
  "shmem_probe k ps = (case position k ps of
     Some i \<Rightarrow> Some (i, ps)
   | None \<Rightarrow> if 1 + 5 * (length ps + 1) \<le> SHM_SIZE then Some (length ps, ps @ [k]) else None)"

section \<open>Adding a task\<close>

definition join_path :: "cstr \<Rightarrow> cstr \<Rightarrow> cstr" where
  "join_path p k = (if p = [47] then 47 # k else p @ 47 # k)"

definition log_name :: "cstr \<Rightarrow> cstr" where
  "log_name k = bytes_of ''/tmp/tt'' @ map (\<lambda>c. if c = 47 then 45 else c) k @ bytes_of ''.out''"

definition task_add_do :: "json \<Rightarrow> local_env \<Rightarrow> cstr \<Rightarrow> cstr \<Rightarrow> task_list \<Rightarrow> task_list option" where
  "task_add_do root l_env kp cmd ts = do {
     (e, _) \<leftarrow> task_load_local_env root l_env kp;
     let e' = (if may_reboot e then e\<lparr>run_alone := True\<rparr> else e);
     let n = nat (run_times_max e);
     let log = (if real_time_log e then None
       else if may_reboot e then Some (bytes_of ''/mnt/UDISK/tinatest.reboot.log'')
       else Some (log_name kp));
     ss \<leftarrow> mjson_fetch_array root (kp @ bytes_of ''/stdin'');
     inp \<leftarrow> (if ss \<noteq> [] then Some (TASK_STDIN ss) else do {
       f \<leftarrow> mjson_fetch_string root (kp @ bytes_of ''/fstdin'');
       Some (case f of Some s \<Rightarrow> TASK_FSTDIN s | None \<Rightarrow> TASK_NO_INPUT)
     });
     (i, ps) \<leftarrow> shmem_probe kp (probes ts);
     Some \<lparr>tasks = tasks ts @ [\<lparr>status = TASK_WAIT, killed = replicate n 0, pid = replicate n 0, pid_limit = 0,
         logpath = log, input = inp, res_result = replicate n 0, run_times = 0, rebooted_times = 0, command = cmd,
         keypath = kp, shmem = i, env = e'\<rparr>],
       probes = ps\<rparr>
   }"

text \<open>
  The walk, with as much fuel as levels it may go down; \<open>reboot\<close> is \<open>reboot_keypath\<close> if \<open>reboot_mode\<close> is set. The
  path of a child is cut to a buffer that is reckoned from the length of the parent's.
\<close>

function task_add :: "nat \<Rightarrow> json \<Rightarrow> local_env \<Rightarrow> cstr option \<Rightarrow> cstr \<Rightarrow> task_list \<Rightarrow> (nat \<times> task_list) option"
  and add_children :: "nat \<Rightarrow> json \<Rightarrow> local_env \<Rightarrow> cstr option \<Rightarrow> cstr \<Rightarrow> (cstr \<times> mvalue) list \<Rightarrow> task_list \<Rightarrow> (nat \<times> task_list) option"
where
  "task_add 0 root l_env reboot kp ts = None"
| "task_add (Suc n) root l_env reboot kp ts =
     (if kp = [] \<or> hd kp \<noteq> 47 then Some (0, ts)
      else do {
        v \<leftarrow> mjson_fetch root kp;
        if v = m_error then Some (0, ts)
        else do {
          enable \<leftarrow> mjson_fetch_boolean root (join_path kp (bytes_of ''enable''));
          if enable = 0 then Some (0, ts)
          else do {
            cmd \<leftarrow> mjson_fetch_string root (join_path kp (bytes_of ''command''));
            case cmd of
              Some c \<Rightarrow>
                if kp \<in> keypath ` set (tasks ts) then Some (0, ts)
                else if reboot \<noteq> None \<and> tasks ts = [] \<and> reboot \<noteq> Some kp then Some (0, ts)
                else do {
                  ts' \<leftarrow> task_add_do root l_env kp c ts;
                  Some (1, ts')
                }
            | None \<Rightarrow> do {
                kvs \<leftarrow> mjson_foreach root kp;
                add_children n root l_env reboot kp kvs ts
              }
          }
        }
      })"
| "add_children n root l_env reboot kp [] ts = Some (0, ts)"
| "add_children n root l_env reboot kp ((k, v) # kvs) ts =
     (if v = m_object then do {
        (a, ts1) \<leftarrow> task_add n root l_env reboot (take (2 * length kp + 29) (join_path kp k)) ts;
        (b, ts2) \<leftarrow> add_children n root l_env reboot kp kvs ts1;
        Some (a + b, ts2)
      } else add_children n root l_env reboot kp kvs ts)"
  by pat_completeness auto
termination
  by (relation "measures [\<lambda>x. case x of Inl (n, _) \<Rightarrow> n | Inr (n, _) \<Rightarrow> n,
      \<lambda>x. case x of Inl _ \<Rightarrow> 0 | Inr (_, _, _, _, _, kvs, _) \<Rightarrow> Suc (length kvs)]") auto

text \<open>\<open>task_init\<close> for the paths of the command line, all of the tree if there are none; reboots are recovered later.\<close>

fun add_all :: "nat \<Rightarrow> json \<Rightarrow> local_env \<Rightarrow> cstr list \<Rightarrow> task_list \<Rightarrow> (nat \<times> task_list) option" where
  "add_all n root l_env [] ts = Some (0, ts)"
| "add_all n root l_env (p # ps) ts = do {
     (a, ts1) \<leftarrow> task_add n root l_env None p ts;
     (b, ts2) \<leftarrow> add_all n root l_env ps ts1;
     Some (a + b, ts2)
   }"

definition task_init :: "nat \<Rightarrow> json \<Rightarrow> cstr list \<Rightarrow> (nat \<times> global_env \<times> task_list) option" where
  "task_init n root argv = do {
     (g, l) \<leftarrow> task_init_sysenv root;
     (cnt, ts) \<leftarrow> add_all n root l (if argv = [] then [[47]] else argv) \<lparr>tasks = [], probes = []\<rparr>;
     Some (cnt, g, ts)
   }"

end
