(* ===== verification/Tt_Laws.thy ===== *)
theory Tt_Laws
  imports Tt_Task
begin

text \<open>
  Laws of the configuration and of the walk: a path leads to the node with its keys, and the walk adds the
  test cases that \<open>collect\<close> reads off the tree.
\<close>

section \<open>Trees as they are meant\<close>

definition good_key :: "cstr \<Rightarrow> bool" where
  "good_key k \<longleftrightarrow> k \<noteq> [] \<and> 47 \<notin> set k \<and> length k \<le> 28"

text \<open>Keys that fit the buffers, no \<open>null\<close>, and no array that is too long.\<close>

fun ok_json :: "json \<Rightarrow> bool" and ok_entries :: "(cstr \<times> json) list \<Rightarrow> bool" where
  "ok_json JNull = False"
| "ok_json (JArray js) = (length js \<le> ARRAY_MAX)"
| "ok_json (JObject kvs) = (distinct (map fst kvs) \<and> ok_entries kvs)"
| "ok_json _ = True"
| "ok_entries [] = True"
| "ok_entries ((k, v) # kvs) = (good_key k \<and> ok_json v \<and> ok_entries kvs)"

text \<open>The test cases of a node: the topmost nodes with a command, in the order of the file, unless one is disabled.\<close>

fun collect :: "cstr \<Rightarrow> json \<Rightarrow> (cstr \<times> cstr) list"
  and collect_entries :: "cstr \<Rightarrow> (cstr \<times> json) list \<Rightarrow> (cstr \<times> cstr) list" where
  "collect kp (JObject kvs) =
     (if map_of kvs (bytes_of ''enable'') = Some (JBoolean False) then []
      else case map_of kvs (bytes_of ''command'') of
        Some (JString c) \<Rightarrow> [(kp, c)]
      | _ \<Rightarrow> collect_entries kp kvs)"
| "collect kp _ = []"
| "collect_entries kp [] = []"
| "collect_entries kp ((k, v) # kvs) = collect (join_path kp k) v @ collect_entries kp kvs"

fun levels :: "json \<Rightarrow> nat" and levels_entries :: "(cstr \<times> json) list \<Rightarrow> nat" where
  "levels (JObject kvs) = Suc (levels_entries kvs)"
| "levels _ = 0"
| "levels_entries [] = 0"
| "levels_entries ((k, v) # kvs) = max (levels v) (levels_entries kvs)"

fun node_at :: "json \<Rightarrow> cstr list \<Rightarrow> json option" where
  "node_at j [] = Some j"
| "node_at (JObject kvs) (k # ks) = (case map_of kvs k of None \<Rightarrow> None | Some v \<Rightarrow> node_at v ks)"
| "node_at j (k # ks) = None"

definition slashed :: "cstr list \<Rightarrow> cstr" where
  "slashed ks = concat (map (\<lambda>k. 47 # k) ks)"

definition path_of :: "cstr list \<Rightarrow> cstr" where
  "path_of ks = (if ks = [] then [47] else slashed ks)"

lemma slashed_simps [simp]: "slashed [] = []" "slashed (k # ks) = 47 # k @ slashed ks" "slashed (ks @ ks') = slashed ks @ slashed ks'"
  by (simp_all add: slashed_def)

lemma slashed_Nil: "slashed ks = [] \<longleftrightarrow> ks = []"
  by (cases ks) auto

section \<open>Paths\<close>

lemma path_not_root: "good_key k \<Longrightarrow> slashed (k # ks) \<noteq> [47]"
  by (auto simp: good_key_def)

lemma path_of_Cons: "good_key k \<Longrightarrow> path_of (k # ks) \<noteq> [47]"
  using path_not_root by (simp add: path_of_def)

lemma join_path_of: "list_all good_key ks \<Longrightarrow> join_path (path_of ks) k = path_of (ks @ [k])"
  using path_not_root by (cases ks) (auto simp: join_path_def path_of_def)

lemma slash_split:
  "47 \<notin> set k \<Longrightarrow> takeWhile (\<lambda>c. c \<noteq> 47) (k @ slashed ks) = k \<and> dropWhile (\<lambda>c. c \<noteq> 47) (k @ slashed ks) = slashed ks"
  by (cases ks) (auto simp: takeWhile_append dropWhile_append)

lemma slashed_inject:
  "list_all good_key ks \<Longrightarrow> list_all good_key ks' \<Longrightarrow> slashed ks = slashed ks' \<Longrightarrow> ks = ks'"
proof (induction ks arbitrary: ks')
  case Nil
  then show ?case
    using slashed_Nil [of ks'] by simp
next
  case (Cons k ks)
  then obtain k' ls where ks': "ks' = k' # ls"
    by (cases ks') auto
  then have "k @ slashed ks = k' @ slashed ls" "47 \<notin> set k" "47 \<notin> set k'"
    using Cons.prems by (auto simp: good_key_def)
  then have "k = k' \<and> slashed ks = slashed ls"
    using slash_split [of k ks] slash_split [of k' ls] by metis
  then show ?case
    using Cons.IH [of ls] Cons.prems ks' by simp
qed

lemma path_of_inject:
  assumes "list_all good_key ks" "list_all good_key ks'" "path_of ks = path_of ks'"
  shows "ks = ks'"
proof (cases "ks = [] \<or> ks' = []")
  case True
  then show ?thesis
    using assms path_of_Cons by (cases ks; cases ks') (force simp: path_of_def)+
next
  case False
  then show ?thesis
    using assms by (intro slashed_inject) (simp_all add: path_of_def)
qed

lemma fetch_key_null: "mjson_fetch_key p None = None"
  by (subst mjson_fetch_key.simps) (simp add: Let_def)

lemma fetch_key_step:
  assumes "47 \<notin> set k" "length k \<le> 1023"
  shows "mjson_fetch_key (47 # k @ slashed ks) (Some j) = (case j of
      JObject kvs \<Rightarrow> (case map_of kvs k of None \<Rightarrow> None
        | Some v \<Rightarrow> if ks \<noteq> [] then mjson_fetch_key (slashed ks) (not_null v) else not_null v)
    | _ \<Rightarrow> None)"
proof -
  have k: "takeWhile (\<lambda>c. c \<noteq> 47) (k @ slashed ks) = k" "dropWhile (\<lambda>c. c \<noteq> 47) (k @ slashed ks) = slashed ks" "take 1023 k = k"
    using slash_split [OF assms(1)] assms(2) by auto
  show ?thesis
    by (subst mjson_fetch_key.simps) (simp only: Let_def list.sel list.simps if_True k slashed_Nil simp_thms option.case split: json.split)
qed

lemma fetch_key_path:
  assumes "ks \<noteq> []" "list_all good_key ks"
  shows "mjson_fetch_key (slashed ks) (Some j) = Option.bind (node_at j ks) not_null"
  using assms
proof (induction ks arbitrary: j)
  case (Cons k ks)
  have k: "47 \<notin> set k" "length k \<le> 1023"
    using Cons.prems by (auto simp: good_key_def)
  have rest: "(if ks \<noteq> [] then mjson_fetch_key (slashed ks) (not_null v) else not_null v) = Option.bind (node_at v ks) not_null" for v
  proof (cases "ks = []")
    case False
    then obtain k2 ks2 where ks: "ks = k2 # ks2"
      by (cases ks) auto
    show ?thesis
    proof (cases "v = JNull")
      case True
      then show ?thesis
        using ks fetch_key_null by (simp add: not_null_def)
    next
      case v: False
      then have "mjson_fetch_key (slashed ks) (Some v) = Option.bind (node_at v ks) not_null"
        using Cons.IH [of v] Cons.prems False by simp
      then show ?thesis
        using False v by (simp add: not_null_def)
    qed
  qed simp
  show ?case
    unfolding slashed_simps(2) fetch_key_step [OF k] rest by (cases j) (auto split: option.split)
qed simp

lemma fetch_obj_path: "list_all good_key ks \<Longrightarrow> fetch_obj j (path_of ks) = Option.bind (node_at j ks) not_null"
  using fetch_key_path [of ks j] path_of_Cons by (cases ks) (auto simp: fetch_obj_def path_of_def)

section \<open>Values\<close>

lemma get_array_some:
  "length js + length got \<le> ARRAY_MAX \<Longrightarrow>
   \<exists>m. mjson_get_array_from_obj js got = Some m \<and> (m = m_error \<or> (\<exists>ss. m = m_array ss))"
  by (induction js got rule: mjson_get_array_from_obj.induct) auto

definition value_of :: "json \<Rightarrow> mvalue" where
  "value_of j = the (mjson_get_value_from_obj j)"

lemma value_array: "length js \<le> ARRAY_MAX \<Longrightarrow> mjson_get_value_from_obj (JArray js) = Some (value_of (JArray js)) \<and>
    (value_of (JArray js) = m_error \<or> (\<exists>ss. value_of (JArray js) = m_array ss))"
  using get_array_some [of js "[]"] by (auto simp: value_of_def)

lemma value_simps [simp]:
  "value_of (JBoolean b) = m_boolean b" "value_of JDouble = m_double" "value_of (JInt i) = m_int (clamp_int i)"
  "value_of (JObject kvs) = m_object" "value_of (JString s) = m_string s"
  by (simp_all add: value_of_def)

lemma get_value_some: "ok_json j \<Longrightarrow> mjson_get_value_from_obj j = Some (value_of j)"
  using value_array by (cases j) auto

lemma value_object: "ok_json j \<Longrightarrow> value_of j = m_object \<longleftrightarrow> (\<exists>kvs. j = JObject kvs)"
  using value_array by (cases j) force+

lemma value_boolean: "ok_json j \<Longrightarrow> (case value_of j of m_boolean b \<Rightarrow> of_bool b | _ \<Rightarrow> -1) = (case j of JBoolean b \<Rightarrow> of_bool b | _ \<Rightarrow> (-1 :: int))"
  using value_array by (cases j) force+

lemma value_string: "ok_json j \<Longrightarrow> (case value_of j of m_string s \<Rightarrow> Some s | _ \<Rightarrow> None) = (case j of JString s \<Rightarrow> Some s | _ \<Rightarrow> None)"
  using value_array by (cases j) force+

lemma ok_not_null: "ok_json j \<Longrightarrow> not_null j = Some j"
  by (auto simp: not_null_def)

lemma ok_entries_in: "ok_entries kvs \<Longrightarrow> (k, v) \<in> set kvs \<Longrightarrow> good_key k \<and> ok_json v"
  by (induction kvs) auto

lemma ok_node: "ok_json j \<Longrightarrow> node_at j ks = Some v \<Longrightarrow> ok_json v"
proof (induction j ks rule: node_at.induct)
  case (2 kvs k ks)
  then show ?case
    by (auto split: option.splits dest: map_of_SomeD ok_entries_in)
qed auto

lemma node_at_append: "node_at j (ks @ ks') = Option.bind (node_at j ks) (\<lambda>v. node_at v ks')"
  by (induction j ks rule: node_at.induct) (auto split: option.split)

lemma fetch_ok:
  "ok_json root \<Longrightarrow> list_all good_key ks \<Longrightarrow>
   mjson_fetch root (path_of ks) = Some (case node_at root ks of None \<Rightarrow> m_error | Some v \<Rightarrow> value_of v)"
  using ok_node [of root ks] ok_not_null get_value_some
  by (cases "node_at root ks") (simp_all add: mjson_fetch_def fetch_obj_path)

lemma entry_values_ok: "ok_entries kvs \<Longrightarrow> entry_values prev kvs = Some (map (\<lambda>(k, v). (k, value_of v)) kvs)"
  by (induction kvs arbitrary: prev) (auto simp: get_value_some)

lemma foreach_ok:
  "ok_json root \<Longrightarrow> list_all good_key ks \<Longrightarrow> node_at root ks = Some (JObject kvs) \<Longrightarrow>
   mjson_foreach root (path_of ks) = Some (map (\<lambda>(k, v). (k, value_of v)) kvs)"
  using ok_node [of root ks "JObject kvs"] ok_not_null [of "JObject kvs"]
  by (simp add: mjson_foreach_def fetch_obj_path entry_values_ok)

text \<open>The keys the walk looks for.\<close>

lemma sys_keys: "good_key (bytes_of ''enable'')" "good_key (bytes_of ''command'')" "good_key (bytes_of ''stdin'')" "good_key (bytes_of ''fstdin'')"
  by (simp_all add: good_key_def bytes_of_def)

lemma node_child: "node_at root ks = Some (JObject kvs) \<Longrightarrow> node_at root (ks @ [k]) = map_of kvs k"
  by (simp add: node_at_append split: option.split)

lemma fetch_child:
  assumes "ok_json root" "list_all good_key ks" "node_at root ks = Some (JObject kvs)" "good_key k"
  shows "mjson_fetch root (join_path (path_of ks) k) = Some (case map_of kvs k of None \<Rightarrow> m_error | Some v \<Rightarrow> value_of v)"
  using fetch_ok [of root "ks @ [k]"] assms by (simp add: join_path_of node_child)

lemma ok_child: "ok_json root \<Longrightarrow> node_at root ks = Some (JObject kvs) \<Longrightarrow> map_of kvs k = Some v \<Longrightarrow> good_key k \<and> ok_json v"
  using ok_node [of root ks "JObject kvs"] by (auto dest: map_of_SomeD ok_entries_in)

lemma fetch_enable:
  assumes "ok_json root" "list_all good_key ks" "node_at root ks = Some (JObject kvs)"
  shows "mjson_fetch_boolean root (join_path (path_of ks) (bytes_of ''enable'')) =
    Some (case map_of kvs (bytes_of ''enable'') of Some (JBoolean b) \<Rightarrow> of_bool b | _ \<Rightarrow> -1)"
proof (cases "map_of kvs (bytes_of ''enable'')")
  case (Some v)
  then show ?thesis
    using fetch_child [OF assms sys_keys(1)] value_boolean [of v] ok_child [OF assms(1,3) Some]
    by (simp add: mjson_fetch_boolean_def)
qed (simp add: mjson_fetch_boolean_def fetch_child [OF assms sys_keys(1)])

lemma fetch_command:
  assumes "ok_json root" "list_all good_key ks" "node_at root ks = Some (JObject kvs)"
  shows "mjson_fetch_string root (join_path (path_of ks) (bytes_of ''command'')) =
    Some (case map_of kvs (bytes_of ''command'') of Some (JString c) \<Rightarrow> Some c | _ \<Rightarrow> None)"
proof (cases "map_of kvs (bytes_of ''command'')")
  case (Some v)
  then show ?thesis
    using fetch_child [OF assms sys_keys(2)] value_string [of v] ok_child [OF assms(1,3) Some]
    by (simp add: mjson_fetch_string_def)
qed (simp add: mjson_fetch_string_def fetch_child [OF assms sys_keys(2)])

text \<open>What a task reads is defined at every path below a node.\<close>

lemma no_empty_key: "ok_entries kvs \<Longrightarrow> map_of kvs [] = None"
  by (induction kvs) (auto simp: good_key_def)

lemma fetch_any:
  assumes "ok_json root" "list_all good_key ks" "good_key k"
  shows "\<exists>v. mjson_fetch root (path_of ks @ 47 # k) = Some v"
proof (cases "ks = []")
  case True
  have "mjson_fetch_key (47 # 47 # k) (Some root) = None"
    using assms(1) no_empty_key by (subst mjson_fetch_key.simps) (cases root; simp add: Let_def)
  then show ?thesis
    using True by (simp add: mjson_fetch_def fetch_obj_def path_of_def)
next
  case False
  then show ?thesis
    using fetch_ok [of root "ks @ [k]"] assms by (simp add: path_of_def)
qed

section \<open>The walk adds the test cases\<close>

definition env_of :: "json \<Rightarrow> local_env \<Rightarrow> cstr \<Rightarrow> local_env" where
  "env_of root l kp = (let e = fst (the (task_load_local_env root l kp)) in if may_reboot e then e\<lparr>run_alone := True\<rparr> else e)"

text \<open>A task that waits to run a test case as often as its environment says.\<close>

definition task_for :: "json \<Rightarrow> local_env \<Rightarrow> cstr \<times> cstr \<Rightarrow> task \<Rightarrow> bool" where
  "task_for root l kc t \<longleftrightarrow> keypath t = fst kc \<and> command t = snd kc \<and> status t = TASK_WAIT \<and> run_times t = 0 \<and>
     env t = env_of root l (fst kc) \<and> res_result t = replicate (nat (run_times_max (env t))) 0 \<and>
     length (pid t) = length (res_result t) \<and> length (killed t) = length (res_result t)"

definition walk_adds :: "json \<Rightarrow> local_env \<Rightarrow> task_list \<Rightarrow> (cstr \<times> cstr) list \<Rightarrow> (nat \<times> task_list) option \<Rightarrow> bool" where
  "walk_adds root l ts new r \<longleftrightarrow> (\<exists>added ps. r = Some (length new, \<lparr>tasks = tasks ts @ added, probes = ps\<rparr>) \<and>
     list_all2 (task_for root l) new added \<and> length ps \<le> length (probes ts) + length new)"

lemma walk_adds_none: "walk_adds root l ts [] (Some (0, ts))"
  unfolding walk_adds_def by (intro exI [of _ "[]"] exI [of _ "probes ts"]) simp

lemma add_do:
  assumes "ok_json root" "list_all good_key ks" "task_load_local_env root l (path_of ks) \<noteq> None"
    and "1 + 5 * (length (probes ts) + 1) \<le> SHM_SIZE"
  shows "\<exists>t ps. task_add_do root l (path_of ks) c ts = Some \<lparr>tasks = tasks ts @ [t], probes = ps\<rparr> \<and>
    task_for root l (path_of ks, c) t \<and> length ps \<le> length (probes ts) + 1"
proof -
  obtain e n where e: "task_load_local_env root l (path_of ks) = Some (e, n)"
    using assms(3) by auto
  obtain v w where v: "mjson_fetch root (path_of ks @ bytes_of ''/stdin'') = Some v" "mjson_fetch root (path_of ks @ bytes_of ''/fstdin'') = Some w"
    using fetch_any [OF assms(1,2) sys_keys(3)] fetch_any [OF assms(1,2) sys_keys(4)] by (auto simp: bytes_of_def)
  obtain i ps where i: "shmem_probe (path_of ks) (probes ts) = Some (i, ps)" "length ps \<le> length (probes ts) + 1"
    using assms(4) by (cases "position (path_of ks) (probes ts)") (auto simp: shmem_probe_def)
  show ?thesis
    using e v i by (auto simp: task_add_do_def mjson_fetch_array_def mjson_fetch_string_def task_for_def env_of_def Let_def)
qed

lemma child_path:
  assumes "list_all good_key ks" "good_key k"
  shows "take (2 * length (path_of ks) + 29) (join_path (path_of ks) k) = path_of (ks @ [k])"
proof -
  have "0 < length (path_of ks)"
    using slashed_Nil [of ks] by (auto simp: path_of_def)
  then have "length (join_path (path_of ks) k) \<le> 2 * length (path_of ks) + 29"
    using assms(2) by (auto simp: join_path_def good_key_def)
  then show ?thesis
    using join_path_of [OF assms(1), of k] by simp
qed

lemma collect_paths:
  "ok_json v \<Longrightarrow> list_all good_key ks \<Longrightarrow> p \<in> fst ` set (collect (path_of ks) v) \<Longrightarrow>
     \<exists>ks'. p = path_of (ks @ ks') \<and> list_all good_key ks'"
  "ok_entries kvs \<Longrightarrow> list_all good_key ks \<Longrightarrow> p \<in> fst ` set (collect_entries (path_of ks) kvs) \<Longrightarrow>
     \<exists>k \<in> fst ` set kvs. \<exists>ks'. p = path_of (ks @ k # ks') \<and> list_all good_key (k # ks')"
proof (induction v and kvs arbitrary: ks and ks rule: ok_json_ok_entries.induct)
  case (3 kvs)
  then show ?case
    by (auto split: if_splits option.splits json.splits) (force intro: exI [of _ "[]"])+
next
  case (6 k v kvs)
  have k: "list_all good_key (ks @ [k])" "good_key k"
    using 6 by simp_all
  consider "p \<in> fst ` set (collect (path_of (ks @ [k])) v)" | "p \<in> fst ` set (collect_entries (path_of ks) kvs)"
    using 6(5) join_path_of [OF 6(4), of k] by auto
  then show ?case
  proof cases
    case 1
    then obtain ks' where "p = path_of ((ks @ [k]) @ ks')" "list_all good_key ks'"
      using 6(1) [OF _ k(1)] 6(3) by auto
    then show ?thesis
      using k by auto
  next
    case 2
    then show ?thesis
      using 6 by auto
  qed
qed auto


text \<open>Different children have different test cases.\<close>

lemma collect_disjoint:
  assumes "ok_json v" "ok_entries kvs" "list_all good_key ks" "good_key k" "k \<notin> fst ` set kvs"
  shows "fst ` set (collect (path_of (ks @ [k])) v) \<inter> fst ` set (collect_entries (path_of ks) kvs) = {}"
proof -
  have False if p: "p \<in> fst ` set (collect (path_of (ks @ [k])) v)" "p \<in> fst ` set (collect_entries (path_of ks) kvs)" for p
  proof -
    obtain ks' where a: "p = path_of ((ks @ [k]) @ ks')" "list_all good_key ks'"
      using collect_paths(1) [OF assms(1) _ p(1)] assms(3,4) by auto
    obtain k2 ks2 where b: "k2 \<in> fst ` set kvs" "p = path_of (ks @ k2 # ks2)" "list_all good_key (k2 # ks2)"
      using collect_paths(2) [OF assms(2,3) p(2)] by blast
    have "(ks @ [k]) @ ks' = ks @ k2 # ks2"
      by (rule path_of_inject) (use a b assms(3,4) in auto)
    then show False
      using b(1) assms(5) by auto
  qed
  then show ?thesis
    by blast
qed

definition fresh_in :: "task_list \<Rightarrow> (cstr \<times> cstr) list \<Rightarrow> bool" where
  "fresh_in ts new \<longleftrightarrow> fst ` set new \<inter> keypath ` set (tasks ts) = {}"

definition shm_room :: "task_list \<Rightarrow> nat \<Rightarrow> bool" where
  "shm_room ts n \<longleftrightarrow> 1 + 5 * (length (probes ts) + n) \<le> SHM_SIZE"

lemma task_for_paths: "list_all2 (task_for root l) new added \<Longrightarrow> keypath ` set added = fst ` set new"
proof (induction rule: list_all2_induct)
  case (Cons kc new t added)
  then show ?case
    by (simp add: task_for_def)
qed simp

lemma walk_adds_append:
  assumes "walk_adds root l ts a (Some (m, ts1))" "walk_adds root l ts1 b (Some (n, ts2))"
  shows "walk_adds root l ts (a @ b) (Some (m + n, ts2))"
proof -
  obtain added1 ps1 where 1: "m = length a" "ts1 = \<lparr>tasks = tasks ts @ added1, probes = ps1\<rparr>"
    "list_all2 (task_for root l) a added1" "length ps1 \<le> length (probes ts) + length a"
    using assms(1) by (auto simp: walk_adds_def)
  obtain added2 ps2 where 2: "n = length b" "ts2 = \<lparr>tasks = tasks ts1 @ added2, probes = ps2\<rparr>"
    "list_all2 (task_for root l) b added2" "length ps2 \<le> length (probes ts1) + length b"
    using assms(2) by (auto simp: walk_adds_def)
  show ?thesis
    unfolding walk_adds_def
    using 1 2 by (intro exI [of _ "added1 @ added2"] exI [of _ ps2]) (auto intro: list_all2_appendI)
qed

lemma after_walk:
  assumes "walk_adds root l ts a (Some (m, ts1))" "fresh_in ts (a @ b)" "shm_room ts (length (a @ b))"
    "fst ` set a \<inter> fst ` set b = {}"
  shows "fresh_in ts1 b" "shm_room ts1 (length b)"
proof -
  obtain added ps where 1: "ts1 = \<lparr>tasks = tasks ts @ added, probes = ps\<rparr>"
    "list_all2 (task_for root l) a added" "length ps \<le> length (probes ts) + length a"
    using assms(1) by (auto simp: walk_adds_def)
  show "fresh_in ts1 b"
    using 1(1) assms(2,4) task_for_paths [OF 1(2)] unfolding fresh_in_def by (simp add: image_Un Int_Un_distrib Int_Un_distrib2 Int_commute)
  show "shm_room ts1 (length b)"
    using 1 assms(3) by (simp add: shm_room_def)
qed

definition envs_ok :: "json \<Rightarrow> local_env \<Rightarrow> (cstr \<times> cstr) list \<Rightarrow> bool" where
  "envs_ok root l new \<longleftrightarrow> (\<forall>p \<in> fst ` set new. task_load_local_env root l p \<noteq> None)"

text \<open>What may be walked: fresh test cases, room in the shared memory, environments that load.\<close>

definition walk_ready :: "json \<Rightarrow> local_env \<Rightarrow> task_list \<Rightarrow> (cstr \<times> cstr) list \<Rightarrow> bool" where
  "walk_ready root l ts new \<longleftrightarrow> fresh_in ts new \<and> shm_room ts (length new) \<and> envs_ok root l new"

lemma walk_ready_append:
  assumes "walk_ready root l ts (a @ b)"
  shows "walk_ready root l ts a"
    "walk_adds root l ts a (Some (m, ts1)) \<Longrightarrow> fst ` set a \<inter> fst ` set b = {} \<Longrightarrow> walk_ready root l ts1 b"
  using assms after_walk [of root l ts a m ts1 b] by (auto simp: walk_ready_def fresh_in_def shm_room_def envs_ok_def)

definition walks :: "json \<Rightarrow> local_env \<Rightarrow> nat \<Rightarrow> bool" where
  "walks root l n \<longleftrightarrow> (\<forall>ks kvs ts. list_all good_key ks \<longrightarrow> node_at root ks = Some (JObject kvs) \<longrightarrow> levels (JObject kvs) \<le> n \<longrightarrow>
     walk_ready root l ts (collect (path_of ks) (JObject kvs)) \<longrightarrow>
     walk_adds root l ts (collect (path_of ks) (JObject kvs)) (task_add n root l None (path_of ks) ts))"

lemma walksD:
  "walks root l n \<Longrightarrow> list_all good_key ks \<Longrightarrow> node_at root ks = Some (JObject kvs) \<Longrightarrow> levels (JObject kvs) \<le> n \<Longrightarrow>
   walk_ready root l ts (collect (path_of ks) (JObject kvs)) \<Longrightarrow>
   walk_adds root l ts (collect (path_of ks) (JObject kvs)) (task_add n root l None (path_of ks) ts)"
  by (simp only: walks_def)

lemma collect_scalar: "\<nexists>kvs. v = JObject kvs \<Longrightarrow> collect p v = []"
  by (cases v) auto

lemma walk_children:
  assumes "walks root l n" "list_all good_key ks" "ok_entries kvs" "distinct (map fst kvs)"
    "\<forall>(k, v) \<in> set kvs. node_at root (ks @ [k]) = Some v" "levels_entries kvs \<le> n"
    "walk_ready root l ts (collect_entries (path_of ks) kvs)"
  shows "walk_adds root l ts (collect_entries (path_of ks) kvs)
    (add_children n root l None (path_of ks) (map (\<lambda>(k, v). (k, value_of v)) kvs) ts)"
  using assms(3-7)
proof (induction kvs arbitrary: ts)
  case Nil
  then show ?case
    using walk_adds_none by simp
next
  case (Cons e kvs)
  obtain k v where e: "e = (k, v)"
    by (cases e)
  have k: "good_key k" "ok_json v" "node_at root (ks @ [k]) = Some v" "levels v \<le> n"
    using Cons.prems e by auto
  let ?a = "collect (path_of (ks @ [k])) v"
  let ?b = "collect_entries (path_of ks) kvs"
  have new: "collect_entries (path_of ks) (e # kvs) = ?a @ ?b"
    using e join_path_of [OF assms(2)] by simp
  have disj: "fst ` set ?a \<inter> fst ` set ?b = {}"
    using collect_disjoint [of v kvs ks k] k Cons.prems(1,2) e assms(2) by auto
  show ?case
  proof (cases "\<exists>kvs'. v = JObject kvs'")
    case True
    then obtain kvs' where v: "v = JObject kvs'"
      by blast
    have "walk_adds root l ts ?a (task_add n root l None (path_of (ks @ [k])) ts)"
      using walk_ready_append(1) [of root l ts ?a ?b] Cons.prems(5) new k assms(2) unfolding v
      by (intro walksD [OF assms(1)]) (simp_all del: collect.simps levels.simps)
    moreover obtain m ts1 where m: "task_add n root l None (path_of (ks @ [k])) ts = Some (m, ts1)"
      using calculation by (auto simp: walk_adds_def)
    ultimately have a: "walk_adds root l ts ?a (Some (m, ts1))"
      by simp
    have "walk_adds root l ts1 ?b (add_children n root l None (path_of ks) (map (\<lambda>(k, v). (k, value_of v)) kvs) ts1)"
      using Cons.IH [of ts1] Cons.prems walk_ready_append(2) [of root l ts ?a ?b, OF _ a disj] new e by auto
    moreover obtain i ts2 where i: "add_children n root l None (path_of ks) (map (\<lambda>(k, v). (k, value_of v)) kvs) ts1 = Some (i, ts2)"
      using calculation by (auto simp: walk_adds_def)
    ultimately have b: "walk_adds root l ts1 ?b (Some (i, ts2))"
      by simp
    show ?thesis
      using walk_adds_append [OF a b] new m i v e k(1) child_path [OF assms(2)] by simp
  next
    case False
    then have "?a = []" "value_of v \<noteq> m_object"
      using collect_scalar value_object [OF k(2)] by auto
    then show ?thesis
      using Cons.IH [of ts] Cons.prems new e by simp
  qed
qed

lemma walks_all: "ok_json root \<Longrightarrow> walks root l n"
proof (induction n)
  case 0
  then show ?case
    by (simp add: walks_def)
next
  case (Suc n)
  have "walk_adds root l ts (collect (path_of ks) (JObject kvs)) (task_add (Suc n) root l None (path_of ks) ts)"
    if ks: "list_all good_key ks" and node: "node_at root ks = Some (JObject kvs)" and lev: "levels (JObject kvs) \<le> Suc n"
      and walk_ready: "walk_ready root l ts (collect (path_of ks) (JObject kvs))" for ks kvs ts
  proof -
    have hd: "path_of ks \<noteq> []" "hd (path_of ks) = 47"
      by (cases ks; simp add: path_of_def)+
    have f: "mjson_fetch root (path_of ks) = Some m_object"
      using fetch_ok [OF Suc.prems ks] node by simp
    note start = hd f fetch_enable [OF Suc.prems ks node] fetch_command [OF Suc.prems ks node]
    show ?thesis
    proof (cases "map_of kvs (bytes_of ''enable'') = Some (JBoolean False)")
      case True
      then show ?thesis
        using start walk_adds_none by simp
    next
      case False
      then have en: "(case map_of kvs (bytes_of ''enable'') of Some (JBoolean b) \<Rightarrow> of_bool b | _ \<Rightarrow> -1) \<noteq> (0 :: int)"
        by (auto split: option.split json.split)
      show ?thesis
      proof (cases "\<exists>c. map_of kvs (bytes_of ''command'') = Some (JString c)")
        case True
        then obtain c where c: "map_of kvs (bytes_of ''command'') = Some (JString c)"
          by blast
        then have new: "collect (path_of ks) (JObject kvs) = [(path_of ks, c)]"
          using False by simp
        then obtain t ps where t: "task_add_do root l (path_of ks) c ts = Some \<lparr>tasks = tasks ts @ [t], probes = ps\<rparr>"
          "task_for root l (path_of ks, c) t" "length ps \<le> length (probes ts) + 1"
          using add_do [OF Suc.prems ks, of l ts c] walk_ready by (auto simp: walk_ready_def shm_room_def envs_ok_def)
        have "path_of ks \<notin> keypath ` set (tasks ts)"
          using walk_ready new by (auto simp: walk_ready_def fresh_in_def)
        then have "task_add (Suc n) root l None (path_of ks) ts = Some (1, \<lparr>tasks = tasks ts @ [t], probes = ps\<rparr>)"
          using start en c t(1) by simp
        then show ?thesis
          unfolding walk_adds_def new using t(2,3) by simp
      next
        case no: False
        then have cmd: "(case map_of kvs (bytes_of ''command'') of Some (JString c) \<Rightarrow> Some c | _ \<Rightarrow> None) = None"
          by (auto split: option.split json.split)
        have new: "collect (path_of ks) (JObject kvs) = collect_entries (path_of ks) kvs"
          using False no by (auto split: option.split json.split)
        have ok: "ok_entries kvs" "distinct (map fst kvs)"
          using ok_node [OF Suc.prems node] by simp_all
        have "\<forall>(k, v) \<in> set kvs. node_at root (ks @ [k]) = Some v"
          using node_child [OF node] ok(2) by auto
        then have "walk_adds root l ts (collect_entries (path_of ks) kvs)
            (add_children n root l None (path_of ks) (map (\<lambda>(k, v). (k, value_of v)) kvs) ts)"
          using walk_children [OF Suc.IH [OF Suc.prems] ks ok] lev walk_ready new by simp
        then show ?thesis
          using start en cmd foreach_ok [OF Suc.prems ks node] new by simp
      qed
    qed
  qed
  then show ?case
    unfolding walks_def by blast
qed

end
