(* ===== verification/Tt_Run.thy ===== *)
theory Tt_Run
  imports Tt_Task
begin

text \<open>
  Running test cases (\<^verbatim>\<open>task.c\<close>): starting the processes of a task, what the recycling thread does at the death
  of a child, and the counters. The results of \<open>fork\<close> and of the operations on files are parameters. Times, dates, used
  resources and the log plugins are left out. \<open>None\<close> is undefined behaviour.
\<close>

section \<open>State\<close>

text \<open>The entries of the shared memory, the counters, the reboot variables, and the signals that were sent.\<close>

record tt_state =
  running_cnt :: int
  end_cnt :: int
  tasks_cnt :: int
  pgid :: "nat \<Rightarrow> int"
  quit :: "nat \<Rightarrow> bool"
  quit_all :: bool
  reboot_mode :: bool
  reboot_run_times :: nat
  rebooted :: nat
  reboot_keypath :: "cstr option"
  signals :: "(int \<times> int) list"
  forks :: "int list"

record tt_files =
  fboot_created :: bool
  status_written :: bool
  alive :: "int \<Rightarrow> bool"

definition SIGTERM :: int where "SIGTERM = 15"
definition SIGALRM :: int where "SIGALRM = 14"

text \<open>\<open>fork\<close> in the parent: the next process, or an error.\<close>

definition do_fork :: "tt_state \<Rightarrow> int \<times> tt_state" where
  "do_fork s = (case forks s of [] \<Rightarrow> (-1, s) | p # ps \<Rightarrow> (p, s\<lparr>forks := ps\<rparr>))"

definition do_kill :: "int \<Rightarrow> int \<Rightarrow> tt_state \<Rightarrow> tt_state" where
  "do_kill p sig s = s\<lparr>signals := signals s @ [(p, sig)]\<rparr>"

definition set_at :: "nat \<Rightarrow> 'a \<Rightarrow> 'a list \<Rightarrow> 'a list option" where
  "set_at i x xs = (if i < length xs then Some (xs[i := x]) else None)"

section \<open>Counters\<close>

datatype cnt_op = ADD | SUB | ERR

text \<open>\<open>SUB\<close> falls through to the case of \<open>ERR\<close>.\<close>

fun task_mod_running_cnt :: "cnt_op \<Rightarrow> tt_state \<Rightarrow> tt_state" where
  "task_mod_running_cnt ADD s = s\<lparr>running_cnt := running_cnt s + 1\<rparr>"
| "task_mod_running_cnt SUB s = s\<lparr>running_cnt := running_cnt s - 1, end_cnt := end_cnt s + 1\<rparr>"
| "task_mod_running_cnt ERR s = s\<lparr>end_cnt := end_cnt s + 1\<rparr>"

section \<open>Reboots\<close>

definition task_clean_reboot :: "tt_state \<Rightarrow> tt_state" where
  "task_clean_reboot s = s\<lparr>reboot_mode := False, reboot_run_times := 0, rebooted := 0, reboot_keypath := None\<rparr>"

definition task_init_reboot_mode :: "tt_files \<Rightarrow> task \<Rightarrow> tt_state \<Rightarrow> int \<times> task \<times> tt_state" where
  "task_init_reboot_mode f t s =
     (if reboot_mode s then
        (if status_written f then 0 else -1, t\<lparr>run_times := reboot_run_times s, rebooted_times := rebooted s\<rparr>, s)
      else
        let s1 = s\<lparr>reboot_keypath := Some (keypath t), reboot_run_times := run_times t\<rparr>
        in if \<not> fboot_created f then (-1, t, task_clean_reboot s1)
           else (if status_written f then 0 else -1, t, s1))"

section \<open>The end of a task\<close>

definition task_recycle_end :: "task \<Rightarrow> tt_state \<Rightarrow> task \<times> tt_state" where
  "task_recycle_end t s =
     (let s1 = (if 0 < pid_limit t then do_kill (pid_limit t) SIGTERM s else s);
          s2 = (if run_parallel (env t) then do_kill (- pgid s1 (shmem t)) SIGTERM s1 else s1);
          s3 = (if reboot_mode s2 \<and> may_reboot (env t) then
                  let s4 = task_clean_reboot s2 in if 0 < running_cnt s4 then task_mod_running_cnt SUB s4 else s4
                else task_mod_running_cnt SUB s2)
      in (t\<lparr>status := TASK_END\<rparr>, s3))"

section \<open>Starting a task\<close>

definition task_do_limit_tinatest_all :: "tt_files \<Rightarrow> task \<Rightarrow> tt_state \<Rightarrow> int \<times> task \<times> tt_state" where
  "task_do_limit_tinatest_all f t s =
     (if pid_limit t \<noteq> 0 \<and> alive f (pid_limit t) then (0, t, s)
      else case do_fork s of (p, s1) \<Rightarrow> (if p < 0 then 1 else 0, t\<lparr>pid_limit := p\<rparr>, s1))"

definition task_do_limit_tinatest_once :: "task \<Rightarrow> tt_state \<Rightarrow> int \<times> tt_state" where
  "task_do_limit_tinatest_once t s = (case do_fork s of (p, s1) \<Rightarrow>
     if p < 0 then (-1, s1) else (0, s1\<lparr>pgid := (pgid s1)(shmem t := p)\<rparr>))"

text \<open>The loop starts one run, or all that are left if they are to run in parallel.\<close>

function task_do_testcase :: "task \<Rightarrow> tt_state \<Rightarrow> (int \<times> task \<times> tt_state) option" where
  "task_do_testcase t s = (case do_fork s of (p, s1) \<Rightarrow>
     case set_at (run_times t) p (pid t) of
       None \<Rightarrow> None
     | Some ps \<Rightarrow>
         if p < 0 then Some (-1, t\<lparr>pid := ps\<rparr>, do_kill (- \<bar>pgid s1 (shmem t)\<bar>) SIGTERM s1)
         else let t1 = t\<lparr>pid := ps, run_times := run_times t + 1\<rparr>
              in if run_parallel (env t) \<and> int (run_times t1) < run_times_max (env t) then task_do_testcase t1 s1
                 else Some (0, t1, s1))"
  by pat_completeness auto
termination
  by (relation "measure (\<lambda>(t, s). nat (run_times_max (env t) - int (run_times t)))") auto

declare task_do_testcase.simps [simp del]

definition task_do :: "tt_files \<Rightarrow> task \<Rightarrow> tt_state \<Rightarrow> (int \<times> task \<times> tt_state) option" where
  "task_do f t s =
     (case (if may_reboot (env t) then task_init_reboot_mode f t s else (0, t, s)) of (r, t0, s0) \<Rightarrow>
      if r < 0 then Some (-1, t0, s0\<lparr>reboot_mode := False\<rparr>)
      else if run_times_max (env t0) \<le> int (run_times t0) then do {
        (t1, s1) \<leftarrow> (if reboot_mode s0 then do {
            rs \<leftarrow> set_at (run_times t0 - 1) 0 (res_result t0);
            Some (task_recycle_end (t0\<lparr>res_result := rs\<rparr>) s0)
          } else Some (t0, s0));
        Some (0, t1, task_mod_running_cnt SUB s1)
      }
      else case task_do_limit_tinatest_all f t0 s0 of (r1, t1, s1) \<Rightarrow>
        if r1 < 0 then Some (-1, t1, s1)
        else case task_do_limit_tinatest_once t1 s1 of (r2, s2) \<Rightarrow>
          if r2 < 0 then Some (-1, t1, s2) else task_do_testcase t1 s2)"

section \<open>The death of a child\<close>

datatype wstatus = WEXITED int | WSIGNALED int | WOTHER

definition task_recycle_once :: "task \<Rightarrow> nat \<Rightarrow> wstatus \<Rightarrow> int \<Rightarrow> tt_state \<Rightarrow> task \<times> tt_state" where
  "task_recycle_once t num w p s =
     (let res = (case w of WEXITED c \<Rightarrow> c
            | WSIGNALED sig \<Rightarrow> if sig = SIGALRM then of_bool (timeout_as_failed (env t)) else sig
            | WOTHER \<Rightarrow> -1);
          t1 = t\<lparr>pid := (pid t)[num := - p], res_result := (res_result t)[num := res],
            killed := (case w of WSIGNALED sig \<Rightarrow> (killed t)[num := sig] | _ \<Rightarrow> killed t)\<rparr>;
          s1 = (if res \<noteq> 0 \<and> exit_once_failed (env t) then s\<lparr>quit := (quit s)(shmem t := True)\<rparr> else s)
      in (t1, if \<not> run_parallel (env t) \<and> 0 < pgid s1 (shmem t) then do_kill (- pgid s1 (shmem t)) SIGTERM s1 else s1))"

definition task_check_end :: "task \<Rightarrow> tt_state \<Rightarrow> bool" where
  "task_check_end t s \<longleftrightarrow>
     quit_all s \<or> quit s (shmem t) \<or>
     \<not> (run_parallel (env t) \<and> list_ex (\<lambda>p. 0 < p) (take (run_times t) (pid t))) \<and> run_times_max (env t) \<le> int (run_times t)"

text \<open>A run that has been matched: it is recorded, and the task ends or runs again.\<close>

definition recycle_run :: "tt_files \<Rightarrow> task \<Rightarrow> nat \<Rightarrow> wstatus \<Rightarrow> int \<Rightarrow> tt_state \<Rightarrow> (task \<times> tt_state) option" where
  "recycle_run f t num w p s = (case task_recycle_once t num w p s of (t1, s1) \<Rightarrow>
     if task_check_end t1 s1 then Some (task_recycle_end t1 s1)
     else if \<not> run_parallel (env t1) then map_option snd (task_do f t1 s1)
     else Some (t1, s1))"

text \<open>
  The loop over the runs of a task: it goes on behind a run that has failed, stops with \<open>Some True\<close> at one that
  has not, with \<open>Some False\<close> if the program is to end at a failure, and with \<open>None\<close> if there was none. (The
  lengths of the arrays do not change.)
\<close>

function match_runs :: "tt_files \<Rightarrow> nat \<Rightarrow> int \<Rightarrow> wstatus \<Rightarrow> task \<Rightarrow> tt_state \<Rightarrow> (bool option \<times> task \<times> tt_state) option" where
  "match_runs f num p w t s =
     (if run_times t \<le> num then Some (None, t, s)
      else if length (pid t) \<le> num then None
      else if p \<noteq> pid t ! num then match_runs f (Suc num) p w t s
      else case recycle_run f t num w p s of
        None \<Rightarrow> None
      | Some (t1, s1) \<Rightarrow>
          if res_result t1 ! num = 0 then Some (Some True, t1, s1)
          else if exit_tinatest_when_fail (env t1) then Some (Some False, t1, s1)
          else if length (pid t1) \<noteq> length (pid t) then None
          else match_runs f (Suc num) p w t1 s1)"
  by pat_completeness auto
termination
  by (relation "measure (\<lambda>(f, num, p, w, t, s). length (pid t) - num)") auto

declare match_runs.simps [simp del]

text \<open>
  The loop over the tasks, and whether the thread goes on. At the end at a failure all other tasks are
  freed while this loop and the one of \<open>task_begin\<close> stand in the list: \<open>None\<close>, if there are any.
\<close>

fun recycle_child :: "tt_files \<Rightarrow> int \<Rightarrow> wstatus \<Rightarrow> task list \<Rightarrow> task list \<Rightarrow> tt_state \<Rightarrow> (bool \<times> task list \<times> tt_state) option" where
  "recycle_child f p w before [] s = Some (True, before, s)"
| "recycle_child f p w before (t # ts) s =
     (if status t \<noteq> TASK_RUN then recycle_child f p w (before @ [t]) ts s
      else if pgid s (shmem t) = p then Some (True, before @ t # ts, s\<lparr>pgid := (pgid s)(shmem t := - p)\<rparr>)
      else case match_runs f 0 p w t s of
        None \<Rightarrow> None
      | Some (None, t1, s1) \<Rightarrow> recycle_child f p w (before @ [t1]) ts s1
      | Some (Some True, t1, s1) \<Rightarrow> Some (True, before @ t1 # ts, s1)
      | Some (Some False, t1, s1) \<Rightarrow> if before @ ts = [] then Some (False, [t1], s1) else None)"

text \<open>The deaths that \<open>wait4\<close> reports, until every task has ended.\<close>

fun task_recycle :: "tt_files \<Rightarrow> (int \<times> wstatus) list \<Rightarrow> task list \<Rightarrow> tt_state \<Rightarrow> (task list \<times> tt_state) option" where
  "task_recycle f [] ts s = Some (ts, s)"
| "task_recycle f ((p, w) # ds) ts s =
     (if end_cnt s = tasks_cnt s then Some (ts, s)
      else do {
        (go, ts', s') \<leftarrow> recycle_child f p w [] ts s;
        if go then task_recycle f ds ts' s' else Some (ts', s')
      })"

end
