(* ===== verification/Tt_Run_Laws.thy ===== *)
theory Tt_Run_Laws
  imports Tt_Run
begin

text \<open>A task whose runs follow one another: from the death of one run to that of the next.\<close>

definition code_of :: "task \<Rightarrow> wstatus \<Rightarrow> int" where
  "code_of t w = (case w of WEXITED c \<Rightarrow> c
     | WSIGNALED sig \<Rightarrow> if sig = SIGALRM then of_bool (timeout_as_failed (env t)) else sig
     | WOTHER \<Rightarrow> -1)"

definition serial_task :: "task \<Rightarrow> bool" where
  "serial_task t \<longleftrightarrow> \<not> run_parallel (env t) \<and> \<not> may_reboot (env t) \<and> \<not> exit_tinatest_when_fail (env t)"

text \<open>
  The run \<open>k\<close> is process \<open>p\<close>, the ones before have been recorded with \<open>rs\<close>, and \<open>n\<close> are to be made.
\<close>

definition in_run :: "tt_files \<Rightarrow> nat \<Rightarrow> int list \<Rightarrow> int \<Rightarrow> task \<Rightarrow> tt_state \<Rightarrow> bool" where
  "in_run f n rs p t s \<longleftrightarrow>
     serial_task t \<and> status t = TASK_RUN \<and> run_times_max (env t) = int n \<and> length rs < n \<and> run_times t = Suc (length rs) \<and>
     length (pid t) = n \<and> (\<forall>j < length rs. pid t ! j < 0) \<and> pid t ! length rs = p \<and> 0 < p \<and>
     res_result t = rs @ replicate (n - length rs) 0 \<and>
     pid_limit t \<noteq> 0 \<and> alive f (pid_limit t) \<and> pgid s (shmem t) \<noteq> p \<and>
     \<not> quit_all s \<and> \<not> quit s (shmem t) \<and> \<not> reboot_mode s"

lemma match_runs_skip:
  assumes "num \<le> k" "k < run_times t" "run_times t \<le> length (pid t)" "\<forall>j < k. num \<le> j \<longrightarrow> pid t ! j \<noteq> p"
  shows "match_runs f num p w t s = match_runs f k p w t s"
  using assms
proof (induction "k - num" arbitrary: num)
  case (Suc d)
  have now: "num < k"
    using Suc.hyps(2) by simp
  then have "p \<noteq> pid t ! num"
    using Suc.prems(4) by blast
  then have "match_runs f num p w t s = match_runs f (Suc num) p w t s"
    using Suc.prems now by (subst match_runs.simps) simp
  also have "\<dots> = match_runs f k p w t s"
    using Suc.hyps(1) [of "Suc num"] Suc.hyps(2) Suc.prems now by simp
  finally show ?case .
qed simp

lemma match_runs_behind: "run_times t \<le> num \<Longrightarrow> match_runs f num p w t s = Some (None, t, s)"
  by (subst match_runs.simps) simp

lemma serial_once:
  assumes "in_run f n rs p t s" "t1 = fst (task_recycle_once t (length rs) w p s)" "s1 = snd (task_recycle_once t (length rs) w p s)"
  shows "serial_task t1 \<and> status t1 = TASK_RUN \<and> env t1 = env t \<and> run_times t1 = Suc (length rs) \<and> shmem t1 = shmem t \<and>
    pid t1 = (pid t)[length rs := - p] \<and> pid_limit t1 = pid_limit t \<and>
    res_result t1 = rs @ code_of t w # replicate (n - Suc (length rs)) 0 \<and> keypath t1 = keypath t"
    "running_cnt s1 = running_cnt s \<and> end_cnt s1 = end_cnt s \<and> tasks_cnt s1 = tasks_cnt s \<and> forks s1 = forks s \<and>
    pgid s1 = pgid s \<and> quit_all s1 = quit_all s \<and> reboot_mode s1 = reboot_mode s \<and>
    quit s1 (shmem t) = (code_of t w \<noteq> 0 \<and> exit_once_failed (env t))"
proof -
  obtain d where d: "n - length rs = Suc d" "n - Suc (length rs) = d"
    using assms(1) by (cases "n - length rs") (auto simp: in_run_def)
  show "serial_task t1 \<and> status t1 = TASK_RUN \<and> env t1 = env t \<and> run_times t1 = Suc (length rs) \<and> shmem t1 = shmem t \<and>
    pid t1 = (pid t)[length rs := - p] \<and> pid_limit t1 = pid_limit t \<and>
    res_result t1 = rs @ code_of t w # replicate (n - Suc (length rs)) 0 \<and> keypath t1 = keypath t"
    using assms(1) d unfolding assms(2) by (simp add: task_recycle_once_def in_run_def serial_task_def code_of_def list_update_append Let_def)
  show "running_cnt s1 = running_cnt s \<and> end_cnt s1 = end_cnt s \<and> tasks_cnt s1 = tasks_cnt s \<and> forks s1 = forks s \<and>
    pgid s1 = pgid s \<and> quit_all s1 = quit_all s \<and> reboot_mode s1 = reboot_mode s \<and>
    quit s1 (shmem t) = (code_of t w \<noteq> 0 \<and> exit_once_failed (env t))"
    using assms(1) unfolding assms(3) by (simp add: task_recycle_once_def in_run_def code_of_def Let_def do_kill_def)
qed

section \<open>The last run and the others\<close>

text \<open>What the death of a run makes of the task, from what \<open>recycle_run\<close> does.\<close>

lemma serial_death:
  assumes "in_run f n rs p t s" "recycle_run f t (length rs) w p s = Some (t1, s1)"
    and "length (pid t1) = n" "env t1 = env t" "res_result t1 ! length rs = code_of t w"
    and "run_times t1 = Suc (length rs) \<or> run_times t1 = Suc (Suc (length rs)) \<and> Suc (length rs) < n \<and> pid t1 ! Suc (length rs) \<noteq> p"
  shows "recycle_child f p w [] [t] s = Some (True, [t1], s1)"
proof -
  have r: "length rs < run_times t" "run_times t \<le> length (pid t)" "\<forall>j < length rs. pid t ! j \<noteq> p" "pid t ! length rs = p"
    "status t = TASK_RUN" "pgid s (shmem t) \<noteq> p" "length (pid t) = n"
    using assms(1) by (auto simp: in_run_def)
  have stop: "\<not> exit_tinatest_when_fail (env t1)"
    using assms(1,4) by (simp add: in_run_def serial_task_def)
  have rest: "match_runs f (Suc (length rs)) p w t1 s1 = Some (None, t1, s1)"
  proof (cases "run_times t1 = Suc (length rs)")
    case True
    then show ?thesis
      by (simp add: match_runs_behind)
  next
    case False
    then have f: "run_times t1 = Suc (Suc (length rs))" "Suc (length rs) < n" "p \<noteq> pid t1 ! Suc (length rs)"
      using assms(6) by auto
    then show ?thesis
      using assms(3) match_runs_behind [of t1 "Suc (Suc (length rs))"] by (subst match_runs.simps) simp
  qed
  have "match_runs f 0 p w t s = match_runs f (length rs) p w t s"
    using match_runs_skip [of 0 "length rs" t p f w s] r by simp
  also have "\<dots> = Some (if code_of t w = 0 then Some True else None, t1, s1)"
    using r assms(2,3,5) stop rest by (subst match_runs.simps) simp
  finally show ?thesis
    using r by simp
qed

lemma recycle_end_serial:
  assumes "\<not> run_parallel (env t)" "\<not> reboot_mode s"
  shows "fst (task_recycle_end t s) = t\<lparr>status := TASK_END\<rparr>"
    "running_cnt (snd (task_recycle_end t s)) = running_cnt s - 1" "end_cnt (snd (task_recycle_end t s)) = end_cnt s + 1"
    "tasks_cnt (snd (task_recycle_end t s)) = tasks_cnt s"
  using assms by (simp_all add: task_recycle_end_def Let_def do_kill_def)

text \<open>The task ends with its last run, or at a run that fails if it is to.\<close>

lemma serial_end:
  assumes "in_run f n rs p t s" "Suc (length rs) = n \<or> code_of t w \<noteq> 0 \<and> exit_once_failed (env t)"
  shows "\<exists>t1 s1. recycle_child f p w [] [t] s = Some (True, [t1], s1) \<and> status t1 = TASK_END \<and> keypath t1 = keypath t \<and>
    run_times t1 = Suc (length rs) \<and> res_result t1 = rs @ code_of t w # replicate (n - Suc (length rs)) 0 \<and>
    running_cnt s1 = running_cnt s - 1 \<and> end_cnt s1 = end_cnt s + 1 \<and> tasks_cnt s1 = tasks_cnt s"
proof -
  obtain t1 s1 where once: "task_recycle_once t (length rs) w p s = (t1, s1)"
    by fastforce
  note ts = serial_once [OF assms(1), of t1 w s1, unfolded once, simplified]
  have end': "task_check_end t1 s1"
    using assms ts by (auto simp: task_check_end_def in_run_def serial_task_def)
  obtain t2 s2 where e: "task_recycle_end t1 s1 = (t2, s2)"
    by fastforce
  have t2: "t2 = t1\<lparr>status := TASK_END\<rparr>" "running_cnt s2 = running_cnt s1 - 1" "end_cnt s2 = end_cnt s1 + 1" "tasks_cnt s2 = tasks_cnt s1"
    using recycle_end_serial [of t1 s1] e ts assms(1) by (simp_all add: serial_task_def in_run_def)
  have "recycle_run f t (length rs) w p s = Some (t2, s2)"
    using once end' e by (simp add: recycle_run_def)
  then have "recycle_child f p w [] [t] s = Some (True, [t2], s2)"
    using assms(1) ts t2(1) by (intro serial_death) (auto simp: in_run_def nth_append)
  then show ?thesis
    using t2 ts by (intro exI [of _ t2] exI [of _ s2]) simp
qed

text \<open>Otherwise the next run is started, by two forks: its clock, and the run.\<close>

lemma serial_next:
  assumes "in_run f n rs p t s" "Suc (length rs) < n" "code_of t w = 0 \<or> \<not> exit_once_failed (env t)"
    and "forks s = g # p' # ps" "0 < g" "0 < p'" "p' \<noteq> p" "g \<noteq> p'"
  shows "\<exists>t1 s1. recycle_child f p w [] [t] s = Some (True, [t1], s1) \<and> in_run f n (rs @ [code_of t w]) p' t1 s1 \<and>
    forks s1 = ps \<and> env t1 = env t \<and> keypath t1 = keypath t \<and>
    running_cnt s1 = running_cnt s \<and> end_cnt s1 = end_cnt s \<and> tasks_cnt s1 = tasks_cnt s"
proof -
  obtain t1 s1 where once: "task_recycle_once t (length rs) w p s = (t1, s1)"
    by fastforce
  note ts = serial_once [OF assms(1), of t1 w s1, unfolded once, simplified]
  have inr: "serial_task t" "run_times_max (env t) = int n" "length (pid t) = n" "pid_limit t \<noteq> 0" "alive f (pid_limit t)"
    "\<not> quit_all s" "\<not> reboot_mode s" "\<forall>j < length rs. pid t ! j < 0" "0 < p"
    using assms(1) by (simp_all add: in_run_def)
  have go: "\<not> task_check_end t1 s1"
    using assms(2,3) ts inr by (auto simp: task_check_end_def serial_task_def)
  define t2 where "t2 = t1\<lparr>pid := (pid t1)[Suc (length rs) := p'], run_times := Suc (Suc (length rs))\<rparr>"
  define s2 where "s2 = s1\<lparr>forks := ps, pgid := (pgid s1)(shmem t1 := g)\<rparr>"
  have "task_do f t1 s1 = Some (0, t2, s2)"
    using ts inr assms(2,4-6)
    by (simp add: task_do_def serial_task_def task_do_limit_tinatest_all_def task_do_limit_tinatest_once_def do_fork_def
        task_do_testcase.simps set_at_def t2_def s2_def)
  then have "recycle_run f t (length rs) w p s = Some (t2, s2)"
    using once go ts inr(1) by (simp add: recycle_run_def serial_task_def)
  then have "recycle_child f p w [] [t] s = Some (True, [t2], s2)"
    using assms ts inr by (intro serial_death) (auto simp: t2_def nth_append nth_list_update)
  moreover have "in_run f n (rs @ [code_of t w]) p' t2 s2"
  proof -
    have "pid t2 ! j < 0" if "j < Suc (length rs)" for j
      using that ts inr assms(2) by (cases "j = length rs") (simp_all add: t2_def nth_list_update)
    moreover obtain d where "n - Suc (length rs) = Suc d" "n - Suc (Suc (length rs)) = d"
      using assms(2) by (cases "n - Suc (length rs)") auto
    ultimately show ?thesis
      using ts inr assms(2,3,6,8) by (auto simp: in_run_def t2_def s2_def serial_task_def)
  qed
  ultimately show ?thesis
    using ts by (intro exI [of _ t2] exI [of _ s2]) (simp add: t2_def s2_def)
qed

section \<open>All runs\<close>

text \<open>The results of the runs that are made, for how they would end.\<close>

fun results_of :: "task \<Rightarrow> wstatus list \<Rightarrow> int list" where
  "results_of t [] = []"
| "results_of t (w # ws) =
     code_of t w # (if code_of t w \<noteq> 0 \<and> exit_once_failed (env t) then [] else results_of t ws)"

lemma results_of_env: "env t = env t' \<Longrightarrow> results_of t ws = results_of t' ws"
  by (induction ws) (simp_all add: code_of_def)

lemma recycle_over: "end_cnt s = tasks_cnt s \<Longrightarrow> task_recycle f ds ts s = Some (ts, s)"
  by (cases ds) auto

lemma serial_runs:
  assumes "in_run f n rs p t s" "length rs + length ws = n" "length ws = Suc (length gps)"
    and "forks s = concat (map (\<lambda>(g, q). [g, q]) gps)" "\<forall>(g, q) \<in> set gps. 0 < g \<and> 0 < q \<and> g \<noteq> q"
    and "distinct (p # map snd gps)" "tasks_cnt s = end_cnt s + 1"
  shows "\<exists>t' s'. task_recycle f (zip (p # map snd gps) ws) [t] s = Some ([t'], s') \<and> status t' = TASK_END \<and> keypath t' = keypath t \<and>
    res_result t' = rs @ results_of t ws @ replicate (length ws - length (results_of t ws)) 0 \<and>
    run_times t' = length rs + length (results_of t ws) \<and> running_cnt s' = running_cnt s - 1 \<and> end_cnt s' = end_cnt s + 1"
  using assms
proof (induction ws arbitrary: rs p t s gps)
  case (Cons w ws)
  have going: "end_cnt s \<noteq> tasks_cnt s"
    using Cons.prems(7) by simp
  show ?case
  proof (cases "Suc (length rs) = n \<or> code_of t w \<noteq> 0 \<and> exit_once_failed (env t)")
    case True
    then obtain t1 s1 where 1: "recycle_child f p w [] [t] s = Some (True, [t1], s1)" "status t1 = TASK_END" "keypath t1 = keypath t"
      "run_times t1 = Suc (length rs)" "res_result t1 = rs @ code_of t w # replicate (n - Suc (length rs)) 0"
      "running_cnt s1 = running_cnt s - 1" "end_cnt s1 = end_cnt s + 1" "tasks_cnt s1 = tasks_cnt s"
      using serial_end [OF Cons.prems(1)] by blast
    have res: "results_of t (w # ws) = [code_of t w]" "n - Suc (length rs) = length ws"
      using True Cons.prems(2) by auto
    have "task_recycle f (zip (p # map snd gps) (w # ws)) [t] s = Some ([t1], s1)"
      using going 1(1) recycle_over [of s1 f] 1(7,8) Cons.prems(7) by simp
    then show ?thesis
      using 1 res by (intro exI [of _ t1] exI [of _ s1]) (simp del: results_of.simps)
  next
    case False
    then have n: "Suc (length rs) < n" "code_of t w = 0 \<or> \<not> exit_once_failed (env t)"
      using False Cons.prems(2) by (cases ws; auto)+
    then obtain g q gps' where gps: "gps = (g, q) # gps'"
      using Cons.prems(2,3) by (cases gps) auto
    obtain t1 s1 where 1: "recycle_child f p w [] [t] s = Some (True, [t1], s1)" "in_run f n (rs @ [code_of t w]) q t1 s1"
      "forks s1 = concat (map (\<lambda>(g, q). [g, q]) gps')" "env t1 = env t" "keypath t1 = keypath t" "running_cnt s1 = running_cnt s"
      "end_cnt s1 = end_cnt s" "tasks_cnt s1 = tasks_cnt s"
      using serial_next [OF Cons.prems(1) n, of g q "concat (map (\<lambda>(g, q). [g, q]) gps')"] Cons.prems(4-6) gps by auto
    have "\<exists>t' s'. task_recycle f (zip (q # map snd gps') ws) [t1] s1 = Some ([t'], s') \<and> status t' = TASK_END \<and> keypath t' = keypath t1 \<and>
      res_result t' = (rs @ [code_of t w]) @ results_of t1 ws @ replicate (length ws - length (results_of t1 ws)) 0 \<and>
      run_times t' = length (rs @ [code_of t w]) + length (results_of t1 ws) \<and> running_cnt s' = running_cnt s1 - 1 \<and>
      end_cnt s' = end_cnt s1 + 1"
      using Cons.prems(2,3,5-7) gps 1 by (intro Cons.IH) auto
    then show ?thesis
      using going 1 gps n(2) results_of_env [OF 1(4)] by auto
  qed
qed simp

end
