(* ===== verification/Tt_Properties.thy ===== *)
theory Tt_Properties
  imports Tt_Laws Tt_Run_Laws
begin

text \<open>The properties of the test framework, each with a witness.\<close>

section \<open>The list of test cases\<close>

text \<open>
  C39: Without arguments, on a tree with keys that fit the buffers, \<open>task_init\<close> puts the test cases of the tree on
  the list in the order of the file, the topmost nodes with a command below which nothing is looked at,
  without those that are disabled or lie under a disabled node; each waits to run, with the environment of
  the program changed by its own entries, and with results for as many runs as that says. It holds up to
  819 test cases, what the shared memory has room for.
\<close>

theorem test_cases_listed:
  assumes "ok_json root" "root = JObject kvs" "task_init_sysenv root = Some (g, l)" "levels root \<le> n"
    and "length (collect [47] root) \<le> 819" "\<forall>(p, c) \<in> set (collect [47] root). task_load_local_env root l p \<noteq> None"
  shows "\<exists>ts ps. task_init n root [] = Some (length (collect [47] root), g, \<lparr>tasks = ts, probes = ps\<rparr>) \<and>
    list_all2 (task_for root l) (collect [47] root) ts"
proof -
  have root: "path_of [] = [47]" "node_at root [] = Some (JObject kvs)" "levels (JObject kvs) \<le> n"
    using assms(2,4) by (simp_all add: path_of_def)
  have "walk_ready root l \<lparr>tasks = [], probes = []\<rparr> (collect (path_of []) (JObject kvs))"
    using assms(2,5,6) root(1) by (auto simp: walk_ready_def fresh_in_def shm_room_def envs_ok_def SHM_SIZE_def)
  from walksD [OF walks_all [OF assms(1)] _ root(2,3) this] obtain added ps where
    "task_add n root l None [47] \<lparr>tasks = [], probes = []\<rparr> = Some (length (collect [47] root), \<lparr>tasks = added, probes = ps\<rparr>)"
    "list_all2 (task_for root l) (collect [47] root) added"
    using assms(2) root(1) by (auto simp: walk_adds_def)
  then show ?thesis
    using assms(3) by (simp add: task_init_def)
qed

text \<open>A tree with a node to be run 100 times, one that is disabled, and one that has no entries of its own.\<close>

definition small_tree :: json where
  "small_tree = JObject
     [(bytes_of ''sys'', JObject [(bytes_of ''local'', JObject [(bytes_of ''limit'', JObject [(bytes_of ''run_times'', JInt 5)])])]),
      (bytes_of ''demo'', JObject
        [(bytes_of ''demo-c'', JObject [(bytes_of ''command'', JString (bytes_of ''demo-c'')), (bytes_of ''run_times'', JInt 100)]),
         (bytes_of ''demo-sh'', JObject [(bytes_of ''command'', JString (bytes_of ''demo-sh''))])]),
      (bytes_of ''stress'', JObject [(bytes_of ''enable'', JBoolean False),
         (bytes_of ''reboot'', JObject [(bytes_of ''command'', JString (bytes_of ''reboot -f''))])])]"

lemma small_tree_facts:
  "ok_json small_tree" "levels small_tree \<le> 4"
  "collect [47] small_tree = [(bytes_of ''/demo/demo-c'', bytes_of ''demo-c''), (bytes_of ''/demo/demo-sh'', bytes_of ''demo-sh'')]"
  "task_init_sysenv small_tree = Some (default_global_env, default_local_env\<lparr>run_times_max := 5\<rparr>)"
  "env_of small_tree (default_local_env\<lparr>run_times_max := 5\<rparr>) (bytes_of ''/demo/demo-c'') = default_local_env\<lparr>run_times_max := 100\<rparr>"
  "env_of small_tree (default_local_env\<lparr>run_times_max := 5\<rparr>) (bytes_of ''/demo/demo-sh'') = default_local_env\<lparr>run_times_max := 5\<rparr>"
  "task_load_local_env small_tree (default_local_env\<lparr>run_times_max := 5\<rparr>) (bytes_of ''/demo/demo-c'') \<noteq> None"
  "task_load_local_env small_tree (default_local_env\<lparr>run_times_max := 5\<rparr>) (bytes_of ''/demo/demo-sh'') \<noteq> None"
  by code_simp+

theorem test_cases_listed_witness:
  "\<exists>ts ps. task_init 4 small_tree [] = Some (2, default_global_env, \<lparr>tasks = ts, probes = ps\<rparr>) \<and>
    map keypath ts = [bytes_of ''/demo/demo-c'', bytes_of ''/demo/demo-sh''] \<and> map (\<lambda>t. run_times_max (env t)) ts = [100, 5]"
proof -
  obtain kvs where "small_tree = JObject kvs"
    by (simp add: small_tree_def)
  then show ?thesis
    using test_cases_listed [of small_tree kvs default_global_env "default_local_env\<lparr>run_times_max := 5\<rparr>" 4] small_tree_facts
    by (auto simp: list_all2_Cons1 task_for_def)
qed

section \<open>Running a test case\<close>






text \<open>
  A run that cannot be started again leaves its task as one that runs: no death will be reported for it,
  and it is not counted as ended.
\<close>

lemma failed_restart_stays:
  assumes "in_run f n rs p t s" "Suc (length rs) < n" "code_of t w = 0" "forks s = []"
  shows "\<exists>t1 s1. recycle_run f t (length rs) w p s = Some (t1, s1) \<and> status t1 = TASK_RUN \<and> end_cnt s1 = end_cnt s"
proof -
  obtain t1 s1 where once: "task_recycle_once t (length rs) w p s = (t1, s1)"
    by fastforce
  note ts = serial_once [OF assms(1), of t1 w s1, unfolded once, simplified]
  have "\<not> task_check_end t1 s1"
    using assms ts by (auto simp: task_check_end_def serial_task_def in_run_def)
  moreover have "task_do f t1 s1 = Some (-1, t1, s1)"
    using assms ts by (simp add: task_do_def serial_task_def task_do_limit_tinatest_all_def task_do_limit_tinatest_once_def
        do_fork_def in_run_def)
  ultimately show ?thesis
    using once ts by (simp add: recycle_run_def serial_task_def)
qed

end
