(* ===== verification/Spec2Isabelle.thy ===== *)
theory Spec2Isabelle
  imports Keybox_Properties Aactd_Properties Np_Properties Rw_Properties Rd_Properties Im_Properties Uev_Properties Oss_Properties Tt_Properties
begin

text \<open>
  Verification library for programs of the Allwinner packages of this OpenWrt tree. The repository is a
  collection of packages; most are patches, third-party code, or demonstrations around hardware. Nine
  packages with programs of their own logic are modelled: the key box
  (\<^verbatim>\<open>src/allwinner/security/optee-keybox\<close>), the audio control daemon (\<^verbatim>\<open>src/allwinner/audio/aactd\<close> and
  \<^verbatim>\<open>aactd-lib\<close>), the power daemon (\<^verbatim>\<open>src/allwinner/power/nativepower\<close>), two tests of storage,
  \<^verbatim>\<open>rwcheck\<close> and \<^verbatim>\<open>rwdev\<close> (\<^verbatim>\<open>src/allwinner/testtools/testapk\<close>), the parallel loader of kernel modules
  (\<^verbatim>\<open>src/allwinner/common/parallel_insmod\<close>), the monitor of kernel events
  (\<^verbatim>\<open>src/allwinner/common/uevent-monitor-for-rproc_wdt\<close>), the secure storage example
  (\<^verbatim>\<open>src/allwinner/security/optee-secure-storage\<close>), and the core of the test framework \<^verbatim>\<open>tinatest\<close>
  (\<^verbatim>\<open>src/allwinner/testtools/tinatest\<close>). They share no code but a copied checksum;
  what they share of C is in \<open>C_Prelude\<close>, and the theory of their two checksums in \<open>Crc_Reflected\<close>, whose locale \<open>reflected_crc\<close> relates the
  table-driven form of a CRC to the bitwise one and gives its detection of bursts. \<open>Step_Bounds\<close> has sequences of steps, and the
  locale \<open>bounded_steps\<close> that ends them with a rank.

  \<^bold>\<open>Conventions.\<close> C functions are HOL functions of the same name on an explicit state. Byte buffers are
  lists with their real length; a result of type \<open>option\<close> is \<open>None\<close> when the C program would access memory
  outside an object or otherwise has undefined behaviour, or when it blocks for ever. Return codes are
  integers as in the source. Fixed-width integers are words, and wrap. Kernel files, drivers, libuci,
  libdbus and the trusted environment are parameters (records of functions), and what the programs rely
  on of them is a named predicate in the hypotheses of a theorem, for example \<open>wake_kernel\<close>, \<open>uci_stores\<close>,
  \<open>medium_ok\<close>; each such theorem has an instance on a concrete parameter. Output to the console is left
  out, except where it is what a function is for (\<open>sunxi_secure_object_list\<close>).

  \<^bold>\<open>Key box.\<close> A library that keeps keys on a reserved area of the flash, in 33 items of 4096 bytes with two
  copies each; item 0 is a map from names to items.
    \<^item> \<open>Crc32\<close>, \<open>Crc32_Ref\<close> (\<^verbatim>\<open>local_crc32.c\<close>): the table-driven checksum and its equality with the bitwise
      CRC-32; a burst of up to four bytes is always detected.
    \<^item> \<open>Sst_Device\<close> (the lowest layer of \<^verbatim>\<open>secure_storage.c\<close>): the device with its sectors, the layout of the
      items, reading with the fall-back to the second copy, writing of both copies.
    \<^item> \<open>Sst_Object\<close>: the packed object with its checksum; \<open>Sst_Map\<close>: the text of the map, looking up and
      entering names, and the locale \<open>name_index\<close> it implements.
    \<^item> \<open>Sst_Flash\<close>: the static variables (\<open>sst\<close>), the media, and the locale \<open>item_store\<close>; \<open>Sst_Boot\<close>: the
      medium from the kernel command line.
    \<^item> \<open>Secure_Storage\<close>, \<open>Keybox_Laws\<close> (the rest of \<^verbatim>\<open>secure_storage.c\<close> and \<^verbatim>\<open>api.c\<close>): init, exit, read, write, list and
      erase of objects under the mutex, and the two calls of the interface.
    \<^item> \<open>Keybox_Cli\<close> (\<^verbatim>\<open>keybox_na.c\<close>, \<^verbatim>\<open>main.c\<close>, \<^verbatim>\<open>test.c\<close>): provisioning, the command line and the self-test. Two
      of its functions call each other without end and are \<open>partial_function\<close>s.
    \<^item> \<open>Keybox_Properties\<close>: C1 to C12. An open storage refines a map from names to values; what was written is
      read back in later sessions; an interrupted write keeps a verified item; damage is detected; the
      mutex is released; and the cases in which the code does not do what its interface says.

  \<^bold>\<open>Audio control daemon.\<close> It receives parameters for an equalizer and a compressor over TCP and passes
  them to local clients and to registers.
    \<^item> \<open>Aactd_Wire\<close> (\<^verbatim>\<open>communicate.c\<close>, \<^verbatim>\<open>common.c\<close>): the byte form of messages, the locale \<open>arg_codec\<close> for the
      lists of parameters, and \<open>aactd_readn\<close> on a stream that arrives in pieces.
    \<^item> \<open>Aactd_Daemon\<close> (\<^verbatim>\<open>main.c\<close>, \<^verbatim>\<open>local.c\<close>, \<^verbatim>\<open>eq_sw.c\<close>, \<^verbatim>\<open>drc_hw.c\<close>, the test client): setup, the receiving loop and
      the handling of messages. \<open>Aactd_Session\<close>: whole connections.
    \<^item> \<open>Aactd_Clients\<close>, \<open>Aactd_Delivery\<close> (the threads of \<^verbatim>\<open>eq_sw.c\<close>): a step relation of the server thread, up to 32
      client threads, the publisher, and the scheduler's choices; invariants by rule induction.
    \<^item> \<open>Aactd_Properties\<close>: C13 to C21. Messages survive encoding; requests are carried out in order however
      the stream is cut; damaged messages have no effect; sizes are kept; exactly which messages overrun
      a buffer; slots and descriptors stay apart; clients get whole messages in order. Lemmas show
      the ways in which they do not get one.

  \<^bold>\<open>Power daemon.\<close> It applies scenes (sets of clock and processor controls) from a UCI configuration, and
  suspends the system when it is idle, on the power key, or on request.
    \<^item> \<open>Np_Scene\<close>, \<open>Np_Scene_Laws\<close> (\<^verbatim>\<open>np_uci_config.c\<close>, \<^verbatim>\<open>np_scene_utils.c\<close>, \<^verbatim>\<open>scene_manager.c\<close>): reading a scene into
      its fields, the controls in their order, the kernel's list of frequencies, lists of processors.
    \<^item> \<open>Np_Suspend\<close> (\<^verbatim>\<open>libsuspend\<close>): the choice of a backend, a round of the wake-up count thread, and the
      suspend thread with its callers as a step relation over one condition variable. It interprets the
      locale \<open>bounded_steps\<close> of \<open>Step_Bounds\<close>; the bound of 32 steps is the largest rank.
    \<^item> \<open>Np_Power\<close>, \<open>Np_Power_Laws\<close> (\<^verbatim>\<open>power.c\<close>, \<^verbatim>\<open>power_manager.c\<close>, \<^verbatim>\<open>np_input.c\<close>, \<^verbatim>\<open>main.c\<close>, \<^verbatim>\<open>dbus_server.c\<close>, the client
      library): wake locks, the idle time, the power key, the loop, requests through the bus, watches.
    \<^item> \<open>Np_Properties\<close>: C22 to C25. A scene is applied and stored; suspending comes back when calls do not
      overlap, and may not when they do; the idle daemon sleeps exactly when its timeout has passed and no
      lock is held.

  \<^bold>\<open>Flash test.\<close> It fills a file system with files that carry a checksum, checks and removes them, in turns.
    \<^item> \<open>Rw_Crc\<close> (\<^verbatim>\<open>crc16.c\<close>): the checksum, the remainder that good data leaves, bursts of two bytes.
    \<^item> \<open>Rw_Check\<close> (\<^verbatim>\<open>fops.c\<close>, \<^verbatim>\<open>size_unit.c\<close>, \<^verbatim>\<open>sys_info.c\<close>, \<^verbatim>\<open>rwcheck.c\<close>): the program from its options to its turns, on
      a map from paths to contents. What the file system has room for is a parameter; \<open>rw_fs\<close> states what
      a working one does.
    \<^item> \<open>Rw_Laws\<close>: copying, the sizes, and each step of a turn against \<open>rounds\<close>, the files of whole rounds.
    \<^item> \<open>Rw_Properties\<close>: C26 to C29. A run on a working file system ends with success and leaves no trace; a
      created file passes the check, and not after a change within two bytes; the space that is left; and a leftover file that stops the test for good.

  \<^bold>\<open>Device test.\<close> It writes a buffer over and over to a device, reads it back and compares checksums.
    \<^item> \<open>Rd_Dev\<close> (\<^verbatim>\<open>rwdev.c\<close>, \<^verbatim>\<open>speed.c\<close>, its \<^verbatim>\<open>crc16.c\<close>): the program from its options to its loops, on a device
      that is a parameter (\<open>rd_os\<close>); \<open>good_dev\<close> states what a device does that stores its data.
    \<^item> \<open>Rd_Laws\<close>: filling the buffer, what a read leaves in it, the data of the two checksums.
    \<^item> \<open>Rd_Properties\<close>: C30 to C33. A run on a device that stores its data succeeds; the verification cannot
      tell whether anything was written; what it can tell; when the buffer is filled.

  \<^bold>\<open>Parallel loader.\<close> Four threads load kernel modules, grouped by their height in the graph of dependencies.
    \<^item> \<open>Im_Threads\<close> (\<^verbatim>\<open>parallel_insmod.c\<close>): the list, and a step relation of the loading threads, their
      children, and of \<open>main\<close>, which starts them. It interprets \<open>bounded_steps\<close>: 8 for each line and 12 more
      bound the steps that are left. \<open>line_len\<close>, which has no value, is taken for the
      size of the buffer of \<open>getline\<close>.
    \<^item> \<open>Im_Properties\<close>: C34, C35. A group is only begun when the one before has been loaded, under every
      interleaving; and the threads end with everything loaded, since only finitely many steps are possible
      and one is possible until then.

  \<^bold>\<open>Event monitor.\<close> \<open>Uev_Monitor\<close> has the parser of a datagram of the kernel and the loop around \<open>recv\<close>.
  \<open>Uev_Properties\<close>: C36, C37. What is shown for any datagrams, and that the fields of an event of a watchdog
  come through.

  \<^bold>\<open>Secure storage example.\<close> \<open>Oss_Storage\<close> has the trusted application (\<^verbatim>\<open>storage.c\<close>, \<^verbatim>\<open>ta_entry.c\<close>), the client
  library (\<^verbatim>\<open>libstorage.c\<close>) and the program (\<^verbatim>\<open>demo.c\<close>), over the storage of the trusted environment, a parameter
  of which \<open>tee_works\<close> says what is relied on. \<open>Oss_Properties\<close>: C38. Every command of the program does to the
  objects what it means to a map from keys to data.

  \<^bold>\<open>Test framework.\<close> It reads test cases from a JSON tree, runs each as a process as often as it says, and
  gathers the results.
    \<^item> \<open>Tt_Json\<close> (\<^verbatim>\<open>mjson.c\<close>, and the environments in \<^verbatim>\<open>task.c\<close>): values of the parsed tree and what is loaded from
      them. \<open>Tt_Task\<close> (\<^verbatim>\<open>task.c\<close>, \<^verbatim>\<open>shmem.c\<close>): the walk over the tree and the list of tasks. The walk has fuel, one
      for each node on a path; the levels of the tree are enough, which \<open>Tt_Laws\<close> shows with the equality of
      the walk with \<open>collect\<close>, a recursion on the tree itself.
    \<^item> \<open>Tt_Run\<close>, \<open>Tt_Run_Laws\<close> (\<^verbatim>\<open>task.c\<close>): the start of the processes of a task, and the thread that recycles
      them, for the children whose deaths it is told.
    \<^item> \<open>Tt_Properties\<close>: C39, C40. Which test cases are listed, in what state; and that a serial task is started
      again after each run until its end, where it is counted once.
  Of \<^verbatim>\<open>tinatest\<close> the thread \<open>task_begin\<close> that starts the waiting tasks, the recovery after a reboot, signal handlers,
  the deletion of tasks, and the plugins are not modelled.

  \<^bold>\<open>Termination.\<close> Loops are structurally recursive or have a measure: the rest of a buffer, of a string, or
  of the events that arrive. Only the walk of the test framework has fuel, since the paths and not the tree
  are its argument. The endless loops of threads are step relations, or
  functions of one turn. The loops of the two tests depend on files and devices and are \<open>partial_function\<close>s;
  that those of the flash test end is proved for a file system below 64 TB, where the number of rounds stays an \<open>int\<close>.

  \<^bold>\<open>Not modelled.\<close> Allocation failures in the key box and in \<^verbatim>\<open>np_uci_open\<close>; the big-endian branches of the
  message library; the frame buffer thread of \<^verbatim>\<open>autosuspend_earlysuspend.c\<close>, which only follows kernel files;
  \<^verbatim>\<open>autosuspend_autosleep.c\<close>, which is disabled; the interior of libraries that are not in the repository.
  Threads of the flash test run one after another, since each has a file of its own; the cancellation of
  threads that have ended is undefined behaviour there.
  All other packages: the demonstrations of media, display and camera drivers and the hardware tests are
  sequences of driver calls; the remaining OP-TEE programs are single calls of the trusted environment;
  the feeds and third-party directories are patches, package descriptions and code of others.
\<close>

end
